(* ===== verification/Prelude.thy ===== *)
theory Prelude
  imports Main "HOL-Library.Word"
begin

section \<open>Types, errors and shared lemmas\<close>

text \<open>
  What every component of the development shares: the Go types the model uses (a \<open>byte\<close> is
  an 8-bit word, a \<open>[]byte\<close> a list of them, a Go \<open>string\<close> a list of 8-bit
  characters), the conversions between \<open>string\<close> and \<open>[]byte\<close>, the collections of rewrite
  rules of the development, and the lemmas on lists, maps and words that the components use.
\<close>

type_synonym byte = "8 word"
type_synonym bytes = "byte list"
type_synonym u32 = "32 word"
type_synonym u64 = "64 word"

text \<open>
  Go's \<open>int32\<close> and \<open>int64\<close> have the bit patterns of \<open>uint32\<close> and \<open>uint64\<close> and are read by
  \<open>sint\<close>; a conversion between the two kinds keeps the bits.
\<close>

type_synonym i32 = "32 word"
type_synonym i64 = "64 word"

named_theorems wire "decoders applied to what the encoders wrote"
named_theorems go_defs "definitions unfolded when a closed term is evaluated"

definition byte_of_char :: "char \<Rightarrow> byte" where
  "byte_of_char c = of_char c"

definition char_of_byte :: "byte \<Rightarrow> char" where
  "char_of_byte b = char_of (unat b)"

definition bytes_of_str :: "string \<Rightarrow> bytes" where
  "bytes_of_str s = map byte_of_char s"

definition str_of_bytes :: "bytes \<Rightarrow> string" where
  "str_of_bytes bs = map char_of_byte bs"

lemma unat_byte_of_char: "unat (byte_of_char c) = of_char c"
proof -
  have "(of_char c :: byte) = word_of_nat (of_char c)"
    by (rule of_nat_of_char [symmetric])
  moreover have "(of_char c :: nat) < 2 ^ 8"
    using nat_of_char_less_256 [of c] by simp
  ultimately show ?thesis
    by (simp add: byte_of_char_def unat_of_nat)
qed

lemma char_of_byte_of_char [simp]: "char_of_byte (byte_of_char c) = c"
  by (simp add: char_of_byte_def unat_byte_of_char)

lemma length_bytes_of_str [simp]: "length (bytes_of_str s) = length s"
  by (simp add: bytes_of_str_def)

lemma length_str_of_bytes [simp]: "length (str_of_bytes s) = length s"
  by (simp add: str_of_bytes_def)

lemma str_of_bytes_of_str [simp]: "str_of_bytes (bytes_of_str s) = s"
  by (simp add: str_of_bytes_def bytes_of_str_def comp_def)

lemma bytes_of_str_Nil_iff [simp]: "bytes_of_str s = [] \<longleftrightarrow> s = []"
  by (simp add: bytes_of_str_def)

lemma bytes_of_str_inj [simp]: "bytes_of_str s = bytes_of_str t \<longleftrightarrow> s = t"
  by (metis str_of_bytes_of_str)

lemma byte_of_char_of_byte [simp]: "byte_of_char (char_of_byte b) = b"
proof -
  have "unat b < 256"
    using unsigned_less [of b] by simp
  then have "unat (byte_of_char (char_of_byte b)) = unat b"
    by (simp add: unat_byte_of_char char_of_byte_def)
  then show ?thesis
    by (simp add: unsigned_word_eqI word_unat_eq_iff)
qed

lemma bytes_of_str_of_bytes [simp]: "bytes_of_str (str_of_bytes bs) = bs"
  by (simp add: str_of_bytes_def bytes_of_str_def comp_def)

lemma bytes_of_str_append [simp]: "bytes_of_str (s @ t) = bytes_of_str s @ bytes_of_str t"
  by (simp add: bytes_of_str_def)

lemma str_of_bytes_append [simp]: "str_of_bytes (s @ t) = str_of_bytes s @ str_of_bytes t"
  by (simp add: str_of_bytes_def)

subsection \<open>Results and errors of the Go input and output calls\<close>

text \<open>
  A fallible Go call returns \<open>Inl\<close> of its error or \<open>Inr\<close> of its result. \<open>EOF\<close> and
  \<open>UnexpectedEOF\<close> are the two errors of \<open>io.ReadFull\<close> on a stream that ends; \<open>IOFail\<close> is any
  other error of a stream.
\<close>

datatype io_error = EOF | UnexpectedEOF | IOFail

text \<open>
  A reader is what the code does with an \<open>io.Reader\<close>: \<open>io.ReadFull\<close> of a given number of
  bytes. A writer is one \<open>Write\<close> call. Both act on a stream state of any type.
\<close>

type_synonym 's reader = "nat \<Rightarrow> 's \<Rightarrow> (io_error + bytes) \<times> 's"
type_synonym 's writer = "bytes \<Rightarrow> 's \<Rightarrow> io_error option \<times> 's"

subsection \<open>Injective maps\<close>

text \<open>Tables in which no two keys share a value, after one entry more or less.\<close>

lemma inj_map_upd:
  assumes "inj_on m (dom m)" and "\<And>b. m b \<noteq> Some x"
  shows "inj_on (m(k := Some x)) (dom (m(k := Some x)))"
proof (rule inj_onI)
  fix a b assume ab: "a \<in> dom (m(k := Some x))" "b \<in> dom (m(k := Some x))"
    "(m(k := Some x)) a = (m(k := Some x)) b"
  show "a = b"
  proof (cases "a = k \<or> b = k")
    case True
    with ab(3) assms(2) [of a] assms(2) [of b] show ?thesis by (auto split: if_splits)
  next
    case False
    with ab show ?thesis by (auto intro: inj_onD [OF assms(1)])
  qed
qed

lemma inj_map_del: "inj_on m (dom m) \<Longrightarrow> inj_on (m(k := None)) (dom (m(k := None)))"
  by (auto simp: inj_on_def)

lemma ran_map_del:
  assumes "inj_on m (dom m)" and "m h = Some f"
  shows "ran (m(h := None)) = ran m - {f}"
proof
  show "ran (m(h := None)) \<subseteq> ran m - {f}"
    using assms by (auto simp: ran_def inj_on_def dom_def split: if_splits)
  show "ran m - {f} \<subseteq> ran (m(h := None))"
  proof
    fix x
    assume "x \<in> ran m - {f}"
    then obtain a where a: "m a = Some x" "x \<noteq> f" by (auto simp: ran_def)
    then have "a \<noteq> h" using assms(2) by auto
    with a(1) have "(m(h := None)) a = Some x" by simp
    then show "x \<in> ran (m(h := None))" by (rule ranI)
  qed
qed

end
