(* ===== verification/Streams.thy ===== *)
theory Streams
  imports Prelude "HOL-Library.Sublist"
begin

unbundle bit_operations_syntax

section \<open>Byte streams and big-endian integers\<close>

text \<open>
  The part of Go's standard library that the wire formats stand on: \<open>io.ReadFull\<close> and
  \<open>Write\<close> on an in-memory buffer and on a peer that stops accepting bytes, and the
  big-endian conversions of \<open>encoding/binary\<close>. The two locales state what the codecs need of a
  stream; they are interpreted here on the buffer and on the bounded peer, and in the theories
  of the components on their own streams.
\<close>

subsection \<open>Reading\<close>

locale byte_source =
  fixes rd :: "'s reader"
    and pending :: "'s \<Rightarrow> bytes"
  assumes rd_full: "n \<le> length (pending s) \<Longrightarrow> fst (rd n s) = Inr (take n (pending s))"
    and rd_short: "length (pending s) < n \<Longrightarrow> isl (fst (rd n s))"
    and rd_pending: "pending (snd (rd n s)) = drop n (pending s)"
begin

lemma rd_exact:
  assumes "pending s = xs @ ys" and "length xs = n"
  shows "\<exists>s'. rd n s = (Inr xs, s') \<and> pending s' = ys"
proof -
  from assms have "fst (rd n s) = Inr xs" and "pending (snd (rd n s)) = ys"
    using rd_full [of n s] by (auto simp: rd_pending)
  then show ?thesis
    by (cases "rd n s") auto
qed

lemma rd_shortE:
  assumes "length (pending s) < n"
  shows "\<exists>e s'. rd n s = (Inl e, s') \<and> pending s' = []"
proof -
  from assms have "isl (fst (rd n s))" and "pending (snd (rd n s)) = []"
    using rd_short [OF assms] by (auto simp: rd_pending)
  then show ?thesis
    by (cases "rd n s") (auto simp: isl_def)
qed

end

text \<open>A source that ends says so: \<open>io.EOF\<close> before the first byte, \<open>io.ErrUnexpectedEOF\<close> after it.\<close>

locale ending_source = byte_source +
  assumes rd_eof: "length (pending s) < n \<Longrightarrow>
    fst (rd n s) = Inl (if pending s = [] then EOF else UnexpectedEOF)"

text \<open>\<open>bytes.Buffer\<close>: the state is the unread bytes. \<open>io.ReadFull\<close> of no bytes reads nothing.\<close>

definition buf_read :: "bytes reader" where
  "buf_read n s =
     (if n \<le> length s then (Inr (take n s), drop n s)
      else (Inl (if s = [] then EOF else UnexpectedEOF), []))"

interpretation buf: ending_source buf_read "\<lambda>s. s"
  by unfold_locales (auto simp: buf_read_def)

subsection \<open>Writing\<close>

locale byte_sink =
  fixes wr :: "'s writer"
    and written :: "'s \<Rightarrow> bytes"
  assumes wr_ok: "wr bs s = (None, s') \<Longrightarrow> written s' = written s @ bs"
    and wr_err: "wr bs s = (Some e, s') \<Longrightarrow>
      prefix (written s') (written s @ bs) \<and> (bs \<noteq> [] \<longrightarrow> written s' \<noteq> written s @ bs)"

definition buf_write :: "bytes writer" where
  "buf_write bs s = (None, s @ bs)"

text \<open>A peer that takes at most \<open>sk_room\<close> more bytes (\<open>None\<close>: any number) and then breaks.\<close>

record sink =
  sk_out :: bytes
  sk_room :: "nat option"

definition sink_write :: "sink writer" where
  "sink_write bs s =
     (case sk_room s of
        None \<Rightarrow> (None, s\<lparr>sk_out := sk_out s @ bs\<rparr>)
      | Some r \<Rightarrow>
          (if length bs \<le> r
           then (None, s\<lparr>sk_out := sk_out s @ bs, sk_room := Some (r - length bs)\<rparr>)
           else (Some IOFail, s\<lparr>sk_out := sk_out s @ take r bs, sk_room := Some 0\<rparr>)))"

interpretation buf_sink: byte_sink buf_write "\<lambda>s. s"
  by unfold_locales (auto simp: buf_write_def)

interpretation peer_sink: byte_sink sink_write sk_out
proof unfold_locales
  fix bs s s' assume "sink_write bs s = (None, s')"
  then show "sk_out s' = sk_out s @ bs"
    by (auto simp: sink_write_def split: option.splits if_splits)
next
  fix bs s e s' assume "sink_write bs s = (Some e, s')"
  then obtain r where "r < length bs" and "sk_out s' = sk_out s @ take r bs"
    by (auto simp: sink_write_def not_le split: option.splits if_splits)
  then show "prefix (sk_out s') (sk_out s @ bs) \<and> (bs \<noteq> [] \<longrightarrow> sk_out s' \<noteq> sk_out s @ bs)"
    by (simp add: take_is_prefix)
qed

subsection \<open>Big-endian integers\<close>

definition be32 :: "u32 \<Rightarrow> bytes" where
  "be32 v = [ucast (drop_bit 24 v), ucast (drop_bit 16 v), ucast (drop_bit 8 v), ucast v]"

definition un_be32 :: "bytes \<Rightarrow> u32" where
  "un_be32 b = ucast (b ! 3) OR push_bit 8 (ucast (b ! 2)) OR
     push_bit 16 (ucast (b ! 1)) OR push_bit 24 (ucast (b ! 0))"

definition be64 :: "u64 \<Rightarrow> bytes" where
  "be64 v = [ucast (drop_bit 56 v), ucast (drop_bit 48 v), ucast (drop_bit 40 v),
     ucast (drop_bit 32 v), ucast (drop_bit 24 v), ucast (drop_bit 16 v), ucast (drop_bit 8 v),
     ucast v]"

definition un_be64 :: "bytes \<Rightarrow> u64" where
  "un_be64 b = ucast (b ! 7) OR push_bit 8 (ucast (b ! 6)) OR push_bit 16 (ucast (b ! 5)) OR
     push_bit 24 (ucast (b ! 4)) OR push_bit 32 (ucast (b ! 3)) OR push_bit 40 (ucast (b ! 2)) OR
     push_bit 48 (ucast (b ! 1)) OR push_bit 56 (ucast (b ! 0))"

lemma length_be32 [simp]: "length (be32 v) = 4"
  by (simp add: be32_def)

lemma length_be64 [simp]: "length (be64 v) = 8"
  by (simp add: be64_def)

lemma be32_neq_Nil [simp]: "be32 v \<noteq> []"
  by (simp add: be32_def)

lemma be64_neq_Nil [simp]: "be64 v \<noteq> []"
  by (simp add: be64_def)

text \<open>One byte of a word, moved out and back, keeps the bits of its window and no others.\<close>

lemma bit_byte_window:
  "bit (push_bit k (ucast (ucast (drop_bit k v) :: byte)) :: 'a::len word) n \<longleftrightarrow>
     k \<le> n \<and> n < k + 8 \<and> n < LENGTH('a) \<and> bit (v :: 'a word) n"
  by (auto simp: bit_simps)

lemma bit_byte_window0:
  "bit (ucast (ucast v :: byte) :: 'a::len word) n \<longleftrightarrow> n < 8 \<and> n < LENGTH('a) \<and> bit (v :: 'a word) n"
  by (auto simp: bit_simps)

lemma un_be32_be32: "un_be32 (be32 v @ rest) = v"
proof (rule bit_word_eqI)
  fix n assume "n < LENGTH(32)"
  then show "bit (un_be32 (be32 v @ rest)) n = bit v n"
    unfolding un_be32_def be32_def
    by (cases "bit v n") (simp_all add: bit_or_iff bit_byte_window bit_byte_window0, arith)
qed

lemma un_be64_be64: "un_be64 (be64 v @ rest) = v"
proof (rule bit_word_eqI)
  fix n assume "n < LENGTH(64)"
  then show "bit (un_be64 (be64 v @ rest)) n = bit v n"
    unfolding un_be64_def be64_def
    by (cases "bit v n") (simp_all add: bit_or_iff bit_byte_window bit_byte_window0, arith)
qed

lemma un_be32_be32' [simp]: "un_be32 (be32 v) = v"
  using un_be32_be32 [of v "[]"] by simp

lemma un_be64_be64' [simp]: "un_be64 (be64 v) = v"
  using un_be64_be64 [of v "[]"] by simp

text \<open>Reading a word and writing it again gives back the bytes read.\<close>

lemma bit_byte_ge: "8 \<le> n \<Longrightarrow> \<not> bit (b :: byte) n"
  by (auto dest: bit_imp_le_length)

lemma be32_un_be32:
  assumes "4 \<le> length bs"
  shows "be32 (un_be32 bs) = take 4 bs"
proof -
  from assms obtain a b c d rest where bs: "bs = a # b # c # d # rest"
    by (auto simp: numeral_eq_Suc Suc_le_length_iff)
  show ?thesis
    unfolding bs be32_def un_be32_def
    by (auto intro!: bit_word_eqI simp: bit_simps bit_byte_ge)
qed

lemma be64_un_be64:
  assumes "8 \<le> length bs"
  shows "be64 (un_be64 bs) = take 8 bs"
proof -
  from assms obtain a b c d e f g h rest where bs: "bs = a # b # c # d # e # f # g # h # rest"
    by (auto simp: numeral_eq_Suc Suc_le_length_iff)
  show ?thesis
    unfolding bs be64_def un_be64_def
    by (auto intro!: bit_word_eqI simp: bit_simps bit_byte_ge)
qed

end
