(* ===== verification/Protocol.thy ===== *)
theory Protocol
  imports Streams
begin

unbundle bit_operations_syntax

section \<open>The IO-RPC wire format (internal/protocol/protocol.go)\<close>

text \<open>
  The frame format spoken by the interceptor, the adapter and the executor: the operation codes,
  the request and response records, the frame layer (\<open>writeFrame\<close>, \<open>readFrame\<close>), the body
  builder and the body parser with its sticky error, and the two codecs. A frame reader or writer
  takes the stream operation as an argument, as the code takes an \<open>io.Reader\<close> or an \<open>io.Writer\<close>.
  \<open>int32\<close> and \<open>int64\<close> fields hold the two's complement bits, so \<open>i32\<close> and \<open>i64\<close> of the builder
  and the parser are \<open>u32\<close> and \<open>u64\<close>.
\<close>

subsection \<open>Operations, requests and responses\<close>

type_synonym op = byte

abbreviation OpStat :: op where "OpStat \<equiv> 1"
abbreviation OpOpen :: op where "OpOpen \<equiv> 2"
abbreviation OpPread :: op where "OpPread \<equiv> 3"
abbreviation OpWriteFile :: op where "OpWriteFile \<equiv> 4"
abbreviation OpClose :: op where "OpClose \<equiv> 5"
abbreviation OpReaddir :: op where "OpReaddir \<equiv> 6"
abbreviation OpPwrite :: op where "OpPwrite \<equiv> 7"
abbreviation OpCreate :: op where "OpCreate \<equiv> 8"
abbreviation OpUnlink :: op where "OpUnlink \<equiv> 9"
abbreviation OpMkdir :: op where "OpMkdir \<equiv> 10"
abbreviation OpRename :: op where "OpRename \<equiv> 11"
abbreviation OpSetattr :: op where "OpSetattr \<equiv> 12"
abbreviation OpServerInfo :: op where "OpServerInfo \<equiv> 13"

abbreviation UnlinkRmdir :: u32 where "UnlinkRmdir \<equiv> 1"
abbreviation SetMode :: u32 where "SetMode \<equiv> 1"
abbreviation SetSize :: u32 where "SetSize \<equiv> 2"
abbreviation SetAtime :: u32 where "SetAtime \<equiv> 4"
abbreviation SetMtime :: u32 where "SetMtime \<equiv> 8"

abbreviation DTUnknown :: byte where "DTUnknown \<equiv> 0"
abbreviation DTDir :: byte where "DTDir \<equiv> 4"
abbreviation DTReg :: byte where "DTReg \<equiv> 8"
abbreviation DTLnk :: byte where "DTLnk \<equiv> 10"

definition MaxFrame :: nat where
  "MaxFrame = 67108864"

record request =
  rq_Op :: op
  rq_Path :: string
  rq_Path2 :: string
  rq_Flags :: u32
  rq_Mode :: u32
  rq_Mask :: u32
  rq_Handle :: u64
  rq_Off :: i64
  rq_Len :: u32
  rq_Size :: i64
  rq_Atime :: i64
  rq_Mtime :: i64
  rq_Data :: bytes

record response =
  rs_Err :: i32
  rs_Mode :: u32
  rs_Size :: i64
  rs_Handle :: u64
  rs_Mtime :: i64
  rs_Data :: bytes
  rs_Names :: "string list"
  rs_Types :: "byte list"
  rs_OS :: string
  rs_Arch :: string

text \<open>The Go literals \<open>&Request{Op: op}\<close> and \<open>&Response{Err: e}\<close>: all other fields are zero.\<close>

definition request0 :: "op \<Rightarrow> request" where
  "request0 opc = \<lparr>rq_Op = opc, rq_Path = [], rq_Path2 = [], rq_Flags = 0, rq_Mode = 0,
     rq_Mask = 0, rq_Handle = 0, rq_Off = 0, rq_Len = 0, rq_Size = 0, rq_Atime = 0, rq_Mtime = 0,
     rq_Data = []\<rparr>"

definition response0 :: "i32 \<Rightarrow> response" where
  "response0 e = \<lparr>rs_Err = e, rs_Mode = 0, rs_Size = 0, rs_Handle = 0, rs_Mtime = 0,
     rs_Data = [], rs_Names = [], rs_Types = [], rs_OS = [], rs_Arch = []\<rparr>"

definition IsDir :: "response \<Rightarrow> bool" where
  "IsDir r \<longleftrightarrow> rs_Mode r AND 0xF000 = 0x4000"

text \<open>
  \<open>fmt.Errorf\<close> results as values: the stream's own error, a frame above \<open>MaxFrame\<close>, the parser's
  message, an unknown operation.
\<close>

datatype proto_error =
    StreamError io_error
  | FrameTooLarge nat
  | ParseError string
  | UnknownRequestOp op

subsection \<open>Frames\<close>

definition writeFrame :: "'s writer \<Rightarrow> bytes \<Rightarrow> 's \<Rightarrow> proto_error option \<times> 's" where
  "writeFrame wr body s =
     (if length body > MaxFrame then (Some (FrameTooLarge (length body)), s)
      else case wr (be32 (word_of_nat (length body))) s of
        (Some e, s1) \<Rightarrow> (Some (StreamError e), s1)
      | (None, s1) \<Rightarrow>
          (case wr body s1 of
             (Some e, s2) \<Rightarrow> (Some (StreamError e), s2)
           | (None, s2) \<Rightarrow> (None, s2)))"

definition readFrame :: "'s reader \<Rightarrow> 's \<Rightarrow> (proto_error + bytes) \<times> 's" where
  "readFrame rd s =
     (case rd 4 s of
        (Inl e, s1) \<Rightarrow> (Inl (StreamError e), s1)
      | (Inr hdr, s1) \<Rightarrow>
          (let n = unat (un_be32 hdr) in
           if n > MaxFrame then (Inl (FrameTooLarge n), s1)
           else case rd n s1 of
             (Inl e, s2) \<Rightarrow> (Inl (StreamError e), s2)
           | (Inr body, s2) \<Rightarrow> (Inr body, s2)))"

subsection \<open>The body builder\<close>

type_synonym builder = bytes

definition e_u8 :: "byte \<Rightarrow> builder \<Rightarrow> builder" where
  "e_u8 v e = e @ [v]"

definition e_u32 :: "u32 \<Rightarrow> builder \<Rightarrow> builder" where
  "e_u32 v e = e @ be32 v"

definition e_u64 :: "u64 \<Rightarrow> builder \<Rightarrow> builder" where
  "e_u64 v e = e @ be64 v"

definition e_i32 :: "i32 \<Rightarrow> builder \<Rightarrow> builder" where
  "e_i32 v e = e_u32 v e"

definition e_i64 :: "i64 \<Rightarrow> builder \<Rightarrow> builder" where
  "e_i64 v e = e_u64 v e"

definition e_bytes :: "bytes \<Rightarrow> builder \<Rightarrow> builder" where
  "e_bytes v e = e_u32 (word_of_nat (length v)) e @ v"

definition e_str :: "string \<Rightarrow> builder \<Rightarrow> builder" where
  "e_str v e = e_u32 (word_of_nat (length v)) e @ bytes_of_str v"

subsection \<open>The body parser\<close>

record parser =
  p_b :: bytes
  p_err :: "proto_error option"

definition p_fail :: "string \<Rightarrow> parser \<Rightarrow> parser" where
  "p_fail msg p = (if p_err p = None then p\<lparr>p_err := Some (ParseError msg)\<rparr> else p)"

definition p_u8 :: "parser \<Rightarrow> byte \<times> parser" where
  "p_u8 p =
     (if p_err p \<noteq> None \<or> length (p_b p) < 1 then (0, p_fail ''short u8'' p)
      else (p_b p ! 0, p\<lparr>p_b := drop 1 (p_b p)\<rparr>))"

definition p_u32 :: "parser \<Rightarrow> u32 \<times> parser" where
  "p_u32 p =
     (if p_err p \<noteq> None \<or> length (p_b p) < 4 then (0, p_fail ''short u32'' p)
      else (un_be32 (p_b p), p\<lparr>p_b := drop 4 (p_b p)\<rparr>))"

definition p_u64 :: "parser \<Rightarrow> u64 \<times> parser" where
  "p_u64 p =
     (if p_err p \<noteq> None \<or> length (p_b p) < 8 then (0, p_fail ''short u64'' p)
      else (un_be64 (p_b p), p\<lparr>p_b := drop 8 (p_b p)\<rparr>))"

definition p_i32 :: "parser \<Rightarrow> i32 \<times> parser" where
  "p_i32 p = p_u32 p"

definition p_i64 :: "parser \<Rightarrow> i64 \<times> parser" where
  "p_i64 p = p_u64 p"

definition p_left :: "parser \<Rightarrow> nat" where
  "p_left p = (if p_err p \<noteq> None then 0 else length (p_b p))"

definition p_bytes :: "parser \<Rightarrow> bytes \<times> parser" where
  "p_bytes p =
     (let (n, p) = p_u32 p in
      if p_err p \<noteq> None \<or> word_of_nat (length (p_b p)) < n then ([], p_fail ''short bytes'' p)
      else (take (unat n) (p_b p), p\<lparr>p_b := drop (unat n) (p_b p)\<rparr>))"

definition p_str :: "parser \<Rightarrow> string \<times> parser" where
  "p_str p = (let (v, p) = p_bytes p in (str_of_bytes v, p))"

subsection \<open>The request codec\<close>

definition encodeRequest :: "request \<Rightarrow> proto_error + builder" where
  "encodeRequest req =
     (let e = e_u8 (rq_Op req) []; opc = rq_Op req in
      if opc = OpStat \<or> opc = OpReaddir then Inr (e_str (rq_Path req) e)
      else if opc = OpOpen then Inr (e_str (rq_Path req) (e_u32 (rq_Flags req) e))
      else if opc = OpPread then
        Inr (e_u32 (rq_Len req) (e_i64 (rq_Off req) (e_u64 (rq_Handle req) e)))
      else if opc = OpWriteFile then Inr (e_bytes (rq_Data req) (e_str (rq_Path req) e))
      else if opc = OpClose then Inr (e_u64 (rq_Handle req) e)
      else if opc = OpPwrite then
        Inr (e_bytes (rq_Data req) (e_i64 (rq_Off req) (e_u64 (rq_Handle req) e)))
      else if opc = OpCreate then
        Inr (e_u32 (rq_Mode req) (e_u32 (rq_Flags req) (e_str (rq_Path req) e)))
      else if opc = OpUnlink then Inr (e_u32 (rq_Flags req) (e_str (rq_Path req) e))
      else if opc = OpMkdir then Inr (e_u32 (rq_Mode req) (e_str (rq_Path req) e))
      else if opc = OpRename then Inr (e_str (rq_Path2 req) (e_str (rq_Path req) e))
      else if opc = OpSetattr then
        Inr (e_i64 (rq_Mtime req) (e_i64 (rq_Atime req) (e_i64 (rq_Size req)
          (e_u32 (rq_Mode req) (e_u32 (rq_Mask req) (e_str (rq_Path req) e))))))
      else if opc = OpServerInfo then Inr e
      else Inl (UnknownRequestOp opc))"

definition WriteRequest :: "'s writer \<Rightarrow> request \<Rightarrow> 's \<Rightarrow> proto_error option \<times> 's" where
  "WriteRequest wr req s =
     (case encodeRequest req of
        Inl e \<Rightarrow> (Some e, s)
      | Inr body \<Rightarrow> writeFrame wr body s)"

text \<open>The switch of \<open>ReadRequest\<close>; \<open>None\<close> is its \<open>default\<close> branch.\<close>

definition decodeRequestFields :: "op \<Rightarrow> parser \<Rightarrow> (request \<times> parser) option" where
  "decodeRequestFields opc p =
     (let req = request0 opc in
      if opc = OpStat \<or> opc = OpReaddir then
        (let (path, p) = p_str p in Some (req\<lparr>rq_Path := path\<rparr>, p))
      else if opc = OpOpen then
        (let (flags, p) = p_u32 p; (path, p) = p_str p in
         Some (req\<lparr>rq_Flags := flags, rq_Path := path\<rparr>, p))
      else if opc = OpPread then
        (let (h, p) = p_u64 p; (off, p) = p_i64 p; (len, p) = p_u32 p in
         Some (req\<lparr>rq_Handle := h, rq_Off := off, rq_Len := len\<rparr>, p))
      else if opc = OpWriteFile then
        (let (path, p) = p_str p; (data, p) = p_bytes p in
         Some (req\<lparr>rq_Path := path, rq_Data := data\<rparr>, p))
      else if opc = OpClose then
        (let (h, p) = p_u64 p in Some (req\<lparr>rq_Handle := h\<rparr>, p))
      else if opc = OpPwrite then
        (let (h, p) = p_u64 p; (off, p) = p_i64 p; (data, p) = p_bytes p in
         Some (req\<lparr>rq_Handle := h, rq_Off := off, rq_Data := data\<rparr>, p))
      else if opc = OpCreate then
        (let (path, p) = p_str p; (flags, p) = p_u32 p; (mode, p) = p_u32 p in
         Some (req\<lparr>rq_Path := path, rq_Flags := flags, rq_Mode := mode\<rparr>, p))
      else if opc = OpUnlink then
        (let (path, p) = p_str p; (flags, p) = p_u32 p in
         Some (req\<lparr>rq_Path := path, rq_Flags := flags\<rparr>, p))
      else if opc = OpMkdir then
        (let (path, p) = p_str p; (mode, p) = p_u32 p in
         Some (req\<lparr>rq_Path := path, rq_Mode := mode\<rparr>, p))
      else if opc = OpRename then
        (let (path, p) = p_str p; (path2, p) = p_str p in
         Some (req\<lparr>rq_Path := path, rq_Path2 := path2\<rparr>, p))
      else if opc = OpSetattr then
        (let (path, p) = p_str p; (mask, p) = p_u32 p; (mode, p) = p_u32 p;
             (size, p) = p_i64 p; (atime, p) = p_i64 p; (mtime, p) = p_i64 p in
         Some (req\<lparr>rq_Path := path, rq_Mask := mask, rq_Mode := mode, rq_Size := size,
           rq_Atime := atime, rq_Mtime := mtime\<rparr>, p))
      else if opc = OpServerInfo then Some (req, p)
      else None)"

definition decodeRequest :: "bytes \<Rightarrow> proto_error + request" where
  "decodeRequest body =
     (let (opc, p) = p_u8 \<lparr>p_b = body, p_err = None\<rparr> in
      case decodeRequestFields opc p of
        None \<Rightarrow> Inl (UnknownRequestOp opc)
      | Some (req, p) \<Rightarrow> (case p_err p of Some e \<Rightarrow> Inl e | None \<Rightarrow> Inr req))"

definition ReadRequest :: "'s reader \<Rightarrow> 's \<Rightarrow> (proto_error + request) \<times> 's" where
  "ReadRequest rd s =
     (case readFrame rd s of
        (Inl e, s) \<Rightarrow> (Inl e, s)
      | (Inr body, s) \<Rightarrow> (decodeRequest body, s))"

subsection \<open>The response codec\<close>

text \<open>The loop over \<open>resp.Names\<close>; a name without an entry in \<open>resp.Types\<close> gets type 0.\<close>

fun e_dirents :: "string list \<Rightarrow> byte list \<Rightarrow> builder \<Rightarrow> builder" where
  "e_dirents [] ts e = e"
| "e_dirents (n # ns) ts e =
     e_dirents ns (drop 1 ts) (e_u8 (case ts of [] \<Rightarrow> 0 | t # _ \<Rightarrow> t) (e_str n e))"

definition encodeResponse :: "op \<Rightarrow> response \<Rightarrow> builder" where
  "encodeResponse opc resp =
     (let e = e_i32 (rs_Err resp) [] in
      if rs_Err resp \<noteq> 0 then e
      else if opc = OpStat \<or> opc = OpOpen \<or> opc = OpCreate then
        (let e = e_i64 (rs_Size resp) (e_u32 (rs_Mode resp) e);
             e = (if opc \<noteq> OpStat then e_u64 (rs_Handle resp) e else e)
         in e_i64 (rs_Mtime resp) e)
      else if opc = OpPread then e_bytes (rs_Data resp) e
      else if opc = OpPwrite then e_i64 (rs_Size resp) e
      else if opc = OpReaddir then
        e_dirents (rs_Names resp) (rs_Types resp)
          (e_u32 (word_of_nat (length (rs_Names resp))) e)
      else if opc = OpServerInfo then e_str (rs_Arch resp) (e_str (rs_OS resp) e)
      else e)"

definition WriteResponse :: "'s writer \<Rightarrow> op \<Rightarrow> response \<Rightarrow> 's \<Rightarrow> proto_error option \<times> 's" where
  "WriteResponse wr opc resp s = writeFrame wr (encodeResponse opc resp) s"

text \<open>
  The \<open>READDIR\<close> loop runs while entries are left and no error is set; it appends what the parser
  returns before it looks at the error again.
\<close>

fun p_dirents :: "nat \<Rightarrow> parser \<Rightarrow> string list \<Rightarrow> byte list \<Rightarrow> (string list \<times> byte list) \<times> parser" where
  "p_dirents 0 p ns ts = ((ns, ts), p)"
| "p_dirents (Suc n) p ns ts =
     (if p_err p \<noteq> None then ((ns, ts), p)
      else let (nm, p) = p_str p; (t, p) = p_u8 p in p_dirents n p (ns @ [nm]) (ts @ [t]))"

definition decodeResponseFields :: "op \<Rightarrow> response \<Rightarrow> parser \<Rightarrow> response \<times> parser" where
  "decodeResponseFields opc resp p =
     (if opc = OpStat \<or> opc = OpOpen \<or> opc = OpCreate then
        (let (mode, p) = p_u32 p; (size, p) = p_i64 p;
             resp = resp\<lparr>rs_Mode := mode, rs_Size := size\<rparr>;
             (resp, p) = (if opc \<noteq> OpStat
                then (let (h, p) = p_u64 p in (resp\<lparr>rs_Handle := h\<rparr>, p)) else (resp, p))
         in if p_left p \<ge> 8
            then (let (mt, p) = p_i64 p in (resp\<lparr>rs_Mtime := mt\<rparr>, p)) else (resp, p))
      else if opc = OpPread then
        (let (data, p) = p_bytes p in (resp\<lparr>rs_Data := data\<rparr>, p))
      else if opc = OpPwrite then
        (let (size, p) = p_i64 p in (resp\<lparr>rs_Size := size\<rparr>, p))
      else if opc = OpReaddir then
        (let (n, p) = p_u32 p; ((ns, ts), p) = p_dirents (unat n) p [] [] in
         (resp\<lparr>rs_Names := ns, rs_Types := ts\<rparr>, p))
      else if opc = OpServerInfo then
        (let (os, p) = p_str p; (arch, p) = p_str p in
         (resp\<lparr>rs_OS := os, rs_Arch := arch\<rparr>, p))
      else (resp, p))"

definition decodeResponse :: "op \<Rightarrow> bytes \<Rightarrow> proto_error + response" where
  "decodeResponse opc body =
     (let (err, p) = p_i32 \<lparr>p_b = body, p_err = None\<rparr>;
          resp = response0 err;
          (resp, p) = (if rs_Err resp = 0 then decodeResponseFields opc resp p else (resp, p))
      in case p_err p of Some e \<Rightarrow> Inl e | None \<Rightarrow> Inr resp)"

definition ReadResponse :: "'s reader \<Rightarrow> op \<Rightarrow> 's \<Rightarrow> (proto_error + response) \<times> 's" where
  "ReadResponse rd opc s =
     (case readFrame rd s of
        (Inl e, s) \<Rightarrow> (Inl e, s)
      | (Inr body, s) \<Rightarrow> (decodeResponse opc body, s))"

subsection \<open>One field: what the parser reads of what the builder wrote\<close>

text \<open>
  The contract between a builder method and the parser method of the same name: what is written
  is appended, reading it back gives the value and leaves the rest, a successful read has read
  exactly an encoding, and an error that is set stays.
\<close>

locale wire_field =
  fixes put :: "'a \<Rightarrow> builder \<Rightarrow> builder"
    and get :: "parser \<Rightarrow> 'a \<times> parser"
    and enc :: "'a \<Rightarrow> bytes"
    and fits :: "'a \<Rightarrow> bool"
  assumes put_enc: "put v e = e @ enc v"
    and get_enc: "fits v \<Longrightarrow> length (enc v @ rest) < 2 ^ 32 \<Longrightarrow>
      get \<lparr>p_b = enc v @ rest, p_err = None\<rparr> = (v, \<lparr>p_b = rest, p_err = None\<rparr>)"
    and get_inv: "get p = (v, p') \<Longrightarrow> p_err p' = None \<Longrightarrow>
      p_err p = None \<and> fits v \<and> p_b p = enc v @ p_b p'"
    and get_sticky: "p_err p \<noteq> None \<Longrightarrow> p_err (snd (get p)) = p_err p"
begin

lemma get_enc_last:
  "fits v \<Longrightarrow> length (enc v) < 2 ^ 32 \<Longrightarrow>
    get \<lparr>p_b = enc v, p_err = None\<rparr> = (v, \<lparr>p_b = [], p_err = None\<rparr>)"
  using get_enc [of v "[]"] by simp

lemma get_put:
  "fits v \<Longrightarrow> length (enc v @ rest) < 2 ^ 32 \<Longrightarrow>
    get \<lparr>p_b = put v [] @ rest, p_err = None\<rparr> = (v, \<lparr>p_b = rest, p_err = None\<rparr>)"
  using get_enc [of v rest] by (simp add: put_enc)

lemma enc_prefix_free:
  assumes "fits v" and "fits w" and "enc v @ xs = enc w @ ys" and "length (enc v @ xs) < 2 ^ 32"
  shows "v = w \<and> xs = ys"
proof -
  have "get \<lparr>p_b = enc v @ xs, p_err = None\<rparr> = (v, \<lparr>p_b = xs, p_err = None\<rparr>)"
    using assms(1,4) by (rule get_enc)
  moreover have "get \<lparr>p_b = enc v @ xs, p_err = None\<rparr> = (w, \<lparr>p_b = ys, p_err = None\<rparr>)"
    using get_enc [OF assms(2), of ys] assms(4) unfolding assms(3) by simp
  ultimately show ?thesis by simp
qed

end

definition enc_bytes :: "bytes \<Rightarrow> bytes" where
  "enc_bytes v = be32 (word_of_nat (length v)) @ v"

definition enc_str :: "string \<Rightarrow> bytes" where
  "enc_str v = enc_bytes (bytes_of_str v)"

lemma p_fail_err [simp]: "p_err (p_fail msg p) \<noteq> None"
  by (simp add: p_fail_def)

lemma p_fail_sticky [simp]: "p_err p \<noteq> None \<Longrightarrow> p_fail msg p = p"
  by (auto simp: p_fail_def)

interpretation f_u8: wire_field e_u8 p_u8 "\<lambda>v. [v]" "\<lambda>_. True"
proof unfold_locales
  fix p v p' assume "p_u8 p = (v, p')" and "p_err p' = None"
  then show "p_err p = None \<and> True \<and> p_b p = [v] @ p_b p'"
    by (cases "p_b p") (auto simp: p_u8_def split: if_splits)
qed (auto simp: e_u8_def p_u8_def)

interpretation f_u32: wire_field e_u32 p_u32 be32 "\<lambda>_. True"
proof unfold_locales
  fix p v p' assume "p_u32 p = (v, p')" and "p_err p' = None"
  then show "p_err p = None \<and> True \<and> p_b p = be32 v @ p_b p'"
    by (auto simp: p_u32_def be32_un_be32 split: if_splits)
qed (auto simp: e_u32_def p_u32_def un_be32_be32)

interpretation f_u64: wire_field e_u64 p_u64 be64 "\<lambda>_. True"
proof unfold_locales
  fix p v p' assume "p_u64 p = (v, p')" and "p_err p' = None"
  then show "p_err p = None \<and> True \<and> p_b p = be64 v @ p_b p'"
    by (auto simp: p_u64_def be64_un_be64 split: if_splits)
qed (auto simp: e_u64_def p_u64_def un_be64_be64)

text \<open>The length check of \<open>bytes\<close> compares at 32 bits, as the code does.\<close>

lemma word_of_nat32_less_iff:
  "n < 2 ^ 32 \<Longrightarrow> word_of_nat n < (v :: u32) \<longleftrightarrow> n < unat v"
  by (simp add: word_less_nat_alt unat_of_nat)

lemma word_of_nat32_not_less:
  "\<not> word_of_nat n < (v :: u32) \<Longrightarrow> unat v \<le> n"
  using mod_less_eq_dividend [of n "2 ^ 32"]
  by (simp add: word_less_nat_alt unat_of_nat)

lemma p_bytes_enc:
  assumes "length (enc_bytes v @ rest) < 2 ^ 32"
  shows "p_bytes \<lparr>p_b = enc_bytes v @ rest, p_err = None\<rparr> = (v, \<lparr>p_b = rest, p_err = None\<rparr>)"
proof -
  have n: "unat (word_of_nat (length v) :: u32) = length v"
    using assms by (simp add: enc_bytes_def unat_of_nat)
  have "p_u32 \<lparr>p_b = enc_bytes v @ rest, p_err = None\<rparr> =
      (word_of_nat (length v), \<lparr>p_b = v @ rest, p_err = None\<rparr>)"
    using assms f_u32.get_enc [of _ "v @ rest"] by (simp add: enc_bytes_def)
  with assms show ?thesis
    by (simp add: p_bytes_def n enc_bytes_def word_less_nat_alt unat_of_nat)
qed

lemma p_bytes_inv:
  assumes "p_bytes p = (v, p')" and "p_err p' = None"
  shows "p_err p = None \<and> length v < 2 ^ 32 \<and> p_b p = enc_bytes v @ p_b p'"
proof -
  obtain n q where q: "p_u32 p = (n, q)"
    by (cases "p_u32 p")
  from assms q have ok: "p_err q = None" "\<not> word_of_nat (length (p_b q)) < n"
    and v: "v = take (unat n) (p_b q)" "p_b p' = drop (unat n) (p_b q)"
    by (auto simp: p_bytes_def split: if_splits)
  from ok(2) have "length v = unat n"
    by (simp add: v word_of_nat32_not_less)
  moreover have "p_err p = None \<and> p_b p = be32 n @ p_b q"
    using f_u32.get_inv [OF q ok(1)] by simp
  ultimately show ?thesis
    using unsigned_less [of n] v by (simp add: enc_bytes_def)
qed

lemma p_bytes_sticky: "p_err p \<noteq> None \<Longrightarrow> p_err (snd (p_bytes p)) = p_err p"
  using f_u32.get_sticky [of p] by (cases "p_u32 p") (auto simp: p_bytes_def)

interpretation f_bytes: wire_field e_bytes p_bytes enc_bytes "\<lambda>v. length v < 2 ^ 32"
proof unfold_locales
  show "e_bytes v e = e @ enc_bytes v" for v e
    by (simp add: e_bytes_def e_u32_def enc_bytes_def)
qed (simp_all only: p_bytes_enc p_bytes_inv p_bytes_sticky not_False_eq_True)

lemma p_str_inv:
  assumes "p_str p = (v, p')" and "p_err p' = None"
  shows "p_err p = None \<and> length v < 2 ^ 32 \<and> p_b p = enc_str v @ p_b p'"
  using assms f_bytes.get_inv [of p _ p'] by (auto simp: p_str_def enc_str_def split: prod.splits)

interpretation f_str: wire_field e_str p_str enc_str "\<lambda>v. length v < 2 ^ 32"
proof unfold_locales
  show "e_str v e = e @ enc_str v" for v e
    by (simp add: e_str_def e_u32_def enc_str_def enc_bytes_def)
next
  show "length v < 2 ^ 32 \<Longrightarrow> length (enc_str v @ rest) < 2 ^ 32 \<Longrightarrow>
    p_str \<lparr>p_b = enc_str v @ rest, p_err = None\<rparr> = (v, \<lparr>p_b = rest, p_err = None\<rparr>)" for v rest
    using f_bytes.get_enc [of "bytes_of_str v" rest] by (simp add: p_str_def enc_str_def)
next
  show "p_err p \<noteq> None \<Longrightarrow> p_err (snd (p_str p)) = p_err p" for p
    using p_bytes_sticky [of p] by (cases "p_bytes p") (auto simp: p_str_def)
qed (simp_all only: p_str_inv)

lemmas put_simps =
  f_u8.put_enc f_u32.put_enc f_u64.put_enc f_bytes.put_enc f_str.put_enc e_i32_def e_i64_def

lemma p_u8_Cons: "p_u8 \<lparr>p_b = v # rest, p_err = None\<rparr> = (v, \<lparr>p_b = rest, p_err = None\<rparr>)"
  by (simp add: p_u8_def)

lemmas get_simps [wire] =
  p_u8_Cons f_u32.get_enc f_u64.get_enc f_bytes.get_enc f_str.get_enc
  f_u32.get_enc_last f_u64.get_enc_last f_bytes.get_enc_last f_str.get_enc_last

lemma length_enc_bytes [simp]: "length (enc_bytes v) = 4 + length v"
  by (simp add: enc_bytes_def)

lemma length_enc_str [simp]: "length (enc_str v) = 4 + length v"
  by (simp add: enc_str_def)

subsection \<open>Requests: encoding and decoding\<close>

text \<open>The request that carries only the fields the operation encodes.\<close>

definition relevant :: "request \<Rightarrow> request" where
  "relevant req =
     (let r = request0 (rq_Op req); opc = rq_Op req in
      if opc = OpStat \<or> opc = OpReaddir then r\<lparr>rq_Path := rq_Path req\<rparr>
      else if opc = OpOpen then r\<lparr>rq_Flags := rq_Flags req, rq_Path := rq_Path req\<rparr>
      else if opc = OpPread then
        r\<lparr>rq_Handle := rq_Handle req, rq_Off := rq_Off req, rq_Len := rq_Len req\<rparr>
      else if opc = OpWriteFile then r\<lparr>rq_Path := rq_Path req, rq_Data := rq_Data req\<rparr>
      else if opc = OpClose then r\<lparr>rq_Handle := rq_Handle req\<rparr>
      else if opc = OpPwrite then
        r\<lparr>rq_Handle := rq_Handle req, rq_Off := rq_Off req, rq_Data := rq_Data req\<rparr>
      else if opc = OpCreate then
        r\<lparr>rq_Path := rq_Path req, rq_Flags := rq_Flags req, rq_Mode := rq_Mode req\<rparr>
      else if opc = OpUnlink then r\<lparr>rq_Path := rq_Path req, rq_Flags := rq_Flags req\<rparr>
      else if opc = OpMkdir then r\<lparr>rq_Path := rq_Path req, rq_Mode := rq_Mode req\<rparr>
      else if opc = OpRename then r\<lparr>rq_Path := rq_Path req, rq_Path2 := rq_Path2 req\<rparr>
      else if opc = OpSetattr then
        r\<lparr>rq_Path := rq_Path req, rq_Mask := rq_Mask req, rq_Mode := rq_Mode req,
          rq_Size := rq_Size req, rq_Atime := rq_Atime req, rq_Mtime := rq_Mtime req\<rparr>
      else r)"

lemma decodeRequest_encodeRequest:
  assumes "encodeRequest req = Inr body" and "length body + length junk < 2 ^ 32"
  shows "decodeRequest (body @ junk) = Inr (relevant req)"
  using assms
  by (cases req)
    (auto simp: encodeRequest_def Let_def put_simps decodeRequest_def decodeRequestFields_def
      relevant_def get_simps p_i64_def request0_def split: if_splits)

text \<open>What decodes is an encoding, followed by bytes the decoder does not look at.\<close>

lemma decodeRequest_inv:
  assumes "decodeRequest body = Inr req"
  shows "\<exists>enc junk. encodeRequest req = Inr enc \<and> body = enc @ junk \<and> relevant req = req"
  using assms
  by (cases req)
    (auto simp: decodeRequest_def decodeRequestFields_def Let_def request0_def p_i64_def
      encodeRequest_def put_simps relevant_def
      split: prod.splits if_splits option.splits
      dest!: f_u8.get_inv f_u32.get_inv f_u64.get_inv f_bytes.get_inv f_str.get_inv)

subsection \<open>Responses: encoding and decoding\<close>

text \<open>\<open>Types\<close> is cut or filled with \<open>DTUnknown\<close> to the length of \<open>Names\<close>.\<close>

fun pad_types :: "string list \<Rightarrow> byte list \<Rightarrow> byte list" where
  "pad_types [] ts = []"
| "pad_types (n # ns) ts = (case ts of [] \<Rightarrow> 0 | t # _ \<Rightarrow> t) # pad_types ns (drop 1 ts)"

fun enc_dirents :: "string list \<Rightarrow> byte list \<Rightarrow> bytes" where
  "enc_dirents [] ts = []"
| "enc_dirents (n # ns) ts = enc_str n @ (case ts of [] \<Rightarrow> 0 | t # _ \<Rightarrow> t) # enc_dirents ns (drop 1 ts)"

lemma e_dirents_enc: "e_dirents ns ts e = e @ enc_dirents ns ts"
  by (induction ns ts e rule: e_dirents.induct) (simp_all add: put_simps)

lemma p_dirents_enc:
  "length (enc_dirents ns ts @ rest) < 2 ^ 32 \<Longrightarrow>
   p_dirents (length ns) \<lparr>p_b = enc_dirents ns ts @ rest, p_err = None\<rparr> as bs =
     ((as @ ns, bs @ pad_types ns ts), \<lparr>p_b = rest, p_err = None\<rparr>)"
  by (induction ns ts arbitrary: as bs rule: enc_dirents.induct) (simp_all add: get_simps)

lemma length_enc_dirents: "5 * length ns \<le> length (enc_dirents ns ts)"
  by (induction ns ts rule: enc_dirents.induct) simp_all

definition relevant_response :: "op \<Rightarrow> response \<Rightarrow> response" where
  "relevant_response opc resp =
     (let r = response0 (rs_Err resp) in
      if rs_Err resp \<noteq> 0 then r
      else if opc = OpStat then
        r\<lparr>rs_Mode := rs_Mode resp, rs_Size := rs_Size resp, rs_Mtime := rs_Mtime resp\<rparr>
      else if opc = OpOpen \<or> opc = OpCreate then
        r\<lparr>rs_Mode := rs_Mode resp, rs_Size := rs_Size resp, rs_Handle := rs_Handle resp,
          rs_Mtime := rs_Mtime resp\<rparr>
      else if opc = OpPread then r\<lparr>rs_Data := rs_Data resp\<rparr>
      else if opc = OpPwrite then r\<lparr>rs_Size := rs_Size resp\<rparr>
      else if opc = OpReaddir then
        r\<lparr>rs_Names := rs_Names resp, rs_Types := pad_types (rs_Names resp) (rs_Types resp)\<rparr>
      else if opc = OpServerInfo then r\<lparr>rs_OS := rs_OS resp, rs_Arch := rs_Arch resp\<rparr>
      else r)"

lemma decodeResponse_dirents:
  assumes "rs_Err resp = 0" and "length (encodeResponse OpReaddir resp) + length junk < 2 ^ 32"
  shows "decodeResponse OpReaddir (encodeResponse OpReaddir resp @ junk) =
    Inr (relevant_response OpReaddir resp)"
proof -
  have enc: "encodeResponse OpReaddir resp = be32 0 @ be32 (word_of_nat (length (rs_Names resp))) @
      enc_dirents (rs_Names resp) (rs_Types resp)"
    using assms(1) by (simp add: encodeResponse_def put_simps e_dirents_enc)
  have n: "unat (word_of_nat (length (rs_Names resp)) :: u32) = length (rs_Names resp)"
    using assms(2) length_enc_dirents [of "rs_Names resp" "rs_Types resp"]
    by (simp add: enc unat_of_nat)
  show ?thesis
    using assms unfolding enc
    by (simp add: decodeResponse_def decodeResponseFields_def p_i32_def get_simps n p_dirents_enc
        relevant_response_def response0_def)
qed

lemma decodeResponse_encodeResponse:
  assumes "length (encodeResponse opc resp) + length junk < 2 ^ 32"
  shows "decodeResponse opc (encodeResponse opc resp @ junk) = Inr (relevant_response opc resp)"
proof (cases "opc = OpReaddir \<and> rs_Err resp = 0")
  case True
  with assms decodeResponse_dirents show ?thesis by blast
next
  case False
  with assms show ?thesis
    by (auto simp: encodeResponse_def Let_def put_simps decodeResponse_def decodeResponseFields_def
        p_i32_def p_i64_def p_left_def get_simps relevant_response_def response0_def
        split: if_splits)
qed

subsection \<open>Frames on any stream\<close>

definition frame :: "bytes \<Rightarrow> bytes" where
  "frame body = be32 (word_of_nat (length body)) @ body"

lemma length_frame [simp]: "length (frame body) = 4 + length body"
  by (simp add: frame_def)

lemma MaxFrame_lt: "n \<le> MaxFrame \<Longrightarrow> n < 2 ^ 32"
  by (simp add: MaxFrame_def)

lemma frame_length_header:
  "length body \<le> MaxFrame \<Longrightarrow> unat (word_of_nat (length body) :: u32) = length body"
  using MaxFrame_lt [of "length body"] by (simp add: unat_of_nat)

context byte_source
begin

lemma readFrame_frame:
  assumes "pending s = frame body @ rest" and "length body \<le> MaxFrame"
  shows "\<exists>s'. readFrame rd s = (Inr body, s') \<and> pending s' = rest"
proof -
  obtain s1 where s1: "rd 4 s = (Inr (be32 (word_of_nat (length body))), s1)" "pending s1 = body @ rest"
    using rd_exact [of s "be32 (word_of_nat (length body))" "body @ rest" 4] assms(1)
    by (auto simp: frame_def)
  obtain s2 where "rd (length body) s1 = (Inr body, s2)" "pending s2 = rest"
    using rd_exact [OF s1(2) refl] by blast
  with s1 assms(2) show ?thesis
    by (simp add: readFrame_def Let_def frame_length_header)
qed

text \<open>A frame cut short is an error, whatever the cut.\<close>

lemma readFrame_truncated:
  assumes "pending s = take k (frame body)" and "k < length (frame body)" and "length body \<le> MaxFrame"
  shows "isl (fst (readFrame rd s))"
proof (cases "k < 4")
  case True
  then obtain e s' where "rd 4 s = (Inl e, s')"
    using rd_shortE [of s 4] assms(1) by auto
  then show ?thesis by (simp add: readFrame_def)
next
  case False
  let ?h = "be32 (word_of_nat (length body))"
  have "pending s = ?h @ take (k - 4) body"
    using assms(1) False by (simp add: frame_def)
  then obtain s1 where s1: "rd 4 s = (Inr ?h, s1)" "pending s1 = take (k - 4) body"
    using rd_exact [of s ?h "take (k - 4) body" 4] by auto
  have "length (pending s1) < length body"
    using s1(2) assms(2) False by simp
  then obtain e s2 where "rd (length body) s1 = (Inl e, s2)"
    using rd_shortE by blast
  with s1 assms(3) show ?thesis
    by (simp add: readFrame_def Let_def frame_length_header)
qed

lemma readFrame_bounded: "readFrame rd s = (Inr body, s') \<Longrightarrow> length body \<le> MaxFrame"
proof -
  assume "readFrame rd s = (Inr body, s')"
  then obtain hdr s1 where h: "rd 4 s = (Inr hdr, s1)" "unat (un_be32 hdr) \<le> MaxFrame"
      "rd (unat (un_be32 hdr)) s1 = (Inr body, s')"
    by (auto simp: readFrame_def Let_def split: prod.splits sum.splits if_splits)
  show "length body \<le> MaxFrame"
  proof (cases "unat (un_be32 hdr) \<le> length (pending s1)")
    case True
    with h show ?thesis using rd_full [OF True] by simp
  next
    case False
    with h show ?thesis using rd_short [of s1 "unat (un_be32 hdr)"] by simp
  qed
qed

lemma ReadRequest_frame:
  assumes "pending s = frame body @ rest" and "length body \<le> MaxFrame"
  shows "\<exists>s'. ReadRequest rd s = (decodeRequest body, s') \<and> pending s' = rest"
  using readFrame_frame [OF assms] by (auto simp: ReadRequest_def)

lemma ReadResponse_frame:
  assumes "pending s = frame body @ rest" and "length body \<le> MaxFrame"
  shows "\<exists>s'. ReadResponse rd opc s = (decodeResponse opc body, s') \<and> pending s' = rest"
  using readFrame_frame [OF assms] by (auto simp: ReadResponse_def)

end

context byte_sink
begin

lemma writeFrame_ok:
  assumes "writeFrame wr body s = (None, s')"
  shows "length body \<le> MaxFrame \<and> written s' = written s @ frame body"
  using assms wr_ok
  by (fastforce simp: writeFrame_def frame_def split: if_splits prod.splits option.splits)

text \<open>What a failed write leaves on the stream is a proper part of the frame.\<close>

lemma writeFrame_err:
  assumes "writeFrame wr body s = (Some e, s')" and "length body \<le> MaxFrame" and "body \<noteq> []"
  shows "prefix (written s') (written s @ frame body) \<and> written s' \<noteq> written s @ frame body"
proof (cases "wr (be32 (word_of_nat (length body))) s")
  case (Pair r s1)
  show ?thesis
  proof (cases r)
    case None
    obtain e2 where "wr body s1 = (Some e2, s')"
      using assms Pair None by (auto simp: writeFrame_def split: prod.splits option.splits)
    moreover have "written s1 = written s @ be32 (word_of_nat (length body))"
      using Pair None wr_ok by simp
    ultimately show ?thesis
      using wr_err assms(3) by (fastforce simp: frame_def)
  next
    case (Some e1)
    then have "s' = s1" "wr (be32 (word_of_nat (length body))) s = (Some e1, s')"
      using assms Pair by (auto simp: writeFrame_def)
    then have "strict_prefix (written s') (written s @ be32 (word_of_nat (length body)))"
      using wr_err by (simp add: strict_prefix_def)
    then have "strict_prefix (written s') (written s @ frame body)"
      by (metis append_assoc frame_def prefix_order.less_le_trans prefix_def)
    then show ?thesis by (simp add: strict_prefix_def)
  qed
qed

end

lemmas frame_io =
  buf.readFrame_frame buf_sink.writeFrame_ok peer_sink.writeFrame_ok peer_sink.writeFrame_err

subsection \<open>Properties\<close>

lemma encodeRequest_neq_Nil: "encodeRequest req = Inr body \<Longrightarrow> body \<noteq> []"
  by (auto simp: encodeRequest_def Let_def put_simps split: if_splits)

lemma encodeResponse_neq_Nil: "encodeResponse opc resp \<noteq> []"
  by (simp add: encodeResponse_def Let_def put_simps e_dirents_enc)

lemma encodeRequest_frame:
  "WriteRequest buf_write req s = (None, s') \<Longrightarrow>
     \<exists>body. encodeRequest req = Inr body \<and> length body \<le> MaxFrame \<and> s' = s @ frame body"
  using buf_sink.writeFrame_ok by (auto simp: WriteRequest_def split: sum.splits)

text \<open>
  C5: A request that \<open>WriteRequest\<close> accepts adds bytes to the stream from which \<open>ReadRequest\<close>
  gives the request back with the fields its operation encodes, whatever follows them, and
  leaves exactly what follows.
\<close>

theorem request_roundtrip:
  assumes "WriteRequest buf_write req s = (None, s')"
  shows "\<exists>wire. s' = s @ wire \<and>
    (\<forall>rest. ReadRequest buf_read (wire @ rest) = (Inr (relevant req), rest))"
proof -
  obtain body where body: "encodeRequest req = Inr body" "length body \<le> MaxFrame" "s' = s @ frame body"
    using encodeRequest_frame [OF assms] by blast
  moreover have "ReadRequest buf_read (frame body @ rest) = (Inr (relevant req), rest)" for rest
    using buf.ReadRequest_frame [OF refl body(2), of rest] MaxFrame_lt [OF body(2)]
      decodeRequest_encodeRequest [OF body(1), of "[]"] by simp
  ultimately show ?thesis by blast
qed

definition sample_request :: request where
  "sample_request = (request0 OpSetattr)\<lparr>rq_Path := ''/w/f'', rq_Mask := 11, rq_Mode := 384,
     rq_Size := 1234, rq_Mtime := 17, rq_Data := [1, 2]\<rparr>"

lemma sample_request_written:
  "\<exists>s'. WriteRequest buf_write sample_request [7] = (None, s')"
  by (simp add: sample_request_def request0_def WriteRequest_def encodeRequest_def put_simps
      writeFrame_def buf_write_def MaxFrame_def)

theorem request_roundtrip_witness:
  "\<exists>wire. snd (WriteRequest buf_write sample_request [7]) = [7] @ wire \<and>
    ReadRequest buf_read (wire @ [9, 9]) = (Inr (sample_request\<lparr>rq_Data := []\<rparr>), [9, 9])"
proof -
  obtain s' where s': "WriteRequest buf_write sample_request [7] = (None, s')"
    using sample_request_written by blast
  from request_roundtrip [OF s'] s' show ?thesis
    by (auto simp: sample_request_def relevant_def request0_def)
qed

text \<open>
  C24: A response that \<open>WriteResponse\<close> accepts for an operation is read back for that operation
  with the fields the operation carries (errno alone when it is not zero, \<open>Types\<close> brought to
  the length of \<open>Names\<close>), and the stream behind it is untouched.
\<close>

theorem response_roundtrip:
  assumes "WriteResponse buf_write opc resp s = (None, s')"
  shows "\<exists>wire. s' = s @ wire \<and>
    (\<forall>rest. ReadResponse buf_read opc (wire @ rest) = (Inr (relevant_response opc resp), rest))"
proof -
  let ?b = "encodeResponse opc resp"
  have b: "length ?b \<le> MaxFrame" "s' = s @ frame ?b"
    using assms buf_sink.writeFrame_ok by (auto simp: WriteResponse_def)
  moreover have "ReadResponse buf_read opc (frame ?b @ rest) = (Inr (relevant_response opc resp), rest)"
    for rest
    using buf.ReadResponse_frame [OF refl b(1), where rest = rest and opc = opc] MaxFrame_lt [OF b(1)]
      decodeResponse_encodeResponse [of opc resp "[]"] by simp
  ultimately show ?thesis by blast
qed

definition sample_listing :: response where
  "sample_listing = (response0 0)\<lparr>rs_Names := [''a.txt'', ''sub'', ''x''], rs_Types := [8, 4]\<rparr>"

theorem response_roundtrip_witness:
  "\<exists>wire. WriteResponse buf_write OpReaddir sample_listing [] = (None, wire) \<and>
    ReadResponse buf_read OpReaddir (wire @ [1]) =
      (Inr (sample_listing\<lparr>rs_Types := [8, 4, 0]\<rparr>), [1])"
proof -
  obtain s' where s': "WriteResponse buf_write OpReaddir sample_listing [] = (None, s')"
    by (simp add: sample_listing_def response0_def WriteResponse_def encodeResponse_def put_simps
      writeFrame_def buf_write_def MaxFrame_def e_dirents_enc)
  from response_roundtrip [OF s'] s' show ?thesis
    by (auto simp: sample_listing_def relevant_response_def response0_def)
qed

text \<open>
  The request decoder accepts nothing but encodings: a body it decodes is the encoding of
  the request it returns, with bytes behind it that it ignores (the room for later fields), and
  no field that the operation does not carry is set.
\<close>

theorem decoded_request_canonical:
  assumes "decodeRequest body = Inr req"
  shows "\<exists>enc junk. encodeRequest req = Inr enc \<and> body = enc @ junk \<and> relevant req = req"
  using assms by (rule decodeRequest_inv)

theorem decoded_request_canonical_witness:
  "decodeRequest (OpClose # be64 5 @ [1, 2, 3]) = Inr ((request0 OpClose)\<lparr>rq_Handle := 5\<rparr>) \<and>
   (\<exists>enc junk. encodeRequest ((request0 OpClose)\<lparr>rq_Handle := 5\<rparr>) = Inr enc \<and>
      OpClose # be64 5 @ [1, 2, 3] = enc @ junk)"
proof -
  have d: "decodeRequest (OpClose # be64 5 @ [1, 2, 3]) = Inr ((request0 OpClose)\<lparr>rq_Handle := 5\<rparr>)"
    by (simp add: decodeRequest_def decodeRequestFields_def get_simps request0_def)
  with decoded_request_canonical [OF d] show ?thesis by blast
qed

text \<open>
  When the peer stops accepting bytes in the middle of a request, what it received is never
  taken for a request: reading it is an error.
\<close>

theorem broken_request_never_decodes:
  assumes "WriteRequest sink_write req \<lparr>sk_out = [], sk_room = room\<rparr> = (Some e, s')"
  shows "isl (fst (ReadRequest buf_read (sk_out s')))"
proof (cases "\<exists>body. encodeRequest req = Inr body \<and> length body \<le> MaxFrame")
  case True
  then obtain body where body: "encodeRequest req = Inr body" "length body \<le> MaxFrame" by blast
  then have "writeFrame sink_write body \<lparr>sk_out = [], sk_room = room\<rparr> = (Some e, s')"
    using assms by (simp add: WriteRequest_def)
  then have "prefix (sk_out s') (frame body) \<and> sk_out s' \<noteq> frame body"
    using peer_sink.writeFrame_err [OF _ body(2) encodeRequest_neq_Nil [OF body(1)]] by fastforce
  then obtain rest where rest: "frame body = sk_out s' @ rest" "rest \<noteq> []"
    by (auto simp: prefix_def)
  then have k: "length (sk_out s') < length (frame body)"
      "sk_out s' = take (length (sk_out s')) (frame body)"
    by (simp_all del: length_frame)
  with body(2) have "isl (fst (readFrame buf_read (sk_out s')))"
    by (intro buf.readFrame_truncated [OF k(2) k(1)])
  then show ?thesis
    by (auto simp: ReadRequest_def isl_def split: prod.splits)
next
  case False
  with assms have "sk_out s' = []"
    by (auto simp: WriteRequest_def writeFrame_def split: sum.splits)
  then show ?thesis
    by (simp add: ReadRequest_def readFrame_def buf_read_def)
qed

theorem broken_request_never_decodes_witness:
  "\<exists>e s'. WriteRequest sink_write (request0 OpClose) \<lparr>sk_out = [], sk_room = Some 6\<rparr> = (Some e, s') \<and>
     length (sk_out s') = 6 \<and> isl (fst (ReadRequest buf_read (sk_out s')))"
proof -
  obtain e s' where w: "WriteRequest sink_write (request0 OpClose) \<lparr>sk_out = [], sk_room = Some 6\<rparr> =
      (Some e, s')" and "length (sk_out s') = 6"
    by (simp add: WriteRequest_def encodeRequest_def request0_def put_simps writeFrame_def
        sink_write_def MaxFrame_def)
  with broken_request_never_decodes [OF w] show ?thesis by blast
qed

end
