(* ===== verification/GoOS.thy ===== *)
theory GoOS
  imports Prelude
begin

unbundle bit_operations_syntax

section \<open>Go's os package, as the filesystem service uses it\<close>

text \<open>
  The errors, file modes and directory entries of Go's \<open>os\<close> and \<open>syscall\<close> packages, and the
  operating system behind them. The kernel and its file systems are not part of the program: they
  are the record \<open>os\<close>, one field per call the service makes, acting on a world of any type \<open>'w\<close>
  and on open files \<open>'f\<close> (the \<open>*os.File\<close> values). What a theorem needs of the calls is a named
  predicate on such a record.
\<close>

subsection \<open>Errors\<close>

text \<open>
  The error numbers of system calls. A Go \<open>syscall.Errno\<close> is a \<open>uintptr\<close>; \<open>syscall\<close> makes an error
  of it only when it is not zero, and the kernels number their errors below \<open>2 ^ 31\<close>.
\<close>

typedef errno = "{n :: u64. 0 < n \<and> n < 2 ^ 31}"
  morphisms errno_num errno_of
  by (rule exI [of _ 1]) simp

setup_lifting type_definition_errno

instantiation errno :: equal
begin

lift_definition equal_errno :: "errno \<Rightarrow> errno \<Rightarrow> bool" is "(=)" .

instance
  by standard (transfer, simp)

end

lift_definition EPERM :: errno is 1 by simp
lift_definition ENOENT :: errno is 2 by simp
lift_definition EIO :: errno is 5 by simp
lift_definition EBADF :: errno is 9 by simp
lift_definition EACCES :: errno is 13 by simp
lift_definition EEXIST :: errno is 17 by simp
lift_definition EXDEV :: errno is 18 by simp
lift_definition EISDIR :: errno is 21 by simp
lift_definition EINVAL :: errno is 22 by simp

lemma errno_num_simps [simp]:
  "errno_num EPERM = 1" "errno_num ENOENT = 2" "errno_num EIO = 5" "errno_num EBADF = 9"
  "errno_num EACCES = 13" "errno_num EEXIST = 17" "errno_num EXDEV = 18" "errno_num EISDIR = 21"
  "errno_num EINVAL = 22"
  by (simp_all add: EPERM.rep_eq ENOENT.rep_eq EIO.rep_eq EBADF.rep_eq EACCES.rep_eq EEXIST.rep_eq
      EXDEV.rep_eq EISDIR.rep_eq EINVAL.rep_eq)

lemma errno_eq_iff: "e = e' \<longleftrightarrow> errno_num e = errno_num e'"
  by (simp add: errno_num_inject)

text \<open>The Go expression \<open>-int32(errno)\<close>.\<close>

definition neg_errno :: "errno \<Rightarrow> i32" where
  "neg_errno e = - (ucast (errno_num e) :: i32)"

lemma errno_bounds: "0 < unat (errno_num e) \<and> unat (errno_num e) < 2 ^ 31"
  using errno_num [of e] by (simp add: word_less_nat_alt)

lemma unat_errno_32: "unat (ucast (errno_num e) :: i32) = unat (errno_num e)"
  using errno_bounds [of e] by (simp add: unsigned_ucast_eq take_bit_nat_eq_self)

lemma neg_errno_neq_0 [simp]: "neg_errno e \<noteq> 0"
  using unat_errno_32 [of e] errno_bounds [of e] by (auto simp: neg_errno_def)

lemma neg_errno_inject [simp]: "neg_errno e = neg_errno e' \<longleftrightarrow> e = e'"
proof
  assume "neg_errno e = neg_errno e'"
  then have "unat (ucast (errno_num e) :: i32) = unat (ucast (errno_num e') :: i32)"
    by (simp add: neg_errno_def)
  then show "e = e'"
    unfolding unat_errno_32 by (simp add: errno_eq_iff word_unat_eq_iff)
qed simp

text \<open>Read as an \<open>int32\<close>, it is the negative of the number.\<close>

lemma sint_neg_errno: "sint (neg_errno e) = - int (unat (errno_num e))"
proof -
  let ?c = "ucast (errno_num e) :: i32"
  have "uint ?c = int (unat (errno_num e))"
    by (simp only: uint_nat unat_errno_32)
  moreover have "neg_errno e = word_of_int (- uint ?c)"
    unfolding neg_errno_def wi_hom_neg [symmetric] by simp
  ultimately have "neg_errno e = word_of_int (- int (unat (errno_num e)))"
    by simp
  then have "sint (neg_errno e) = signed_take_bit 31 (- int (unat (errno_num e)))"
    by (simp only: signed_of_int) simp
  also have "\<dots> = - int (unat (errno_num e))"
  proof (rule signed_take_bit_int_eq_self)
    have "int (unat (errno_num e)) < 2 ^ 31"
      using errno_bounds [of e] zless_nat_eq_int_zless [of "unat (errno_num e)" "2 ^ 31"]
      by (simp add: nat_power_eq)
    then show "- (2 ^ 31) \<le> - int (unat (errno_num e))" by linarith
  next
    show "- int (unat (errno_num e)) < 2 ^ 31"
      by (rule le_less_trans [of _ 0]) simp_all
  qed
  finally show ?thesis .
qed

text \<open>
  \<open>*PathError\<close>, \<open>*LinkError\<close> and \<open>*SyscallError\<close> wrap another error; the others are the sentinel
  values of the library and any further error.
\<close>

datatype goerr =
    Errno errno
  | PathError goerr
  | LinkError goerr
  | SyscallError goerr
  | ErrNotExist
  | ErrPermission
  | ErrEOF
  | OtherError

text \<open>\<open>errors.As(err, &errno)\<close> and \<open>errors.Is(err, io.EOF)\<close> follow the whole chain.\<close>

fun as_errno :: "goerr \<Rightarrow> errno option" where
  "as_errno (Errno e) = Some e"
| "as_errno (PathError e) = as_errno e"
| "as_errno (LinkError e) = as_errno e"
| "as_errno (SyscallError e) = as_errno e"
| "as_errno _ = None"

fun is_EOF :: "goerr \<Rightarrow> bool" where
  "is_EOF ErrEOF = True"
| "is_EOF (PathError e) = is_EOF e"
| "is_EOF (LinkError e) = is_EOF e"
| "is_EOF (SyscallError e) = is_EOF e"
| "is_EOF _ = False"

text \<open>\<open>os.IsNotExist\<close> and \<open>os.IsPermission\<close> unwrap one level.\<close>

fun underlyingError :: "goerr \<Rightarrow> goerr" where
  "underlyingError (PathError e) = e"
| "underlyingError (LinkError e) = e"
| "underlyingError (SyscallError e) = e"
| "underlyingError e = e"

definition IsNotExist :: "goerr \<Rightarrow> bool" where
  "IsNotExist e = (underlyingError e = ErrNotExist \<or> underlyingError e = Errno ENOENT)"

definition IsPermission :: "goerr \<Rightarrow> bool" where
  "IsPermission e = (underlyingError e = ErrPermission \<or> underlyingError e = Errno EACCES \<or>
     underlyingError e = Errno EPERM)"

subsection \<open>File modes and entries\<close>

text \<open>An \<open>os.FileMode\<close>: the permission bits below, the type bits on top.\<close>

type_synonym filemode = u32

abbreviation ModeDir :: filemode where "ModeDir \<equiv> 0x80000000"
abbreviation ModeSymlink :: filemode where "ModeSymlink \<equiv> 0x08000000"
abbreviation ModeType :: filemode where "ModeType \<equiv> 0x8F280000"

definition Perm :: "filemode \<Rightarrow> filemode" where
  "Perm m = m AND 0x1FF"

definition mode_IsDir :: "filemode \<Rightarrow> bool" where
  "mode_IsDir m \<longleftrightarrow> m AND ModeDir \<noteq> 0"

definition mode_IsRegular :: "filemode \<Rightarrow> bool" where
  "mode_IsRegular m \<longleftrightarrow> m AND ModeType = 0"

text \<open>\<open>os.FileInfo\<close>; \<open>fi_ModTime\<close> is \<open>ModTime().UnixNano()\<close>.\<close>

record fileinfo =
  fi_Mode :: filemode
  fi_Size :: i64
  fi_ModTime :: i64

record direntry =
  de_Name :: string
  de_Type :: filemode

subsection \<open>The operating system\<close>

text \<open>
  \<open>os_ReadAt f n off\<close> is \<open>f.ReadAt\<close> into a buffer of \<open>n\<close> bytes: the bytes it filled and the error.
  A time stamp is \<open>None\<close> for the zero \<open>time.Time\<close> and nanoseconds since the epoch otherwise. A Go
  \<open>int\<close> has 64 bits.
\<close>

record ('f, 'w) os =
  os_Stat :: "string \<Rightarrow> 'w \<Rightarrow> (goerr + fileinfo) \<times> 'w"
  os_OpenFile :: "string \<Rightarrow> i64 \<Rightarrow> filemode \<Rightarrow> 'w \<Rightarrow> (goerr + 'f) \<times> 'w"
  os_FStat :: "'f \<Rightarrow> 'w \<Rightarrow> (goerr + fileinfo) \<times> 'w"
  os_Close :: "'f \<Rightarrow> 'w \<Rightarrow> goerr option \<times> 'w"
  os_ReadAt :: "'f \<Rightarrow> nat \<Rightarrow> i64 \<Rightarrow> 'w \<Rightarrow> (bytes \<times> goerr option) \<times> 'w"
  os_WriteAt :: "'f \<Rightarrow> bytes \<Rightarrow> i64 \<Rightarrow> 'w \<Rightarrow> (nat \<times> goerr option) \<times> 'w"
  os_WriteFile :: "string \<Rightarrow> bytes \<Rightarrow> filemode \<Rightarrow> 'w \<Rightarrow> goerr option \<times> 'w"
  os_ReadDir :: "string \<Rightarrow> 'w \<Rightarrow> (goerr + direntry list) \<times> 'w"
  os_Unlink :: "string \<Rightarrow> 'w \<Rightarrow> goerr option \<times> 'w"
  os_Rmdir :: "string \<Rightarrow> 'w \<Rightarrow> goerr option \<times> 'w"
  os_Mkdir :: "string \<Rightarrow> filemode \<Rightarrow> 'w \<Rightarrow> goerr option \<times> 'w"
  os_Rename :: "string \<Rightarrow> string \<Rightarrow> 'w \<Rightarrow> goerr option \<times> 'w"
  os_Chmod :: "string \<Rightarrow> filemode \<Rightarrow> 'w \<Rightarrow> goerr option \<times> 'w"
  os_Truncate :: "string \<Rightarrow> i64 \<Rightarrow> 'w \<Rightarrow> goerr option \<times> 'w"
  os_Chtimes :: "string \<Rightarrow> i64 option \<Rightarrow> i64 option \<Rightarrow> 'w \<Rightarrow> goerr option \<times> 'w"
  os_O_CREATE :: i64
  os_GOOS :: string
  os_GOARCH :: string

text \<open>
  The documented behaviour of open files: \<open>OpenFile\<close> returns a file that was not open before,
  \<open>Close\<close> closes it even when it reports an error, and no other call opens or closes one.
\<close>

definition os_tracks :: "('f, 'w) os \<Rightarrow> ('w \<Rightarrow> 'f set) \<Rightarrow> bool" where
  "os_tracks sys opened \<longleftrightarrow>
     (\<forall>p fl pm w. case os_OpenFile sys p fl pm w of
        (Inl _, w') \<Rightarrow> opened w' = opened w
      | (Inr f, w') \<Rightarrow> f \<notin> opened w \<and> opened w' = insert f (opened w)) \<and>
     (\<forall>f w. opened (snd (os_Close sys f w)) = opened w - {f}) \<and>
     (\<forall>p w. opened (snd (os_Stat sys p w)) = opened w) \<and>
     (\<forall>f w. opened (snd (os_FStat sys f w)) = opened w) \<and>
     (\<forall>f n off w. opened (snd (os_ReadAt sys f n off w)) = opened w) \<and>
     (\<forall>f b off w. opened (snd (os_WriteAt sys f b off w)) = opened w) \<and>
     (\<forall>p b m w. opened (snd (os_WriteFile sys p b m w)) = opened w) \<and>
     (\<forall>p w. opened (snd (os_ReadDir sys p w)) = opened w) \<and>
     (\<forall>p w. opened (snd (os_Unlink sys p w)) = opened w) \<and>
     (\<forall>p w. opened (snd (os_Rmdir sys p w)) = opened w) \<and>
     (\<forall>p m w. opened (snd (os_Mkdir sys p m w)) = opened w) \<and>
     (\<forall>p q w. opened (snd (os_Rename sys p q w)) = opened w) \<and>
     (\<forall>p m w. opened (snd (os_Chmod sys p m w)) = opened w) \<and>
     (\<forall>p n w. opened (snd (os_Truncate sys p n w)) = opened w) \<and>
     (\<forall>p a m w. opened (snd (os_Chtimes sys p a m w)) = opened w)"

text \<open>\<open>ReadAt\<close> fills at most the buffer; \<open>WriteAt\<close> writes at most what it is given.\<close>

definition os_bounded :: "('f, 'w) os \<Rightarrow> bool" where
  "os_bounded sys \<longleftrightarrow>
     (\<forall>f n off w. length (fst (fst (os_ReadAt sys f n off w))) \<le> n) \<and>
     (\<forall>f b off w. fst (fst (os_WriteAt sys f b off w)) \<le> length b)"

end
