(* ===== verification/HandleTable.thy ===== *)
theory HandleTable
  imports Protocol GoOS
begin

section \<open>The contract of a handle table\<close>

text \<open>
  The executor's \<open>FSService\<close> and the adapter's session both give out handles for open files and
  take them back. The locale \<open>handle_server\<close> is what their clients rely on, stated on the function
  that serves one request; its lemmas are about runs of requests. The two components interpret
  it in their own theories.
\<close>

definition is_open :: "request \<Rightarrow> bool" where
  "is_open req \<longleftrightarrow> rq_Op req = OpOpen \<or> rq_Op req = OpCreate"

definition by_handle :: "request \<Rightarrow> bool" where
  "by_handle req \<longleftrightarrow> rq_Op req = OpPread \<or> rq_Op req = OpPwrite \<or> rq_Op req = OpClose"

definition bad_handle :: response where
  "bad_handle = response0 (neg_errno EBADF)"

fun run :: "(request \<Rightarrow> 's \<Rightarrow> response \<times> 's) \<Rightarrow> request list \<Rightarrow> 's \<Rightarrow> response list \<times> 's" where
  "run serve [] s = ([], s)"
| "run serve (q # qs) s =
     (let (r, s1) = serve q s; (rs, s2) = run serve qs s1 in (r # rs, s2))"

text \<open>The handles the opens of a run returned, in order.\<close>

fun opened_handles :: "request list \<Rightarrow> response list \<Rightarrow> u64 list" where
  "opened_handles (q # qs) (r # rs) =
     (if is_open q \<and> rs_Err r = 0 then [rs_Handle r] else []) @ opened_handles qs rs"
| "opened_handles _ _ = []"

text \<open>The specification: the set of live handles after a request and its response.\<close>

definition track :: "request \<Rightarrow> response \<Rightarrow> u64 set \<Rightarrow> u64 set" where
  "track q r live =
     (if is_open q \<and> rs_Err r = 0 then insert (rs_Handle r) live
      else if rq_Op q = OpClose then live - {rq_Handle q}
      else live)"

fun track_all :: "request list \<Rightarrow> response list \<Rightarrow> u64 set \<Rightarrow> u64 set" where
  "track_all (q # qs) (r # rs) live = track_all qs rs (track q r live)"
| "track_all _ _ live = live"

lemma run_length [simp]: "length (fst (run serve qs s)) = length qs"
proof (induction qs arbitrary: s)
  case (Cons q qs)
  then show ?case
    by (metis (no_types, lifting) case_prod_unfold fst_conv length_Cons run.simps(2))
qed simp

lemma word_plus_one: "unat (a :: u64) + n < 2 ^ 64 \<Longrightarrow> 0 < n \<Longrightarrow> unat (a + 1) = unat a + 1"
  by (simp add: unat_word_ariths)

locale handle_server =
  fixes serve :: "request \<Rightarrow> 's \<Rightarrow> response \<times> 's"
    and live :: "'s \<Rightarrow> u64 set"
    and next_handle :: "'s \<Rightarrow> u64"
  assumes opens: "is_open q \<Longrightarrow> serve q s = (r, s') \<Longrightarrow> rs_Err r = 0 \<Longrightarrow>
      rs_Handle r = next_handle s \<and> next_handle s' = next_handle s + 1"
    and keeps_next: "serve q s = (r, s') \<Longrightarrow> \<not> (is_open q \<and> rs_Err r = 0) \<Longrightarrow> next_handle s' = next_handle s"
    and tracks: "serve q s = (r, s') \<Longrightarrow> live s' = track q r (live s)"
    and unknown: "by_handle q \<Longrightarrow> rq_Handle q \<notin> live s \<Longrightarrow> serve q s = (bad_handle, s)"
begin

text \<open>The opens of a run return consecutive handles, modulo the width of a handle.\<close>

lemma opened_consecutive:
  "run serve qs s = (rs, s') \<Longrightarrow>
   opened_handles qs rs =
     map (\<lambda>i. next_handle s + word_of_nat i) [0..<length (opened_handles qs rs)] \<and>
   next_handle s' = next_handle s + word_of_nat (length (opened_handles qs rs))"
proof (induction qs arbitrary: s rs)
  case (Cons q qs)
  obtain r s1 where q: "serve q s = (r, s1)" by fastforce
  obtain rs1 where rs: "run serve qs s1 = (rs1, s')" "rs = r # rs1"
    using Cons.prems q by (auto simp: Let_def split: prod.splits)
  note IH = Cons.IH [OF rs(1)]
  show ?case
  proof (cases "is_open q \<and> rs_Err r = 0")
    case True
    then have "rs_Handle r = next_handle s" "next_handle s1 = next_handle s + 1"
      using opens q by auto
    with IH True show ?thesis
      by (auto simp: rs(2) upt_conv_Cons map_Suc_upt [symmetric] comp_def algebra_simps
          simp del: upt_Suc intro!: map_cong)
  next
    case False
    with keeps_next [OF q] IH show ?thesis by (simp add: rs(2))
  qed
qed simp

lemma opened_distinct:
  assumes "run serve qs s = (rs, s')" and "length qs \<le> 2 ^ 64"
  shows "distinct (opened_handles qs rs)"
proof -
  have "length (opened_handles qs rs) \<le> length qs"
    by (induction qs rs rule: opened_handles.induct) auto
  with assms(2) have "inj_on (\<lambda>i. next_handle s + word_of_nat i) (set [0..<length (opened_handles qs rs)])"
    by (auto intro!: inj_onI simp: word_of_nat_eq_iff take_bit_nat_eq_self)
  then show ?thesis
    using opened_consecutive [OF assms(1)] by (metis distinct_map distinct_upt)
qed

lemma live_track_all: "run serve qs s = (rs, s') \<Longrightarrow> live s' = track_all qs rs (live s)"
  by (induction qs arbitrary: s rs) (auto simp: Let_def tracks split: prod.splits)

text \<open>
  A handle that is not live and was given out already (it is below the next one) does not come
  back, until the counter wraps.
\<close>

lemma dead_stays_dead:
  assumes "run serve qs s = (rs, s')" and "h \<notin> live s" and "h < next_handle s"
    and "unat (next_handle s) + length qs < 2 ^ 64"
  shows "h \<notin> live s' \<and> h < next_handle s'"
  using assms
proof (induction qs arbitrary: s rs)
  case (Cons q qs)
  obtain r s1 where q: "serve q s = (r, s1)" by fastforce
  obtain rs1 where rs: "run serve qs s1 = (rs1, s')"
    using Cons.prems q by (auto simp: Let_def split: prod.splits)
  have n1: "unat (next_handle s + 1) = unat (next_handle s) + 1"
    using word_plus_one [OF Cons.prems(4)] by simp
  have step: "h \<notin> live s1 \<and> h < next_handle s1 \<and> unat (next_handle s1) + length qs < 2 ^ 64"
  proof (cases "is_open q \<and> rs_Err r = 0")
    case True
    then have o: "rs_Handle r = next_handle s" "next_handle s1 = next_handle s + 1"
      using opens q by auto
    have "h \<notin> live s1"
      using True o tracks [OF q] Cons.prems(2,3) by (auto simp: track_def)
    moreover have "h < next_handle s1"
      using Cons.prems(3) n1 by (simp add: o(2) word_less_nat_alt)
    ultimately show ?thesis using Cons.prems(4) n1 by (simp add: o(2))
  next
    case False
    then have "next_handle s1 = next_handle s"
      using keeps_next [OF q] by simp
    moreover have "h \<notin> live s1"
      using False tracks [OF q] Cons.prems(2) by (auto simp: track_def)
    ultimately show ?thesis using Cons.prems(3,4) by simp
  qed
  with Cons.IH [OF rs] show ?case by blast
qed simp

text \<open>All live handles are below the next one, as long as the counter does not wrap.\<close>

lemma live_below:
  assumes "run serve qs s = (rs, s')" and "\<forall>h \<in> live s. h < next_handle s"
    and "unat (next_handle s) + length qs < 2 ^ 64"
  shows "\<forall>h \<in> live s'. h < next_handle s'"
  using assms
proof (induction qs arbitrary: s rs)
  case (Cons q qs)
  obtain r s1 where q: "serve q s = (r, s1)" by fastforce
  obtain rs1 where rs: "run serve qs s1 = (rs1, s')"
    using Cons.prems q by (auto simp: Let_def split: prod.splits)
  have n1: "unat (next_handle s + 1) = unat (next_handle s) + 1"
    using word_plus_one [OF Cons.prems(3)] by simp
  have "(\<forall>h \<in> live s1. h < next_handle s1) \<and> unat (next_handle s1) + length qs < 2 ^ 64"
  proof (cases "is_open q \<and> rs_Err r = 0")
    case True
    then have o: "rs_Handle r = next_handle s" "next_handle s1 = next_handle s + 1"
      using opens q by auto
    have "\<forall>h \<in> live s1. h < next_handle s1"
      using True n1 Cons.prems(2) unfolding tracks [OF q] o(2)
      by (fastforce simp: track_def o(1) word_less_nat_alt)
    then show ?thesis using Cons.prems(3) n1 by (simp add: o(2))
  next
    case False
    then show ?thesis
      using keeps_next [OF q] tracks [OF q] Cons.prems(2,3) by (auto simp: track_def)
  qed
  with Cons.IH [OF rs] show ?case by blast
qed simp

text \<open>Using a closed handle is an error with no effect, whatever was done since.\<close>

lemma use_after_close:
  assumes "rq_Op q = OpClose" and "rq_Handle q < next_handle s"
    and "unat (next_handle s) + length qs < 2 ^ 64"
    and "by_handle use" and "rq_Handle use = rq_Handle q"
  shows "let s' = snd (run serve (q # qs) s) in serve use s' = (bad_handle, s')"
proof -
  obtain r s1 where q: "serve q s = (r, s1)" by fastforce
  obtain rs s' where qs: "run serve qs s1 = (rs, s')" by fastforce
  have "\<not> is_open q"
    using assms(1) by (simp add: is_open_def)
  then have "rq_Handle q \<notin> live s1" "next_handle s1 = next_handle s"
    using tracks [OF q] keeps_next [OF q] assms(1) by (auto simp: track_def)
  then have "rq_Handle q \<notin> live s'"
    using dead_stays_dead [OF qs] assms(2,3) by simp
  with assms(4,5) unknown q qs show ?thesis by (simp add: Let_def)
qed

end

end
