(* ===== verification/GoStrings.thy ===== *)
theory GoStrings
  imports Prelude
begin

section \<open>Go strings\<close>

text \<open>
  The functions of Go's \<open>strings\<close> and \<open>strconv\<close> packages that the program calls, on strings as
  lists of bytes. \<open>TrimSpace\<close> removes white space in Unicode's sense: a Go string holds UTF-8,
  so a space is one of the byte sequences \<open>spaces\<close>.
\<close>

definition HasPrefix :: "string \<Rightarrow> string \<Rightarrow> bool" where
  "HasPrefix s pre \<longleftrightarrow> take (length pre) s = pre"

definition CutPrefix :: "string \<Rightarrow> string \<Rightarrow> string option" where
  "CutPrefix s pre = (if HasPrefix s pre then Some (drop (length pre) s) else None)"

fun Contains :: "string \<Rightarrow> string \<Rightarrow> bool" where
  "Contains [] sub \<longleftrightarrow> sub = []"
| "Contains (c # cs) sub \<longleftrightarrow> HasPrefix (c # cs) sub \<or> Contains cs sub"

fun Join :: "string list \<Rightarrow> string \<Rightarrow> string" where
  "Join [] sep = []"
| "Join [x] sep = x"
| "Join (x # y # xs) sep = x @ sep @ Join (y # xs) sep"

text \<open>\<open>strings.Split\<close> at a one-byte separator; the result has at least one part.\<close>

fun SplitByte :: "string \<Rightarrow> char \<Rightarrow> string list" where
  "SplitByte [] sep = [[]]"
| "SplitByte (c # cs) sep =
     (if c = sep then [] # SplitByte cs sep
      else case SplitByte cs sep of [] \<Rightarrow> [[c]] | p # ps \<Rightarrow> (c # p) # ps)"

text \<open>
  The UTF-8 encodings of the code points \<open>unicode.IsSpace\<close> accepts: tab to carriage return,
  space, U+0085, U+00A0, U+1680, U+2000 to U+200A, U+2028, U+2029, U+202F, U+205F, U+3000.
\<close>

definition spaces :: "string list" where
  "spaces = map (map char_of)
     ([[9], [10], [11], [12], [13], [32], [0xC2, 0x85], [0xC2, 0xA0], [0xE1, 0x9A, 0x80]] @
      map (\<lambda>n. [0xE2, 0x80, n]) [0x80, 0x81, 0x82, 0x83, 0x84, 0x85, 0x86, 0x87, 0x88, 0x89, 0x8A] @
      [[0xE2, 0x80, 0xA8], [0xE2, 0x80, 0xA9], [0xE2, 0x80, 0xAF], [0xE2, 0x81, 0x9F],
       [0xE3, 0x80, 0x80 :: nat]])"

definition leading :: "string list \<Rightarrow> string \<Rightarrow> string option" where
  "leading pats s = find (HasPrefix s) pats"

lemma leading_Some: "leading pats s = Some p \<Longrightarrow> p \<in> set pats \<and> HasPrefix s p"
  by (auto simp: leading_def find_Some_iff)

function trim_left :: "string list \<Rightarrow> string \<Rightarrow> string" where
  "trim_left pats s =
     (case leading pats s of
        None \<Rightarrow> s
      | Some p \<Rightarrow> if p = [] then s else trim_left pats (drop (length p) s))"
  by pat_completeness auto
termination
proof (relation "measure (\<lambda>(pats, s). length s)")
  fix pats s p assume "leading pats s = Some p" and "p \<noteq> []"
  then have "0 < length p" and "s \<noteq> []"
    using leading_Some [of pats s p] by (auto simp: HasPrefix_def)
  then show "((pats, drop (length p) s), pats, s) \<in> measure (\<lambda>(pats, s). length s)"
    by (cases s) auto
qed simp

declare trim_left.simps [simp del]

definition TrimSpace :: "string \<Rightarrow> string" where
  "TrimSpace s = rev (trim_left (map rev spaces) (rev (trim_left spaces s)))"

lemma trim_left_none: "leading pats s = None \<Longrightarrow> trim_left pats s = s"
  by (simp add: trim_left.simps)

lemma trim_left_suffix: "\<exists>xs. s = xs @ trim_left pats s"
proof (induction pats s rule: trim_left.induct)
  case (1 pats s)
  show ?case
  proof (cases "\<exists>p. leading pats s = Some p \<and> p \<noteq> []")
    case True
    then obtain p where p: "leading pats s = Some p" "p \<noteq> []" by blast
    then obtain xs where "drop (length p) s = xs @ trim_left pats s"
      using "1.IH" by (auto simp: trim_left.simps [of pats s])
    then show ?thesis
      by (metis append_assoc append_take_drop_id)
  next
    case False
    then show ?thesis by (auto simp: trim_left.simps [of pats s] split: option.splits)
  qed
qed

text \<open>What \<open>strings.TrimSpace\<close> returns is a part of its argument.\<close>

lemma TrimSpace_infix: "\<exists>xs ys. s = xs @ TrimSpace s @ ys"
proof -
  obtain xs where xs: "s = xs @ trim_left spaces s"
    using trim_left_suffix by blast
  obtain ys where "rev (trim_left spaces s) = ys @ trim_left (map rev spaces) (rev (trim_left spaces s))"
    using trim_left_suffix by blast
  then have "trim_left spaces s = TrimSpace s @ rev ys"
    unfolding TrimSpace_def by (metis rev_append rev_rev_ident)
  with xs show ?thesis by metis
qed

text \<open>A string of printable ASCII characters has nothing to trim.\<close>

definition graphic :: "char \<Rightarrow> bool" where
  "graphic c \<longleftrightarrow> 32 < (of_char c :: nat) \<and> (of_char c :: nat) < 127"

lemma leading_graphic:
  assumes "\<forall>c \<in> set s. graphic c" and "\<forall>p \<in> set pats. \<exists>c \<in> set p. \<not> graphic c"
  shows "leading pats s = None"
proof (rule ccontr)
  assume "leading pats s \<noteq> None"
  then obtain p where "p \<in> set pats" "take (length p) s = p"
    using leading_Some by (auto simp: HasPrefix_def)
  moreover from this have "set p \<subseteq> set s"
    by (metis set_take_subset)
  ultimately show False
    using assms by blast
qed

lemma spaces_not_graphic: "\<forall>p \<in> set spaces. \<exists>c \<in> set p. \<not> graphic c"
  by (simp add: spaces_def graphic_def)

lemma TrimSpace_graphic:
  assumes "\<forall>c \<in> set s. graphic c"
  shows "TrimSpace s = s"
proof -
  have "trim_left spaces s = s"
    using assms spaces_not_graphic by (intro trim_left_none leading_graphic)
  moreover have "trim_left (map rev spaces) (rev s) = rev s"
    using assms spaces_not_graphic by (intro trim_left_none leading_graphic) auto
  ultimately show ?thesis by (simp add: TrimSpace_def)
qed

text \<open>White space around a text that starts and ends with printable characters is what \<open>TrimSpace\<close> removes.\<close>

definition ascii_space :: "char \<Rightarrow> bool" where
  "ascii_space c \<longleftrightarrow> c \<in> set [CHR 0x09, CHR 0x0A, CHR 0x0B, CHR 0x0C, CHR 0x0D, CHR '' '']"

lemma leading_single: "c \<in> set cs \<Longrightarrow> leading (map (\<lambda>c. [c]) cs @ pats) (c # s) = Some [c]"
  by (induction cs) (auto simp: leading_def HasPrefix_def)

lemma spaces_ascii_first:
  "spaces = map (\<lambda>c. [c]) [CHR 0x09, CHR 0x0A, CHR 0x0B, CHR 0x0C, CHR 0x0D, CHR '' ''] @ drop 6 spaces"
  "map rev spaces = map (\<lambda>c. [c]) [CHR 0x09, CHR 0x0A, CHR 0x0B, CHR 0x0C, CHR 0x0D, CHR '' ''] @ drop 6 (map rev spaces)"
  by code_simp+

lemma leading_ascii_space:
  "ascii_space c \<Longrightarrow> leading spaces (c # s) = Some [c]"
  "ascii_space c \<Longrightarrow> leading (map rev spaces) (c # s) = Some [c]"
  unfolding ascii_space_def by (subst spaces_ascii_first, rule leading_single, assumption)+

lemma trim_left_spaces:
  "\<forall>c \<in> set a. ascii_space c \<Longrightarrow> trim_left spaces (a @ s) = trim_left spaces s"
  "\<forall>c \<in> set a. ascii_space c \<Longrightarrow> trim_left (map rev spaces) (a @ s) = trim_left (map rev spaces) s"
  by (induction a) (simp_all add: trim_left.simps leading_ascii_space)

lemma leading_graphic_hd:
  assumes "graphic c" and "\<forall>p \<in> set pats. p \<noteq> [] \<and> \<not> graphic (hd p)"
  shows "leading pats (c # s) = None"
proof (rule ccontr)
  assume "leading pats (c # s) \<noteq> None"
  then obtain p where p: "p \<in> set pats" "take (length p) (c # s) = p"
    using leading_Some by (auto simp: HasPrefix_def)
  with assms(2) have "hd p = c" by (metis hd_take length_greater_0_conv list.sel(1))
  with p(1) assms show False by blast
qed

lemma spaces_hd:
  "\<forall>p \<in> set spaces. p \<noteq> [] \<and> \<not> graphic (hd p)"
  "\<forall>p \<in> set (map rev spaces). p \<noteq> [] \<and> \<not> graphic (hd p)"
  by (simp_all add: spaces_def graphic_def)

lemma TrimSpace_strip:
  assumes "\<forall>c \<in> set a. ascii_space c" and "\<forall>c \<in> set b. ascii_space c"
    and "s \<noteq> []" and "graphic (hd s)" and "graphic (last s)"
  shows "TrimSpace (a @ s @ b) = s"
proof -
  have "leading spaces (s @ b) = None"
    using assms(3,4) leading_graphic_hd [OF _ spaces_hd(1)] by (cases s) auto
  then have left: "trim_left spaces (a @ s @ b) = s @ b"
    using trim_left_spaces(1) [OF assms(1)] by (simp add: trim_left_none)
  have "leading (map rev spaces) (rev s) = None"
    using assms(3,5) leading_graphic_hd [OF _ spaces_hd(2)] by (cases s rule: rev_cases) auto
  then have "trim_left (map rev spaces) (rev b @ rev s) = rev s"
    using trim_left_spaces(2) [of "rev b"] assms(2) by (simp add: trim_left_none)
  with left show ?thesis by (simp add: TrimSpace_def)
qed

subsection \<open>Prefixes\<close>

lemma HasPrefix_iff: "HasPrefix s pre \<longleftrightarrow> (\<exists>rest. s = pre @ rest)"
  by (metis HasPrefix_def append_eq_conv_conj append_take_drop_id)

lemma HasPrefix_append [simp]: "HasPrefix (pre @ rest) pre"
  by (simp add: HasPrefix_def)

lemma CutPrefix_iff: "CutPrefix s pre = Some rest \<longleftrightarrow> s = pre @ rest"
  by (auto simp: CutPrefix_def HasPrefix_iff)

subsection \<open>Decimal numbers, as \<open>fmt\<close> prints them\<close>

fun dec_of_nat :: "nat \<Rightarrow> string" where
  "dec_of_nat n =
     (if n < 10 then [char_of (48 + n)] else dec_of_nat (n div 10) @ [char_of (48 + n mod 10)])"

declare dec_of_nat.simps [simp del]

end
