(* ===== verification/GoPath.thy ===== *)
theory GoPath
  imports GoStrings "HOL-Library.Sublist"
begin

section \<open>Go file paths\<close>

text \<open>
  Go's \<open>path/filepath\<close> on Unix: \<open>Clean\<close>, \<open>Base\<close>, \<open>Dir\<close>, \<open>Join\<close>. \<open>Clean\<close> is the
  one-pass loop of the library, with the output buffer kept reversed; \<open>path_clean\<close> is its
  specification on the list of path elements, and \<open>Clean_eq_path_clean\<close> shows that the two agree.
\<close>

subsection \<open>The loop of \<open>Clean\<close>\<close>

text \<open>
  Going back over one element: the last byte is dropped, then bytes are dropped until a slash has
  been dropped or only \<open>dotdot\<close> bytes are left.
\<close>

fun backtrack :: "nat \<Rightarrow> string \<Rightarrow> string" where
  "backtrack dd [] = []"
| "backtrack dd (x # xs) = (if length xs > dd \<and> x \<noteq> CHR ''/'' then backtrack dd xs else xs)"

function clean_loop :: "bool \<Rightarrow> nat \<Rightarrow> string \<Rightarrow> string \<Rightarrow> string" where
  "clean_loop rooted dd out [] = out"
| "clean_loop rooted dd out (c # cs) =
     (if c = CHR ''/'' then clean_loop rooted dd out cs
      else if c = CHR ''.'' \<and> (cs = [] \<or> hd cs = CHR ''/'') then clean_loop rooted dd out cs
      else if c = CHR ''.'' \<and> cs \<noteq> [] \<and> hd cs = CHR ''.'' \<and> (tl cs = [] \<or> hd (tl cs) = CHR ''/'') then
        (if length out > dd then clean_loop rooted dd (backtrack dd out) (tl cs)
         else if \<not> rooted then
           (let out = CHR ''.'' # CHR ''.'' # (if out \<noteq> [] then CHR ''/'' # out else out)
            in clean_loop rooted (length out) out (tl cs))
         else clean_loop rooted dd out (tl cs))
      else
        (let out = (if length out \<noteq> (if rooted then 1 else 0) then CHR ''/'' # out else out)
         in clean_loop rooted dd (rev (takeWhile (\<lambda>x. x \<noteq> CHR ''/'') (c # cs)) @ out)
              (dropWhile (\<lambda>x. x \<noteq> CHR ''/'') (c # cs))))"
  by pat_completeness auto
termination
  by (relation "measure (\<lambda>(rooted, dd, out, path). length path)")
    (auto simp: less_Suc_eq_le length_dropWhile_le)

definition Clean :: "string \<Rightarrow> string" where
  "Clean path =
     (if path = [] then ''.''
      else let rooted = (hd path = CHR ''/'');
               out = (if rooted then clean_loop True 1 ''/'' (tl path)
                      else clean_loop False 0 [] path)
           in if out = [] then ''.'' else rev out)"

definition Base :: "string \<Rightarrow> string" where
  "Base path =
     (if path = [] then ''.''
      else let p = rev (dropWhile (\<lambda>c. c = CHR ''/'') (rev path));
               b = rev (takeWhile (\<lambda>c. c \<noteq> CHR ''/'') (rev p))
           in if b = [] then ''/'' else b)"

definition Dir :: "string \<Rightarrow> string" where
  "Dir path = Clean (rev (dropWhile (\<lambda>c. c \<noteq> CHR ''/'') (rev path)))"

text \<open>\<open>Join\<close> skips leading empty elements and joins the others.\<close>

definition JoinPath :: "string list \<Rightarrow> string" where
  "JoinPath elems =
     (let es = dropWhile (\<lambda>e. e = []) elems in if es = [] then [] else Clean (Join es ''/''))"

subsection \<open>Elements\<close>

function elems :: "string \<Rightarrow> string list" where
  "elems [] = []"
| "elems (c # cs) =
     (if c = CHR ''/'' then elems cs
      else takeWhile (\<lambda>x. x \<noteq> CHR ''/'') (c # cs) # elems (dropWhile (\<lambda>x. x \<noteq> CHR ''/'') (c # cs)))"
  by pat_completeness auto
termination
  by (relation "measure length") (auto simp: less_Suc_eq_le length_dropWhile_le)

text \<open>One element on the stack of those kept so far, the last one first.\<close>

definition push_elem :: "bool \<Rightarrow> string list \<Rightarrow> string \<Rightarrow> string list" where
  "push_elem rooted st e =
     (if e = ''.'' then st
      else if e = ''..'' then
        (if st \<noteq> [] \<and> hd st \<noteq> ''..'' then tl st else if rooted then st else e # st)
      else e # st)"

definition clean_elems :: "bool \<Rightarrow> string list \<Rightarrow> string list" where
  "clean_elems rooted es = rev (foldl (push_elem rooted) [] es)"

definition render :: "bool \<Rightarrow> string list \<Rightarrow> string" where
  "render rooted es = (if rooted then ''/'' else []) @ Join es ''/''"

definition rooted_path :: "string \<Rightarrow> bool" where
  "rooted_path path \<longleftrightarrow> path \<noteq> [] \<and> hd path = CHR ''/''"

definition path_clean :: "string \<Rightarrow> string" where
  "path_clean path =
     (let out = render (rooted_path path) (clean_elems (rooted_path path) (elems path))
      in if out = [] then ''.'' else out)"

lemma Join_snoc: "xs \<noteq> [] \<Longrightarrow> Join (xs @ [y]) sep = Join xs sep @ sep @ y"
  by (induction xs sep rule: Join.induct) auto

lemma Join_append:
  "xs \<noteq> [] \<Longrightarrow> ys \<noteq> [] \<Longrightarrow> Join (xs @ ys) sep = Join xs sep @ sep @ Join ys sep"
  by (induction xs sep rule: Join.induct) (auto simp: neq_Nil_conv)

lemma Join_Nil_iff: "[] \<notin> set xs \<Longrightarrow> Join xs sep = [] \<longleftrightarrow> xs = []"
  by (cases xs rule: list.exhaust; cases "tl xs") auto

text \<open>A name: what an element other than \<open>.\<close> looks like.\<close>

definition good_elem :: "string \<Rightarrow> bool" where
  "good_elem e \<longleftrightarrow> e \<noteq> [] \<and> CHR ''/'' \<notin> set e \<and> e \<noteq> ''.''"

text \<open>
  The stack of a run: good elements, and \<open>..\<close> only at the bottom of the stack of a relative path.
\<close>

definition dots :: "string list \<Rightarrow> string list" where
  "dots st = takeWhile (\<lambda>e. e = ''..'') (rev st)"

definition stack_ok :: "bool \<Rightarrow> string list \<Rightarrow> bool" where
  "stack_ok rooted st \<longleftrightarrow>
     list_all good_elem st \<and> (rooted \<longrightarrow> ''..'' \<notin> set st) \<and>
     ''..'' \<notin> set (dropWhile (\<lambda>e. e = ''..'') (rev st))"

lemma good_dotdot [simp]: "good_elem ''..''"
  by (simp add: good_elem_def)

lemma render_Nil_length: "length (render rooted []) = (if rooted then 1 else 0)"
  by (simp add: render_def)

lemma push_dot: "push_elem rooted st ''.'' = st"
  by (simp add: push_elem_def)

lemma push_up: "st \<noteq> [] \<Longrightarrow> hd st \<noteq> ''..'' \<Longrightarrow> push_elem rooted st ''..'' = tl st"
  by (simp add: push_elem_def)

lemma push_up_bottom:
  "st = [] \<or> hd st = ''..'' \<Longrightarrow> push_elem rooted st ''..'' = (if rooted then st else ''..'' # st)"
  by (auto simp: push_elem_def)

lemma push_name: "e \<noteq> ''.'' \<Longrightarrow> e \<noteq> ''..'' \<Longrightarrow> push_elem rooted st e = e # st"
  by (simp add: push_elem_def)

lemma render_single: "render rooted [e] = render rooted [] @ e"
  by (simp add: render_def)

lemma render_rev_Nil_iff:
  "list_all good_elem st \<Longrightarrow> render rooted (rev st) = [] \<longleftrightarrow> \<not> rooted \<and> st = []"
  using Join_Nil_iff [of "rev st"] by (auto simp: render_def list_all_iff good_elem_def)

lemma render_snoc:
  "render rooted (es @ [e]) =
     render rooted es @ (if es \<noteq> [] then ''/'' else []) @ e"
  by (cases "es = []") (simp_all add: render_def Join_snoc)

lemma render_append_length:
  "list_all good_elem ys \<Longrightarrow> ys \<noteq> [] \<Longrightarrow> length (render rooted xs) < length (render rooted (xs @ ys))"
proof (induction ys rule: rev_induct)
  case (snoc y ys)
  then have "length (render rooted (xs @ ys)) < length (render rooted ((xs @ ys) @ [y]))"
    unfolding render_snoc by (simp add: good_elem_def)
  with snoc show ?case
    by (cases "ys = []") (auto simp del: append_assoc simp: append_assoc [symmetric])
qed simp

lemma stack_split: "rev st = dots st @ dropWhile (\<lambda>e. e = ''..'') (rev st)"
  by (simp add: dots_def)

lemma dots_eq_rev:
  assumes "stack_ok rooted st" and "st = [] \<or> hd st = ''..''"
  shows "dots st = rev st"
proof -
  let ?r = "dropWhile (\<lambda>e. e = ''..'') (rev st)"
  have "?r = []"
  proof (rule ccontr)
    assume "?r \<noteq> []"
    then have "last ?r = last (rev st)"
      by (metis last_appendR stack_split)
    also have "\<dots> = hd st"
      using \<open>?r \<noteq> []\<close> by (metis dropWhile.simps(1) last_rev rev_is_Nil_conv)
    finally have "hd st \<in> set ?r"
      using \<open>?r \<noteq> []\<close> by (metis last_in_set)
    with assms \<open>?r \<noteq> []\<close> show False
      by (auto simp: stack_ok_def)
  qed
  then show ?thesis
    using stack_split [of st] by (metis append_Nil2)
qed

lemma above_dots:
  assumes "stack_ok rooted st"
  shows "length (render rooted (dots st)) < length (render rooted (rev st)) \<longleftrightarrow> st \<noteq> [] \<and> hd st \<noteq> ''..''"
proof (cases "st = [] \<or> hd st = ''..''")
  case True
  with dots_eq_rev [OF assms True] show ?thesis by auto
next
  case False
  let ?r = "dropWhile (\<lambda>e. e = ''..'') (rev st)"
  have "?r \<noteq> []"
  proof
    assume "?r = []"
    then have "\<forall>e \<in> set st. e = ''..''" by (simp add: dropWhile_eq_Nil_conv)
    with False show False by (cases st) auto
  qed
  moreover have "list_all good_elem ?r"
    using assms by (auto simp: stack_ok_def list_all_iff dest: set_dropWhileD)
  ultimately have "length (render rooted (dots st)) < length (render rooted (dots st @ ?r))"
    by (intro render_append_length)
  then show ?thesis
    using False stack_split [of st] by metis
qed

lemma dots_name: "e \<noteq> ''..'' \<Longrightarrow> dots (e # st) = dots st"
  by (auto simp: dots_def takeWhile_append takeWhile_eq_all_conv [THEN iffD2])

lemma stack_ok_push: "stack_ok rooted st \<Longrightarrow> good_elem e \<Longrightarrow> e \<noteq> ''..'' \<Longrightarrow> stack_ok rooted (e # st)"
  by (auto simp: stack_ok_def dropWhile_append)

lemma stack_ok_pop: "stack_ok rooted (e # st) \<Longrightarrow> stack_ok rooted st"
  by (auto simp: stack_ok_def dropWhile_append dropWhile_eq_Nil_conv [THEN iffD2] split: if_splits)

lemma stack_ok_dotdot:
  assumes "stack_ok False st" and "st = [] \<or> hd st = ''..''"
  shows "stack_ok False (''..'' # st)" and "dots (''..'' # st) = rev (''..'' # st)"
proof -
  from dots_eq_rev [OF assms] have all: "\<forall>e \<in> set st. e = ''..''"
    by (metis dots_def set_rev set_takeWhileD)
  then show "stack_ok False (''..'' # st)"
    using assms(1) by (auto simp: stack_ok_def dropWhile_append)
  from all show "dots (''..'' # st) = rev (''..'' # st)"
    by (simp add: dots_def takeWhile_append)
qed

lemma backtrack_slash:
  "CHR ''/'' \<notin> set y \<Longrightarrow> dd \<le> length z \<Longrightarrow> backtrack dd (y @ CHR ''/'' # z) = z"
  by (induction y) auto

lemma backtrack_base:
  "y \<noteq> [] \<Longrightarrow> CHR ''/'' \<notin> set y \<Longrightarrow> dd = length z \<Longrightarrow> backtrack dd (y @ z) = z"
  by (induction y) auto

declare clean_loop.simps(2) [simp del]
declare elems.simps(2) [simp del]

text \<open>Going back drops the last element that is not \<open>..\<close>.\<close>

lemma backtrack_render:
  assumes "stack_ok rooted (e # st)" and "e \<noteq> ''..''"
  shows "backtrack (length (render rooted (dots (e # st)))) (rev (render rooted (rev (e # st)))) =
    rev (render rooted (rev st))"
proof -
  have e: "CHR ''/'' \<notin> set (rev e)" "rev e \<noteq> []"
    using assms(1) by (auto simp: stack_ok_def good_elem_def)
  have out: "rev (render rooted (rev (e # st))) =
      rev e @ (if st \<noteq> [] then ''/'' else []) @ rev (render rooted (rev st))"
    by (simp add: render_snoc render_single)
  have "length (render rooted (dots st)) \<le> length (render rooted (rev st))"
    using above_dots [OF stack_ok_pop [OF assms(1)]] dots_eq_rev [OF stack_ok_pop [OF assms(1)]]
    by (metis less_imp_le order_refl)
  then show ?thesis
    using e assms(2) unfolding out
    by (cases "st = []") (auto simp: dots_name backtrack_slash backtrack_base, simp add: dots_def backtrack_base)
qed

lemma elems_dot:
  "cs = [] \<or> hd cs = CHR ''/'' \<Longrightarrow> elems (CHR ''.'' # cs) = ''.'' # elems cs"
  by (cases cs) (auto simp: elems.simps)

lemma elems_dotdot:
  "cs = [] \<or> hd cs = CHR ''/'' \<Longrightarrow> elems (CHR ''.'' # CHR ''.'' # cs) = ''..'' # elems cs"
  by (cases cs) (auto simp: elems.simps)

lemma first_elem_good:
  assumes "c \<noteq> CHR ''/''"
    and "\<not> (c = CHR ''.'' \<and> (cs = [] \<or> hd cs = CHR ''/''))"
  shows "good_elem (takeWhile (\<lambda>x. x \<noteq> CHR ''/'') (c # cs))"
  using assms by (cases cs) (auto simp: good_elem_def dest: set_takeWhileD split: if_splits)

lemma first_elem_not_dotdot:
  assumes "\<not> (c = CHR ''.'' \<and> cs \<noteq> [] \<and> hd cs = CHR ''.'' \<and> (tl cs = [] \<or> hd (tl cs) = CHR ''/''))"
  shows "takeWhile (\<lambda>x. x \<noteq> CHR ''/'') (c # cs) \<noteq> ''..''"
  using assms by (cases cs; cases "tl cs") (auto split: if_splits)

lemma clean_loop_name:
  "rev e @ (if length (rev (render rooted (rev st))) \<noteq> (if rooted then 1 else 0)
            then CHR ''/'' # rev (render rooted (rev st)) else rev (render rooted (rev st))) =
   rev (render rooted (rev (e # st)))"
  if "list_all good_elem st"
  using that render_append_length [of "rev st" rooted "[]"]
  by (cases "st = []") (auto simp: render_snoc render_Nil_length render_single)

lemma clean_loop_step:
  assumes "c \<noteq> CHR ''/''" and "\<not> (c = CHR ''.'' \<and> (cs = [] \<or> hd cs = CHR ''/''))"
    and "\<not> (c = CHR ''.'' \<and> cs \<noteq> [] \<and> hd cs = CHR ''.'' \<and> (tl cs = [] \<or> hd (tl cs) = CHR ''/''))"
  shows "clean_loop rooted dd out (c # cs) = clean_loop rooted dd
    (rev (takeWhile (\<lambda>x. x \<noteq> CHR ''/'') (c # cs)) @
      (if length out \<noteq> (if rooted then 1 else 0) then CHR ''/'' # out else out))
    (dropWhile (\<lambda>x. x \<noteq> CHR ''/'') (c # cs))"
  unfolding clean_loop.simps(2) [of rooted dd out c cs] Let_def
  by (subst if_not_P [OF assms(1)], subst if_not_P [OF assms(2)], subst if_not_P [OF assms(3)]) (rule refl)

lemma elems_step:
  "c \<noteq> CHR ''/'' \<Longrightarrow> elems (c # cs) =
     takeWhile (\<lambda>x. x \<noteq> CHR ''/'') (c # cs) # elems (dropWhile (\<lambda>x. x \<noteq> CHR ''/'') (c # cs))"
  by (simp only: elems.simps(2) if_False)

lemma clean_loop_elems:
  assumes "stack_ok rooted st" and "out = rev (render rooted (rev st))"
    and "dd = length (render rooted (dots st))"
  shows "clean_loop rooted dd out path =
    rev (render rooted (rev (foldl (push_elem rooted) st (elems path))))"
  using assms
proof (induction rooted dd out path arbitrary: st rule: clean_loop.induct)
  case (1 rooted dd out)
  then show ?case by simp
next
  case (2 rooted dd out c cs)
  note ok = "2.prems"(1) and out = "2.prems"(2) and dd = "2.prems"(3)
  let ?dotdot = "c = CHR ''.'' \<and> cs \<noteq> [] \<and> hd cs = CHR ''.'' \<and> (tl cs = [] \<or> hd (tl cs) = CHR ''/'')"
  consider (slash) "c = CHR ''/''"
    | (dot) "c = CHR ''.''" "cs = [] \<or> hd cs = CHR ''/''"
    | (dotdot) "c \<noteq> CHR ''/''" "\<not> (c = CHR ''.'' \<and> (cs = [] \<or> hd cs = CHR ''/''))" "?dotdot"
    | (name) "c \<noteq> CHR ''/''" "\<not> (c = CHR ''.'' \<and> (cs = [] \<or> hd cs = CHR ''/''))" "\<not> ?dotdot"
    by blast
  then show ?case
  proof cases
    case slash
    with "2.IH"(1) [OF _ ok out dd] show ?thesis by (simp add: clean_loop.simps elems.simps)
  next
    case dot
    with "2.IH"(2) [OF _ _ ok out dd] show ?thesis
      by (simp add: clean_loop.simps elems_dot push_dot)
  next
    case dotdot
    then obtain cs' where cs: "cs = CHR ''.'' # cs'" "cs' = [] \<or> hd cs' = CHR ''/''" and c: "c = CHR ''.''"
      by (cases cs) auto
    note el = elems_dotdot [OF cs(2)]
    have above: "length out > dd \<longleftrightarrow> st \<noteq> [] \<and> hd st \<noteq> ''..''"
      using above_dots [OF ok] out dd by simp
    show ?thesis
    proof (cases "length out > dd")
      case True
      then obtain e st' where st: "st = e # st'" "e \<noteq> ''..''"
        using above by (cases st) auto
      have "backtrack dd out = rev (render rooted (rev st'))"
        using backtrack_render ok st out dd by simp
      moreover have "dd = length (render rooted (dots st'))"
        using dd st dots_name by simp
      ultimately show ?thesis
        using "2.IH"(3) [OF _ _ _ True, of st'] dotdot cs c st el True stack_ok_pop ok
        by (simp add: clean_loop.simps push_up)
    next
      case False
      then have bottom: "st = [] \<or> hd st = ''..''" using above by blast
      show ?thesis
      proof (cases rooted)
        case True
        with ok bottom have "st = []" by (cases st) (auto simp: stack_ok_def)
        with "2.IH"(5) [OF _ _ _ False _ ok out dd] dotdot cs c el False True bottom
        show ?thesis by (simp add: clean_loop.simps push_up_bottom)
      next
        case rel: False
        have "stack_ok False st" using ok rel by simp
        note push = stack_ok_dotdot [OF this bottom]
        let ?out = "CHR ''.'' # CHR ''.'' # (if out \<noteq> [] then CHR ''/'' # out else out)"
        have new: "?out = rev (render rooted (rev (''..'' # st)))"
          using ok rel out render_rev_Nil_iff [of st rooted] render_Nil_length [of rooted]
          by (auto simp: render_snoc stack_ok_def)
        have "length ?out = length (render rooted (dots (''..'' # st)))"
          using push(2) new rel by (metis length_rev)
        moreover have "stack_ok rooted (''..'' # st)"
          using push(1) rel by simp
        ultimately show ?thesis
          using "2.IH"(4) [OF _ _ _ False _ refl _ new] dotdot cs c el False rel bottom
          by (simp add: clean_loop.simps push_up_bottom Let_def)
      qed
    qed
  next
    case name
    let ?e = "takeWhile (\<lambda>x. x \<noteq> CHR ''/'') (c # cs)"
    let ?out = "if length out \<noteq> (if rooted then 1 else 0) then CHR ''/'' # out else out"
    have e: "good_elem ?e" "?e \<noteq> ''..''"
      using first_elem_good [OF name(1,2)] first_elem_not_dotdot [OF name(3)] by blast+
    have "rev ?e @ ?out = rev (render rooted (rev (?e # st)))"
      unfolding out using ok by (intro clean_loop_name) (simp add: stack_ok_def)
    moreover have "dd = length (render rooted (dots (?e # st)))"
      using dd dots_name [OF e(2)] by simp
    moreover have "stack_ok rooted (?e # st)"
      using stack_ok_push [OF ok e] .
    ultimately have "clean_loop rooted dd (rev ?e @ ?out) (dropWhile (\<lambda>x. x \<noteq> CHR ''/'') (c # cs)) =
        rev (render rooted (rev (foldl (push_elem rooted) (?e # st)
          (elems (dropWhile (\<lambda>x. x \<noteq> CHR ''/'') (c # cs))))))"
      using "2.IH"(6) [OF name refl] by blast
    moreover have "push_elem rooted st ?e = ?e # st"
      using e by (intro push_name) (auto simp: good_elem_def)
    ultimately show ?thesis
      by (simp only: clean_loop_step [OF name] elems_step [OF name(1)] foldl.simps)
  qed
qed

lemma Clean_eq_path_clean: "Clean path = path_clean path"
proof (cases path)
  case Nil
  then show ?thesis
    by (simp add: Clean_def path_clean_def clean_elems_def render_def rooted_path_def)
next
  case (Cons c cs)
  have "stack_ok r []" for r
    by (simp add: stack_ok_def)
  note run = clean_loop_elems [OF this]
  show ?thesis
  proof (cases "c = CHR ''/''")
    case True
    then show ?thesis
      using Cons run [of "''/''" True 1 cs]
      by (simp add: elems.simps Clean_def path_clean_def clean_elems_def render_def rooted_path_def dots_def)
  next
    case False
    then show ?thesis
      using Cons run [of "[]" False 0 path]
      by (simp add: Clean_def path_clean_def clean_elems_def render_def rooted_path_def dots_def
          Let_def)
  qed
qed


subsection \<open>What cleaning does to the elements\<close>

lemma elems_slash [simp]: "elems (CHR ''/'' # cs) = elems cs"
  by (simp add: elems.simps)

lemma takeWhile_no_slash: "CHR ''/'' \<notin> set e \<Longrightarrow> takeWhile (\<lambda>x. x \<noteq> CHR ''/'') (e @ CHR ''/'' # y) = e"
  by (induction e) auto

lemma dropWhile_no_slash:
  "CHR ''/'' \<notin> set e \<Longrightarrow> dropWhile (\<lambda>x. x \<noteq> CHR ''/'') (e @ CHR ''/'' # y) = CHR ''/'' # y"
  by (induction e) auto

lemma elems_name: "e \<noteq> [] \<Longrightarrow> CHR ''/'' \<notin> set e \<Longrightarrow> elems e = [e]"
proof (cases e)
  case (Cons c cs)
  moreover assume "CHR ''/'' \<notin> set e"
  ultimately have "takeWhile (\<lambda>x. x \<noteq> CHR ''/'') e = e" "dropWhile (\<lambda>x. x \<noteq> CHR ''/'') e = []" "c \<noteq> CHR ''/''"
    by (auto simp: takeWhile_eq_all_conv dropWhile_eq_Nil_conv)
  then show ?thesis by (metis Cons elems_step elems.simps(1))
qed simp

lemma elems_name_slash: "e \<noteq> [] \<Longrightarrow> CHR ''/'' \<notin> set e \<Longrightarrow> elems (e @ CHR ''/'' # y) = e # elems y"
  using takeWhile_no_slash [of e y] dropWhile_no_slash [of e y]
  by (cases e) (auto simp: elems.simps)

lemma elems_append_slash: "elems (x @ CHR ''/'' # y) = elems x @ elems y"
proof (induction x rule: elems.induct)
  case (2 c cs)
  show ?case
  proof (cases "c = CHR ''/'' \<or> CHR ''/'' \<notin> set cs")
    case True
    with 2(1) elems_name_slash [of "c # cs" y] elems_name [of "c # cs"] show ?thesis
      by (cases "c = CHR ''/''") auto
  next
    case False
    then have "takeWhile (\<lambda>x. x \<noteq> CHR ''/'') (cs @ CHR ''/'' # y) = takeWhile (\<lambda>x. x \<noteq> CHR ''/'') cs"
      and "dropWhile (\<lambda>x. x \<noteq> CHR ''/'') (cs @ CHR ''/'' # y) = dropWhile (\<lambda>x. x \<noteq> CHR ''/'') cs @ CHR ''/'' # y"
      by (auto intro: takeWhile_append1 dropWhile_append1)
    with False 2(2) show ?thesis
      by (simp add: elems_step)
  qed
qed simp

lemma elems_no_slash: "e \<in> set (elems s) \<Longrightarrow> e \<noteq> [] \<and> CHR ''/'' \<notin> set e"
  by (induction s rule: elems.induct) (auto simp: elems.simps dest: set_takeWhileD split: if_splits)

lemma elems_Join:
  "list_all good_elem es \<Longrightarrow> elems (Join es ''/'') = es"
proof (induction es "''/''" rule: Join.induct)
  case (2 x)
  then show ?case by (simp add: elems_name good_elem_def)
next
  case (3 x y xs)
  then show ?case by (simp add: elems_name_slash good_elem_def)
qed simp

lemma elems_render: "list_all good_elem es \<Longrightarrow> elems (render rooted es) = es"
  by (simp add: render_def elems_Join)

text \<open>A clean list of elements: a fixed point of cleaning.\<close>

lemma stack_ok_Nil [simp]: "stack_ok rooted []"
  by (simp add: stack_ok_def)

lemma stack_ok_push_elem:
  assumes "stack_ok rooted st" and "e \<noteq> []" and "CHR ''/'' \<notin> set e"
  shows "stack_ok rooted (push_elem rooted st e)"
proof (cases "e = ''..''")
  case True
  show ?thesis
  proof (cases "st = [] \<or> hd st = ''..''")
    case bottom: True
    with assms stack_ok_dotdot [OF _ bottom] show ?thesis
      by (cases rooted) (auto simp: True push_up_bottom)
  next
    case False
    with assms stack_ok_pop [of rooted "hd st" "tl st"] show ?thesis
      by (simp add: True push_up)
  qed
next
  case False
  with assms show ?thesis
    by (cases "e = ''.''") (auto simp: push_dot push_name good_elem_def intro: stack_ok_push)
qed

lemma stack_ok_foldl:
  "stack_ok rooted st \<Longrightarrow> \<forall>e \<in> set es. e \<noteq> [] \<and> CHR ''/'' \<notin> set e \<Longrightarrow>
   stack_ok rooted (foldl (push_elem rooted) st es)"
  by (induction es arbitrary: st) (auto intro: stack_ok_push_elem)

lemma clean_elems_ok: "stack_ok rooted (rev (clean_elems rooted (elems p)))"
  unfolding clean_elems_def by (simp add: stack_ok_foldl elems_no_slash)

lemma clean_elems_good: "list_all good_elem (clean_elems rooted (elems p))"
  using clean_elems_ok [of rooted p] by (simp add: stack_ok_def)

lemma foldl_push_ok:
  "stack_ok rooted (rev es @ st) \<Longrightarrow> (rooted \<Longrightarrow> ''..'' \<notin> set es) \<Longrightarrow>
   foldl (push_elem rooted) st es = rev es @ st"
proof (induction es arbitrary: st)
  case (Cons e es)
  have e: "good_elem e"
    using Cons.prems(1) by (simp add: stack_ok_def)
  have "push_elem rooted st e = e # st"
  proof (cases "e = ''..''")
    case True
    have "st = [] \<or> hd st = ''..''"
    proof (rule ccontr)
      assume neg: "\<not> (st = [] \<or> hd st = ''..'')"
      then have "hd st \<in> set st" "hd st \<noteq> ''..''" by auto
      then have "dropWhile (\<lambda>e. e = ''..'') (rev st @ ''..'' # es) =
          dropWhile (\<lambda>e. e = ''..'') (rev st) @ ''..'' # es"
        by (intro dropWhile_append1 [of "hd st"]) auto
      with Cons.prems(1) show False
        by (simp add: stack_ok_def True)
    qed
    with Cons.prems(2) True show ?thesis
      by (auto simp: push_up_bottom)
  next
    case False
    with e show ?thesis by (simp add: push_name good_elem_def)
  qed
  with Cons.IH [of "e # st"] Cons.prems show ?case by simp
qed simp

lemma clean_elems_fix:
  assumes "stack_ok rooted (rev es)"
  shows "clean_elems rooted es = es"
  using foldl_push_ok [of rooted es "[]"] assms by (simp add: clean_elems_def stack_ok_def)

text \<open>The elements of a path after cleaning.\<close>

definition path_elems :: "string \<Rightarrow> string list" where
  "path_elems p = clean_elems (rooted_path p) (elems p)"

lemma path_elems_good: "list_all good_elem (path_elems p)"
  by (simp add: path_elems_def clean_elems_good)

lemma path_elems_no_dotdot: "rooted_path p \<Longrightarrow> ''..'' \<notin> set (path_elems p)"
  using clean_elems_ok [of True p] by (simp add: path_elems_def stack_ok_def)

lemma Clean_rooted: "rooted_path p \<Longrightarrow> Clean p = render True (path_elems p)"
  by (simp add: Clean_eq_path_clean path_clean_def path_elems_def render_def)

lemma Clean_relative:
  "\<not> rooted_path p \<Longrightarrow> Clean p = (if path_elems p = [] then ''.'' else Join (path_elems p) ''/'')"
  using path_elems_good [of p] Join_Nil_iff [of "path_elems p" "''/''"]
  by (auto simp: Clean_eq_path_clean path_clean_def path_elems_def render_def list_all_iff good_elem_def)

lemma rooted_Clean [simp]: "rooted_path (Clean p) = rooted_path p"
proof (cases "rooted_path p")
  case True
  then show ?thesis by (simp add: Clean_rooted render_def rooted_path_def)
next
  case False
  have "rooted_path (Join es ''/'') = False" if "list_all good_elem es" for es
    using that by (cases es; cases "hd es"; cases "tl es") (auto simp: rooted_path_def good_elem_def)
  then show ?thesis
    using False path_elems_good [of p] by (auto simp: Clean_relative rooted_path_def)
qed

lemma path_elems_Clean [simp]: "path_elems (Clean p) = path_elems p"
proof -
  have fixed: "clean_elems (rooted_path p) (path_elems p) = path_elems p"
    unfolding path_elems_def by (intro clean_elems_fix clean_elems_ok)
  show ?thesis
  proof (cases "rooted_path p")
    case True
    then have "path_elems (Clean p) = clean_elems True (path_elems p)"
      unfolding path_elems_def [of "Clean p"]
      by (simp add: Clean_rooted elems_render path_elems_good render_def rooted_path_def elems_Join)
    with True fixed show ?thesis by simp
  next
    case False
    have "elems (Clean p) = (if path_elems p = [] then [''.''] else path_elems p)"
      using False path_elems_good [of p] by (simp add: Clean_relative elems_Join elems_name)
    with False fixed show ?thesis
      by (cases "path_elems p = []")
        (simp_all add: path_elems_def [of "Clean p"] clean_elems_def [of _ "[''.'']"] push_dot)
  qed
qed

lemma Clean_cong:
  assumes "rooted_path p = rooted_path q" and "path_elems p = path_elems q"
  shows "Clean p = Clean q"
  using assms by (cases "rooted_path q") (simp_all add: Clean_rooted Clean_relative)

lemma Clean_Clean [simp]: "Clean (Clean p) = Clean p"
  by (rule Clean_cong) simp_all

lemma Clean_neq_Nil [simp]: "Clean p \<noteq> []"
  using path_elems_good [of p] Join_Nil_iff [of "path_elems p" "''/''"]
  by (cases "rooted_path p")
    (auto simp: Clean_rooted Clean_relative render_def list_all_iff good_elem_def)

lemma path_elems_append:
  assumes "rooted_path p" and "''..'' \<notin> set (elems q)"
  shows "path_elems (p @ CHR ''/'' # q) = path_elems p @ filter (\<lambda>e. e \<noteq> ''.'') (elems q)"
proof -
  have "foldl (push_elem True) st es = rev (filter (\<lambda>e. e \<noteq> ''.'') es) @ st" if "''..'' \<notin> set es" for st es
    using that by (induction es arbitrary: st) (auto simp: push_dot push_name)
  moreover have "rooted_path (p @ CHR ''/'' # q)"
    using assms(1) by (simp add: rooted_path_def)
  ultimately show ?thesis
    using assms by (simp add: path_elems_def clean_elems_def elems_append_slash)
qed

text \<open>
  Comparing two cleaned rooted paths as strings, with a slash after the first one, is comparing
  their elements: one is a prefix of the other.
\<close>

lemma nested_iff_prefix:
  assumes "rooted_path p" and "rooted_path q" and "path_elems q \<noteq> []"
  shows "Clean p = Clean q \<or> HasPrefix (Clean p) (Clean q @ ''/'') \<longleftrightarrow> prefix (path_elems q) (path_elems p)"
proof
  assume "Clean p = Clean q \<or> HasPrefix (Clean p) (Clean q @ ''/'')"
  then consider "Clean p = Clean q" | rest where "Clean p = Clean q @ CHR ''/'' # rest"
    by (auto simp: HasPrefix_iff)
  then show "prefix (path_elems q) (path_elems p)"
  proof cases
    case 1
    then have "path_elems (Clean p) = path_elems (Clean q)" by simp
    then show ?thesis by simp
  next
    case 2
    have "elems (Clean r) = path_elems r" if "rooted_path r" for r
      using that by (simp add: Clean_rooted elems_render path_elems_good)
    then have "path_elems p = path_elems q @ elems rest"
      using 2 assms by (metis elems_append_slash)
    then show ?thesis by simp
  qed
next
  assume "prefix (path_elems q) (path_elems p)"
  then obtain es where "path_elems p = path_elems q @ es" by (auto simp: prefix_def)
  with assms show "Clean p = Clean q \<or> HasPrefix (Clean p) (Clean q @ ''/'')"
    by (cases "es = []") (auto simp: Clean_rooted render_def Join_append HasPrefix_iff)
qed

end
