(* ===== verification/MemOS.thy ===== *)
theory MemOS
  imports GoOS GoPath
begin

unbundle bit_operations_syntax

section \<open>A host in memory\<close>

text \<open>
  One concrete operating system for the record \<open>os\<close>: files and directories by cleaned path, and a
  table of open files. It is no part of the program; the witnesses of the theorems about every
  host evaluate the code's model on it.
\<close>

datatype node = FileNode bytes filemode i64 | DirNode filemode i64

record mem =
  m_nodes :: "(string \<times> node) list"
  m_fds :: "(nat \<times> string) list"

abbreviation mem_O_CREATE :: i64 where "mem_O_CREATE \<equiv> 0x40"
abbreviation mem_O_TRUNC :: i64 where "mem_O_TRUNC \<equiv> 0x200"

definition mem_node :: "mem \<Rightarrow> string \<Rightarrow> node option" where
  "mem_node w p = map_of (m_nodes w) (Clean p)"

definition mem_put :: "string \<Rightarrow> node \<Rightarrow> mem \<Rightarrow> mem" where
  "mem_put p n w = w\<lparr>m_nodes := (Clean p, n) # filter (\<lambda>(q, _). q \<noteq> Clean p) (m_nodes w)\<rparr>"

definition mem_del :: "string \<Rightarrow> mem \<Rightarrow> mem" where
  "mem_del p w = w\<lparr>m_nodes := filter (\<lambda>(q, _). q \<noteq> Clean p) (m_nodes w)\<rparr>"

definition mem_err :: "errno \<Rightarrow> goerr" where
  "mem_err e = PathError (Errno e)"

fun node_info :: "node \<Rightarrow> fileinfo" where
  "node_info (FileNode b m t) = \<lparr>fi_Mode = m, fi_Size = word_of_nat (length b), fi_ModTime = t\<rparr>"
| "node_info (DirNode m t) = \<lparr>fi_Mode = m OR ModeDir, fi_Size = 4096, fi_ModTime = t\<rparr>"

definition mem_stat :: "string \<Rightarrow> mem \<Rightarrow> (goerr + fileinfo) \<times> mem" where
  "mem_stat p w =
     (case mem_node w p of None \<Rightarrow> (Inl (mem_err ENOENT), w) | Some n \<Rightarrow> (Inr (node_info n), w))"

definition fresh_fd :: "mem \<Rightarrow> nat" where
  "fresh_fd w = Suc (sum_list (map fst (m_fds w)))"

definition mem_open :: "string \<Rightarrow> i64 \<Rightarrow> filemode \<Rightarrow> mem \<Rightarrow> (goerr + nat) \<times> mem" where
  "mem_open p fl pm w =
     (case mem_node w p of
        None \<Rightarrow>
          if fl AND mem_O_CREATE = 0 then (Inl (mem_err ENOENT), w)
          else (let fd = fresh_fd w in
            (Inr fd, (mem_put p (FileNode [] pm 0) w)\<lparr>m_fds := (fd, Clean p) # m_fds w\<rparr>))
      | Some n \<Rightarrow>
          (let fd = fresh_fd w;
               w = (case n of
                      FileNode b m t \<Rightarrow>
                        if fl AND mem_O_TRUNC \<noteq> 0 then mem_put p (FileNode [] m t) w else w
                    | DirNode m t \<Rightarrow> w)
           in (Inr fd, w\<lparr>m_fds := (fd, Clean p) # m_fds w\<rparr>)))"

definition mem_fstat :: "nat \<Rightarrow> mem \<Rightarrow> (goerr + fileinfo) \<times> mem" where
  "mem_fstat fd w =
     (case map_of (m_fds w) fd of None \<Rightarrow> (Inl (mem_err EBADF), w) | Some p \<Rightarrow> mem_stat p w)"

definition mem_close :: "nat \<Rightarrow> mem \<Rightarrow> goerr option \<times> mem" where
  "mem_close fd w =
     ((if map_of (m_fds w) fd = None then Some OtherError else None),
      w\<lparr>m_fds := filter (\<lambda>(g, _). g \<noteq> fd) (m_fds w)\<rparr>)"

definition mem_read :: "nat \<Rightarrow> nat \<Rightarrow> i64 \<Rightarrow> mem \<Rightarrow> (bytes \<times> goerr option) \<times> mem" where
  "mem_read fd n off w =
     (if sint off < 0 then (([], Some (PathError OtherError)), w)
      else case map_of (m_fds w) fd of
        None \<Rightarrow> (([], Some (mem_err EBADF)), w)
      | Some p \<Rightarrow>
          (case mem_node w p of
             Some (FileNode b m t) \<Rightarrow>
               (let d = take n (drop (nat (sint off)) b) in
                ((d, if length d < n then Some ErrEOF else None), w))
           | _ \<Rightarrow> (([], Some (mem_err EISDIR)), w)))"

definition mem_write :: "nat \<Rightarrow> bytes \<Rightarrow> i64 \<Rightarrow> mem \<Rightarrow> (nat \<times> goerr option) \<times> mem" where
  "mem_write fd d off w =
     (if sint off < 0 then ((0, Some (PathError OtherError)), w)
      else case map_of (m_fds w) fd of
        None \<Rightarrow> ((0, Some (mem_err EBADF)), w)
      | Some p \<Rightarrow>
          (case mem_node w p of
             Some (FileNode b m t) \<Rightarrow>
               (let k = nat (sint off);
                    b = take k b @ replicate (k - length b) 0 @ d @ drop (k + length d) b
                in ((length d, None), mem_put p (FileNode b m t) w))
           | _ \<Rightarrow> ((0, Some (mem_err EISDIR)), w)))"

definition mem_writefile :: "string \<Rightarrow> bytes \<Rightarrow> filemode \<Rightarrow> mem \<Rightarrow> goerr option \<times> mem" where
  "mem_writefile p d pm w =
     (case mem_node w p of
        Some (DirNode m t) \<Rightarrow> (Some (mem_err EISDIR), w)
      | Some (FileNode b m t) \<Rightarrow> (None, mem_put p (FileNode d m t) w)
      | None \<Rightarrow> (None, mem_put p (FileNode d pm 0) w))"

definition mem_readdir :: "string \<Rightarrow> mem \<Rightarrow> (goerr + direntry list) \<times> mem" where
  "mem_readdir p w =
     (case mem_node w p of
        Some (DirNode m t) \<Rightarrow>
          (Inr (map (\<lambda>(q, n). \<lparr>de_Name = Base q, de_Type = fi_Mode (node_info n) AND ModeType\<rparr>)
             (filter (\<lambda>(q, n). Dir q = Clean p \<and> q \<noteq> Clean p) (m_nodes w))), w)
      | Some _ \<Rightarrow> (Inl (mem_err EINVAL), w)
      | None \<Rightarrow> (Inl (mem_err ENOENT), w))"

definition mem_unlink :: "string \<Rightarrow> mem \<Rightarrow> goerr option \<times> mem" where
  "mem_unlink p w =
     (case mem_node w p of
        Some (FileNode b m t) \<Rightarrow> (None, mem_del p w)
      | Some (DirNode m t) \<Rightarrow> (Some (Errno EISDIR), w)
      | None \<Rightarrow> (Some (Errno ENOENT), w))"

definition mem_rmdir :: "string \<Rightarrow> mem \<Rightarrow> goerr option \<times> mem" where
  "mem_rmdir p w =
     (case mem_node w p of
        Some (DirNode m t) \<Rightarrow> (None, mem_del p w)
      | Some (FileNode b m t) \<Rightarrow> (Some (Errno EINVAL), w)
      | None \<Rightarrow> (Some (Errno ENOENT), w))"

definition mem_mkdir :: "string \<Rightarrow> filemode \<Rightarrow> mem \<Rightarrow> goerr option \<times> mem" where
  "mem_mkdir p pm w =
     (case mem_node w p of
        Some n \<Rightarrow> (Some (mem_err EEXIST), w)
      | None \<Rightarrow> (None, mem_put p (DirNode pm 0) w))"

definition mem_rename :: "string \<Rightarrow> string \<Rightarrow> mem \<Rightarrow> goerr option \<times> mem" where
  "mem_rename p q w =
     (case mem_node w p of
        None \<Rightarrow> (Some (LinkError (Errno ENOENT)), w)
      | Some n \<Rightarrow> (None, mem_put q n (mem_del p w)))"

definition mem_modify :: "(node \<Rightarrow> node) \<Rightarrow> string \<Rightarrow> mem \<Rightarrow> goerr option \<times> mem" where
  "mem_modify f p w =
     (case mem_node w p of
        None \<Rightarrow> (Some (mem_err ENOENT), w)
      | Some n \<Rightarrow> (None, mem_put p (f n) w))"

fun set_perm :: "filemode \<Rightarrow> node \<Rightarrow> node" where
  "set_perm pm (FileNode b m t) = FileNode b pm t"
| "set_perm pm (DirNode m t) = DirNode pm t"

fun set_length :: "nat \<Rightarrow> node \<Rightarrow> node" where
  "set_length n (FileNode b m t) = FileNode (take n b @ replicate (n - length b) 0) m t"
| "set_length n (DirNode m t) = DirNode m t"

fun set_mtime :: "i64 option \<Rightarrow> node \<Rightarrow> node" where
  "set_mtime (Some t') (FileNode b m t) = FileNode b m t'"
| "set_mtime (Some t') (DirNode m t) = DirNode m t'"
| "set_mtime None n = n"

definition memos :: "(nat, mem) os" where
  "memos = \<lparr>os_Stat = mem_stat, os_OpenFile = mem_open, os_FStat = mem_fstat,
     os_Close = mem_close, os_ReadAt = mem_read, os_WriteAt = mem_write,
     os_WriteFile = mem_writefile, os_ReadDir = mem_readdir, os_Unlink = mem_unlink,
     os_Rmdir = mem_rmdir, os_Mkdir = mem_mkdir, os_Rename = mem_rename,
     os_Chmod = (\<lambda>p m. mem_modify (set_perm m) p),
     os_Truncate = (\<lambda>p n. mem_modify (set_length (nat (sint n))) p),
     os_Chtimes = (\<lambda>p a m. mem_modify (set_mtime m) p),
     os_O_CREATE = mem_O_CREATE, os_GOOS = ''linux'', os_GOARCH = ''amd64''\<rparr>"

definition mem_opened :: "mem \<Rightarrow> nat set" where
  "mem_opened w = set (map fst (m_fds w))"

lemma fresh_fd_not_opened: "fresh_fd w \<notin> mem_opened w"
proof
  assume "fresh_fd w \<in> mem_opened w"
  then have "fresh_fd w \<le> sum_list (map fst (m_fds w))"
    unfolding mem_opened_def by (rule member_le_sum_list) simp
  then show False by (simp add: fresh_fd_def)
qed

lemma mem_opened_put [simp]: "mem_opened (mem_put p n w) = mem_opened w"
  by (simp add: mem_opened_def mem_put_def)

lemma mem_opened_del [simp]: "mem_opened (mem_del p w) = mem_opened w"
  by (simp add: mem_opened_def mem_del_def)

lemma m_fds_put [simp]: "m_fds (mem_put p n w) = m_fds w"
  by (simp add: mem_put_def)

lemma mem_opened_open:
  "case mem_open p fl pm w of (Inl _, w') \<Rightarrow> mem_opened w' = mem_opened w
   | (Inr f, w') \<Rightarrow> f \<notin> mem_opened w \<and> mem_opened w' = insert f (mem_opened w)"
  using fresh_fd_not_opened [of w]
  by (auto simp: mem_open_def Let_def mem_opened_def split: option.splits node.splits)

text \<open>The host in memory behaves as documented.\<close>

lemma memos_tracks: "os_tracks memos mem_opened"
  unfolding os_tracks_def
proof (intro conjI allI)
  show "case os_OpenFile memos p fl pm w of (Inl _, w') \<Rightarrow> mem_opened w' = mem_opened w
      | (Inr f, w') \<Rightarrow> f \<notin> mem_opened w \<and> mem_opened w' = insert f (mem_opened w)" for p fl pm w
    using mem_opened_open by (simp add: memos_def)
  show "mem_opened (snd (os_Close memos f w)) = mem_opened w - {f}" for f w
    by (auto simp: memos_def mem_close_def mem_opened_def)
qed (auto simp: memos_def mem_stat_def mem_fstat_def mem_read_def mem_write_def mem_writefile_def
    mem_readdir_def mem_unlink_def mem_rmdir_def mem_mkdir_def mem_rename_def mem_modify_def Let_def
    split: option.splits node.splits)

lemma memos_bounded: "os_bounded memos"
  by (auto simp: os_bounded_def memos_def mem_read_def mem_write_def Let_def split: option.splits node.splits)

end
