(* ===== verification/FSService.thy ===== *)
theory FSService
  imports HandleTable MemOS
begin

unbundle bit_operations_syntax

section \<open>The filesystem service (internal/executor/fs.go)\<close>

text \<open>
  \<open>FSService\<close>: the handle table and the dispatch of one request to the operating system. A
  service is the record \<open>fsservice\<close> (the mutex protects the table only, and one goroutine drives
  one service); every handler takes the service and the world and returns the response with both
  updated. Log lines are left out. The octal constants of the code are written in hexadecimal:
  \<open>0o644\<close> is \<open>0x1A4\<close>, \<open>S_IFDIR\<close> \<open>0x4000\<close>, \<open>S_IFREG\<close> \<open>0x8000\<close>.
\<close>

record 'f fsservice =
  fs_next :: u64
  fs_open :: "u64 \<Rightarrow> 'f option"

definition NewFSService :: "'f fsservice" where
  "NewFSService = \<lparr>fs_next = 1, fs_open = (\<lambda>_. None)\<rparr>"

definition fileMode :: "fileinfo \<Rightarrow> u32" where
  "fileMode fi =
     (let mode = Perm (fi_Mode fi) in
      if mode_IsDir (fi_Mode fi) then mode OR 0x4000 else mode OR 0x8000)"

definition toErrno :: "goerr option \<Rightarrow> i32" where
  "toErrno err =
     (case err of
        None \<Rightarrow> 0
      | Some e \<Rightarrow>
          (case as_errno e of
             Some n \<Rightarrow> neg_errno n
           | None \<Rightarrow>
               if IsNotExist e then neg_errno ENOENT
               else if IsPermission e then neg_errno EACCES
               else neg_errno EIO))"

definition direntType :: "direntry \<Rightarrow> byte" where
  "direntType e =
     (if mode_IsDir (de_Type e) then DTDir
      else if de_Type e AND ModeSymlink \<noteq> 0 then DTLnk
      else if mode_IsRegular (de_Type e) then DTReg
      else DTUnknown)"

definition err_response :: "goerr \<Rightarrow> response" where
  "err_response e = response0 (toErrno (Some e))"

text \<open>A call with an error result alone: \<open>if err != nil { return errno }; return &Response{}\<close>.\<close>

definition done_response :: "goerr option \<Rightarrow> response" where
  "done_response e = (case e of None \<Rightarrow> response0 0 | Some e \<Rightarrow> err_response e)"

type_synonym ('f, 'w) fsstep = "'f fsservice \<times> 'w \<Rightarrow> response \<times> 'f fsservice \<times> 'w"

definition fs_stat :: "('f, 'w) os \<Rightarrow> request \<Rightarrow> ('f, 'w) fsstep" where
  "fs_stat sys req = (\<lambda>(s, w).
     (case os_Stat sys (rq_Path req) w of
        (Inl e, w) \<Rightarrow> (err_response e, s, w)
      | (Inr fi, w) \<Rightarrow>
          ((response0 0)\<lparr>rs_Mode := fileMode fi, rs_Size := fi_Size fi,
             rs_Mtime := fi_ModTime fi\<rparr>, s, w)))"

definition openWithMode :: "('f, 'w) os \<Rightarrow> request \<Rightarrow> i64 \<Rightarrow> filemode \<Rightarrow> ('f, 'w) fsstep" where
  "openWithMode sys req flags perm = (\<lambda>(s, w).
     (case os_OpenFile sys (rq_Path req) flags perm w of
        (Inl e, w) \<Rightarrow> (err_response e, s, w)
      | (Inr f, w) \<Rightarrow>
          (case os_FStat sys f w of
             (Inl e, w) \<Rightarrow> (case os_Close sys f w of (_, w) \<Rightarrow> (err_response e, s, w))
           | (Inr fi, w) \<Rightarrow>
               (let h = fs_next s;
                    s = s\<lparr>fs_next := h + 1, fs_open := (fs_open s)(h := Some f)\<rparr>
                in ((response0 0)\<lparr>rs_Mode := fileMode fi, rs_Size := fi_Size fi,
                      rs_Handle := h, rs_Mtime := fi_ModTime fi\<rparr>, s, w)))))"

definition fs_openFile :: "('f, 'w) os \<Rightarrow> request \<Rightarrow> ('f, 'w) fsstep" where
  "fs_openFile sys req = openWithMode sys req (ucast (rq_Flags req)) 0x1A4"

definition fs_create :: "('f, 'w) os \<Rightarrow> request \<Rightarrow> ('f, 'w) fsstep" where
  "fs_create sys req =
     openWithMode sys req (ucast (rq_Flags req) OR os_O_CREATE sys) (Perm (rq_Mode req))"

definition fs_pwrite :: "('f, 'w) os \<Rightarrow> request \<Rightarrow> ('f, 'w) fsstep" where
  "fs_pwrite sys req = (\<lambda>(s, w).
     (case fs_open s (rq_Handle req) of
        None \<Rightarrow> (response0 (neg_errno EBADF), s, w)
      | Some f \<Rightarrow>
          (case os_WriteAt sys f (rq_Data req) (rq_Off req) w of
             ((n, Some e), w) \<Rightarrow> (err_response e, s, w)
           | ((n, None), w) \<Rightarrow> ((response0 0)\<lparr>rs_Size := word_of_nat n\<rparr>, s, w))))"

definition fs_unlink :: "('f, 'w) os \<Rightarrow> request \<Rightarrow> ('f, 'w) fsstep" where
  "fs_unlink sys req = (\<lambda>(s, w).
     (case (if rq_Flags req AND UnlinkRmdir \<noteq> 0 then os_Rmdir sys (rq_Path req) w
            else os_Unlink sys (rq_Path req) w) of
        (e, w) \<Rightarrow> (done_response e, s, w)))"

definition fs_mkdir :: "('f, 'w) os \<Rightarrow> request \<Rightarrow> ('f, 'w) fsstep" where
  "fs_mkdir sys req = (\<lambda>(s, w).
     (case os_Mkdir sys (rq_Path req) (Perm (rq_Mode req)) w of
        (e, w) \<Rightarrow> (done_response e, s, w)))"

definition fs_rename :: "('f, 'w) os \<Rightarrow> request \<Rightarrow> ('f, 'w) fsstep" where
  "fs_rename sys req = (\<lambda>(s, w).
     (case os_Rename sys (rq_Path req) (rq_Path2 req) w of
        (e, w) \<Rightarrow> (done_response e, s, w)))"

definition setattr_mode :: "('f, 'w) os \<Rightarrow> request \<Rightarrow> 'w \<Rightarrow> goerr option \<times> 'w" where
  "setattr_mode sys req w =
     (if rq_Mask req AND SetMode \<noteq> 0 then os_Chmod sys (rq_Path req) (Perm (rq_Mode req)) w
      else (None, w))"

definition setattr_size :: "('f, 'w) os \<Rightarrow> request \<Rightarrow> 'w \<Rightarrow> goerr option \<times> 'w" where
  "setattr_size sys req w =
     (if rq_Mask req AND SetSize \<noteq> 0 then os_Truncate sys (rq_Path req) (rq_Size req) w
      else (None, w))"

definition setattr_times :: "('f, 'w) os \<Rightarrow> request \<Rightarrow> 'w \<Rightarrow> goerr option \<times> 'w" where
  "setattr_times sys req w =
     (if rq_Mask req AND (SetAtime OR SetMtime) \<noteq> 0 then
        (let at = (if rq_Mask req AND SetAtime \<noteq> 0 then Some (rq_Atime req) else None);
             mt = (if rq_Mask req AND SetMtime \<noteq> 0 then Some (rq_Mtime req) else None)
         in os_Chtimes sys (rq_Path req) at mt w)
      else (None, w))"

definition fs_setattr :: "('f, 'w) os \<Rightarrow> request \<Rightarrow> ('f, 'w) fsstep" where
  "fs_setattr sys req = (\<lambda>(s, w).
     (case setattr_mode sys req w of
        (Some e, w) \<Rightarrow> (err_response e, s, w)
      | (None, w) \<Rightarrow>
          (case setattr_size sys req w of
             (Some e, w) \<Rightarrow> (err_response e, s, w)
           | (None, w) \<Rightarrow>
               (case setattr_times sys req w of
                  (Some e, w) \<Rightarrow> (err_response e, s, w)
                | (None, w) \<Rightarrow> (response0 0, s, w)))))"

definition fs_pread :: "('f, 'w) os \<Rightarrow> request \<Rightarrow> ('f, 'w) fsstep" where
  "fs_pread sys req = (\<lambda>(s, w).
     (case fs_open s (rq_Handle req) of
        None \<Rightarrow> (response0 (neg_errno EBADF), s, w)
      | Some f \<Rightarrow>
          (case os_ReadAt sys f (unat (rq_Len req)) (rq_Off req) w of
             ((data, err), w) \<Rightarrow>
               (case err of
                  Some e \<Rightarrow>
                    if \<not> is_EOF e then (err_response e, s, w)
                    else ((response0 0)\<lparr>rs_Data := data\<rparr>, s, w)
                | None \<Rightarrow> ((response0 0)\<lparr>rs_Data := data\<rparr>, s, w)))))"

definition fs_writeFile :: "('f, 'w) os \<Rightarrow> request \<Rightarrow> ('f, 'w) fsstep" where
  "fs_writeFile sys req = (\<lambda>(s, w).
     (case os_WriteFile sys (rq_Path req) (rq_Data req) 0x1A4 w of
        (e, w) \<Rightarrow> (done_response e, s, w)))"

definition fs_close :: "('f, 'w) os \<Rightarrow> request \<Rightarrow> ('f, 'w) fsstep" where
  "fs_close sys req = (\<lambda>(s, w).
     (let f = fs_open s (rq_Handle req);
          s = s\<lparr>fs_open := (fs_open s)(rq_Handle req := None)\<rparr>
      in case f of
           None \<Rightarrow> (response0 (neg_errno EBADF), s, w)
         | Some f \<Rightarrow> (case os_Close sys f w of (e, w) \<Rightarrow> (done_response e, s, w))))"

definition fs_readdir :: "('f, 'w) os \<Rightarrow> request \<Rightarrow> ('f, 'w) fsstep" where
  "fs_readdir sys req = (\<lambda>(s, w).
     (case os_ReadDir sys (rq_Path req) w of
        (Inl e, w) \<Rightarrow> (err_response e, s, w)
      | (Inr ents, w) \<Rightarrow>
          ((response0 0)\<lparr>rs_Names := map de_Name ents, rs_Types := map direntType ents\<rparr>, s, w)))"

definition fs_Handle :: "('f, 'w) os \<Rightarrow> request \<Rightarrow> ('f, 'w) fsstep" where
  "fs_Handle sys req =
     (let opc = rq_Op req in
      if opc = OpStat then fs_stat sys req
      else if opc = OpOpen then fs_openFile sys req
      else if opc = OpPread then fs_pread sys req
      else if opc = OpWriteFile then fs_writeFile sys req
      else if opc = OpClose then fs_close sys req
      else if opc = OpReaddir then fs_readdir sys req
      else if opc = OpPwrite then fs_pwrite sys req
      else if opc = OpCreate then fs_create sys req
      else if opc = OpUnlink then fs_unlink sys req
      else if opc = OpMkdir then fs_mkdir sys req
      else if opc = OpRename then fs_rename sys req
      else if opc = OpSetattr then fs_setattr sys req
      else if opc = OpServerInfo then
        (\<lambda>(s, w). ((response0 0)\<lparr>rs_OS := os_GOOS sys, rs_Arch := os_GOARCH sys\<rparr>, s, w))
      else (\<lambda>(s, w). (response0 (neg_errno EINVAL), s, w)))"

text \<open>
  The loop of \<open>CloseAll\<close> over the map: the runtime picks the order, so it is an argument, a list of
  the handles in the order in which they are visited.
\<close>

fun CloseAll :: "('f, 'w) os \<Rightarrow> u64 list \<Rightarrow> 'f fsservice \<times> 'w \<Rightarrow> 'f fsservice \<times> 'w" where
  "CloseAll sys [] (s, w) = (s, w)"
| "CloseAll sys (h # hs) (s, w) =
     (case fs_open s h of
        None \<Rightarrow> CloseAll sys hs (s, w)
      | Some f \<Rightarrow>
          (case os_Close sys f w of
             (_, w) \<Rightarrow> CloseAll sys hs (s\<lparr>fs_open := (fs_open s)(h := None)\<rparr>, w)))"

subsection \<open>Errors and modes\<close>

lemma toErrno_None [simp]: "toErrno None = 0"
  by (simp add: toErrno_def)

lemma toErrno_errno: "\<exists>n. toErrno (Some e) = neg_errno n"
  by (auto simp: toErrno_def split: option.splits)

lemma toErrno_neq_0 [simp]: "toErrno (Some e) \<noteq> 0"
  using toErrno_errno [of e] by auto

lemma rs_Err_response0 [simp]: "rs_Err (response0 e) = e"
  by (simp add: response0_def)

lemma rs_Err_err_response [simp]: "rs_Err (err_response e) \<noteq> 0"
  by (simp add: err_response_def)

lemma rs_Err_done_response: "rs_Err (done_response e) = toErrno e"
  by (cases e) (simp_all add: done_response_def err_response_def)

lemma fileMode_IsDir: "fileMode fi AND 0xF000 = 0x4000 \<longleftrightarrow> mode_IsDir (fi_Mode fi)"
proof -
  have "Perm m AND 0xF000 = 0" for m :: filemode
    by (simp add: Perm_def and.assoc)
  then show ?thesis
    by (simp add: fileMode_def Let_def bit.conj_disj_distrib2)
qed

lemma fileMode_Perm: "Perm (fileMode fi) = Perm (fi_Mode fi)"
  by (simp add: fileMode_def Let_def Perm_def bit.conj_disj_distrib2 and.assoc)

subsection \<open>The handle table\<close>

lemmas fs_defs =
  fs_stat_def openWithMode_def fs_openFile_def fs_create_def fs_pwrite_def fs_unlink_def
  fs_mkdir_def fs_rename_def fs_setattr_def fs_pread_def fs_writeFile_def fs_close_def
  fs_readdir_def

abbreviation fs_live :: "'f fsservice \<times> 'w \<Rightarrow> u64 set" where
  "fs_live \<equiv> (\<lambda>(s, w). dom (fs_open s))"

abbreviation fs_next_handle :: "'f fsservice \<times> 'w \<Rightarrow> u64" where
  "fs_next_handle \<equiv> (\<lambda>(s, w). fs_next s)"

text \<open>A request that neither opens nor closes leaves the service as it is.\<close>

lemma fs_Handle_other:
  assumes "fs_Handle sys q (s, w) = (r, s', w')" and "\<not> is_open q" and "rq_Op q \<noteq> OpClose"
  shows "s' = s"
  using assms unfolding fs_Handle_def Let_def
  by (simp split: if_splits add: is_open_def)
    (auto simp: fs_defs split: prod.splits sum.splits option.splits if_splits)

lemma openWithMode_cases:
  assumes "openWithMode sys q fl pm (s, w) = (r, s', w')"
  shows "(rs_Err r \<noteq> 0 \<and> s' = s) \<or>
    (rs_Err r = 0 \<and> rs_Handle r = fs_next s \<and>
      (\<exists>f w1 fi. os_OpenFile sys (rq_Path q) fl pm w = (Inr f, w1) \<and> os_FStat sys f w1 = (Inr fi, w') \<and>
        s' = s\<lparr>fs_next := fs_next s + 1, fs_open := (fs_open s)(fs_next s := Some f)\<rparr>))"
  using assms
  by (auto simp: openWithMode_def Let_def response0_def split: prod.splits sum.splits)

lemma fs_Handle_open:
  assumes "is_open q"
  obtains fl pm where "fs_Handle sys q = openWithMode sys q fl pm"
  using assms by (auto simp: fs_Handle_def is_open_def fs_openFile_def fs_create_def)

lemma fs_Handle_close:
  "rq_Op q = OpClose \<Longrightarrow> fs_Handle sys q = fs_close sys q"
  by (simp add: fs_Handle_def)

lemma fs_close_result:
  "fs_close sys q (s, w) =
     (case fs_open s (rq_Handle q) of
        None \<Rightarrow> (bad_handle, s, w)
      | Some f \<Rightarrow> (case os_Close sys f w of
          (e, w) \<Rightarrow> (done_response e, s\<lparr>fs_open := (fs_open s)(rq_Handle q := None)\<rparr>, w)))"
  by (cases s) (auto simp: fs_close_def bad_handle_def Let_def split: option.splits)

interpretation fs: handle_server "fs_Handle sys" fs_live fs_next_handle for sys :: "('f, 'w) os"
proof unfold_locales
  fix q s r s' assume q: "is_open q" "fs_Handle sys q s = (r, s')" "rs_Err r = 0"
  obtain fl pm where "fs_Handle sys q = openWithMode sys q fl pm"
    using q(1) by (rule fs_Handle_open)
  with q show "rs_Handle r = fs_next_handle s \<and> fs_next_handle s' = fs_next_handle s + 1"
    using openWithMode_cases [of sys q fl pm "fst s" "snd s" r "fst s'" "snd s'"]
    by (auto simp: case_prod_beta)
next
  fix q s r s' assume q: "fs_Handle sys q s = (r, s')" "\<not> (is_open q \<and> rs_Err r = 0)"
  show "fs_next_handle s' = fs_next_handle s"
  proof (cases "is_open q")
    case True
    then obtain fl pm where "fs_Handle sys q = openWithMode sys q fl pm"
      by (rule fs_Handle_open)
    with q True show ?thesis
      using openWithMode_cases [of sys q fl pm "fst s" "snd s" r "fst s'" "snd s'"]
      by (auto simp: case_prod_beta)
  next
    case False
    with q show ?thesis
      using fs_Handle_other [of sys q "fst s" "snd s" r "fst s'" "snd s'"]
      by (cases "rq_Op q = OpClose"; cases s)
        (auto simp: fs_Handle_close fs_close_result split: option.splits prod.splits)
  qed
next
  fix q s r s' assume q: "fs_Handle sys q s = (r, s')"
  show "fs_live s' = track q r (fs_live s)"
  proof (cases "is_open q")
    case True
    then obtain fl pm where "fs_Handle sys q = openWithMode sys q fl pm"
      by (rule fs_Handle_open)
    with q True show ?thesis
      using openWithMode_cases [of sys q fl pm "fst s" "snd s" r "fst s'" "snd s'"]
      by (auto simp: case_prod_beta track_def is_open_def)
  next
    case False
    with q show ?thesis
      using fs_Handle_other [of sys q "fst s" "snd s" r "fst s'" "snd s'"]
      by (cases "rq_Op q = OpClose"; cases s)
        (auto simp: fs_Handle_close fs_close_result track_def split: option.splits prod.splits if_splits)
  qed
next
  fix q and s :: "'f fsservice \<times> 'w" assume q: "by_handle q" "rq_Handle q \<notin> fs_live s"
  then show "fs_Handle sys q s = (bad_handle, s)"
    by (cases s) (auto simp: by_handle_def fs_Handle_def fs_pread_def fs_pwrite_def fs_close_result
        bad_handle_def split: option.splits)
qed

subsection \<open>Open files\<close>

text \<open>
  The service owns its files: what is open is what was open before (\<open>base\<close>) and the files of the
  table, each under one handle.
\<close>

definition fs_owns :: "('w \<Rightarrow> 'f set) \<Rightarrow> 'f set \<Rightarrow> 'f fsservice \<times> 'w \<Rightarrow> bool" where
  "fs_owns opened base = (\<lambda>(s, w).
     opened w = base \<union> ran (fs_open s) \<and> base \<inter> ran (fs_open s) = {} \<and>
     inj_on (fs_open s) (dom (fs_open s)))"

lemma os_tracks_open:
  assumes "os_tracks sys opened"
  shows "os_OpenFile sys p fl pm w = (Inl e, w') \<Longrightarrow> opened w' = opened w"
    and "os_OpenFile sys p fl pm w = (Inr f, w') \<Longrightarrow> f \<notin> opened w \<and> opened w' = insert f (opened w)"
proof -
  have o: "case os_OpenFile sys p fl pm w of (Inl _, w') \<Rightarrow> opened w' = opened w
      | (Inr f, w') \<Rightarrow> f \<notin> opened w \<and> opened w' = insert f (opened w)"
    by (rule assms [unfolded os_tracks_def, THEN conjunct1, THEN spec [of _ p], THEN spec [of _ fl],
          THEN spec [of _ pm], THEN spec [of _ w]])
  show "os_OpenFile sys p fl pm w = (Inl e, w') \<Longrightarrow> opened w' = opened w"
    using o by simp
  show "os_OpenFile sys p fl pm w = (Inr f, w') \<Longrightarrow> f \<notin> opened w \<and> opened w' = insert f (opened w)"
    using o by simp
qed

lemma os_tracks_world:
  assumes "os_tracks sys opened"
  shows "os_Close sys f w = (c, w') \<Longrightarrow> opened w' = opened w - {f}"
    and "os_Stat sys p w = (fi, w') \<Longrightarrow> opened w' = opened w"
    and "os_FStat sys f w = (fi, w') \<Longrightarrow> opened w' = opened w"
    and "os_ReadAt sys f n off w = (x, w') \<Longrightarrow> opened w' = opened w"
    and "os_WriteAt sys f b off w = (y, w') \<Longrightarrow> opened w' = opened w"
    and "os_WriteFile sys p b m w = (c, w') \<Longrightarrow> opened w' = opened w"
    and "os_ReadDir sys p w = (z, w') \<Longrightarrow> opened w' = opened w"
    and "os_Unlink sys p w = (c, w') \<Longrightarrow> opened w' = opened w"
    and "os_Rmdir sys p w = (c, w') \<Longrightarrow> opened w' = opened w"
    and "os_Mkdir sys p m w = (c, w') \<Longrightarrow> opened w' = opened w"
    and "os_Rename sys p q w = (c, w') \<Longrightarrow> opened w' = opened w"
    and "os_Chmod sys p m w = (c, w') \<Longrightarrow> opened w' = opened w"
    and "os_Truncate sys p i w = (c, w') \<Longrightarrow> opened w' = opened w"
    and "os_Chtimes sys p a mt w = (c, w') \<Longrightarrow> opened w' = opened w"
  using assms unfolding os_tracks_def by (metis snd_conv)+

lemma fs_Handle_opened:
  assumes "os_tracks sys opened" and "fs_Handle sys q (s, w) = (r, s', w')"
    and "\<not> is_open q" and "rq_Op q \<noteq> OpClose"
  shows "opened w' = opened w"
proof -
  note D = os_tracks_open [OF assms(1)] os_tracks_world [OF assms(1)]
  show ?thesis
    using assms(2-) unfolding fs_Handle_def Let_def
    by (simp split: if_splits add: is_open_def)
      (auto simp: fs_defs setattr_mode_def setattr_size_def setattr_times_def Let_def D
        split: prod.splits sum.splits option.splits if_splits)
qed

lemma fs_owns_delete:
  assumes "fs_owns opened base (s, w)" and "fs_open s h = Some f" and "opened w' = opened w - {f}"
  shows "fs_owns opened base (s\<lparr>fs_open := (fs_open s)(h := None)\<rparr>, w')"
proof -
  have inj: "inj_on (fs_open s) (dom (fs_open s))" and "f \<notin> base"
    using assms(1,2) by (auto simp: fs_owns_def ran_def)
  then show ?thesis
    using assms ran_map_del [OF inj assms(2)] inj_map_del [OF inj, of h] by (auto simp: fs_owns_def)
qed

lemma fs_owns_insert:
  assumes "fs_owns opened base (s, w)" and "fs_open s h = None" and "f \<notin> opened w"
    and "opened w' = insert f (opened w)" and "fs_open s' = (fs_open s)(h := Some f)"
  shows "fs_owns opened base (s', w')"
proof -
  have "fs_open s b \<noteq> Some f" for b
    using assms(1,3) by (auto simp: fs_owns_def ran_def)
  then have "inj_on (fs_open s') (dom (fs_open s'))"
    unfolding assms(5) using assms(1) by (intro inj_map_upd) (auto simp: fs_owns_def)
  then show ?thesis
    using assms by (auto simp: fs_owns_def ran_map_upd)
qed

lemma fs_Handle_owns:
  assumes sys: "os_tracks sys opened" and "fs_owns opened base (s, w)"
    and "fs_Handle sys q (s, w) = (r, s', w')" and "fs_next s \<notin> dom (fs_open s)"
  shows "fs_owns opened base (s', w')"
proof (cases "is_open q")
  case True
  then obtain fl pm where "fs_Handle sys q = openWithMode sys q fl pm"
    by (rule fs_Handle_open)
  then have o: "openWithMode sys q fl pm (s, w) = (r, s', w')"
    using assms(3) by simp
  note D = os_tracks_open [OF sys] os_tracks_world [OF sys]
  consider (failed) "s' = s" "opened w' = opened w"
    | (opened) f where "f \<notin> opened w" "opened w' = insert f (opened w)"
        "fs_open s' = (fs_open s)(fs_next s := Some f)"
  proof (cases "os_OpenFile sys (rq_Path q) fl pm w")
    case (Pair res w1)
    then show thesis
    proof (cases res)
      case (Inl e)
      with o Pair D(1) that(1) show thesis by (simp add: openWithMode_def)
    next
      case (Inr f)
      note f = D(2) [OF Pair [unfolded Inr]]
      obtain st w2 where st: "os_FStat sys f w1 = (st, w2)" by fastforce
      obtain c w3 where c: "os_Close sys f w2 = (c, w3)" by fastforce
      show thesis
      proof (cases st)
        case (Inl e)
        with o Pair \<open>res = Inr f\<close> st c have "s' = s" "w' = w3"
          by (simp_all add: openWithMode_def)
        with D(5) [OF st] D(3) [OF c] f that(1) show thesis by simp
      next
        case (Inr fi)
        with o Pair \<open>res = Inr f\<close> st have "fs_open s' = (fs_open s)(fs_next s := Some f)" "w' = w2"
          by (auto simp: openWithMode_def Let_def)
        with D(5) [OF st] f that(2) [of f] show thesis by simp
      qed
    qed
  qed
  then show ?thesis
  proof cases
    case failed
    with assms(2) show ?thesis by (simp add: fs_owns_def)
  next
    case opened
    from assms(4) have "fs_open s (fs_next s) = None" by blast
    then show ?thesis by (rule fs_owns_insert [OF assms(2) _ opened])
  qed
next
  case False
  show ?thesis
  proof (cases "rq_Op q = OpClose")
    case True
    with assms(2,3) os_tracks_world(1) [OF sys] show ?thesis
      by (auto simp: fs_Handle_close fs_close_result fs_owns_delete split: option.splits prod.splits)
  next
    case other: False
    have "s' = s" "opened w' = opened w"
      using fs_Handle_other [OF assms(3) False other] fs_Handle_opened [OF sys assms(3) False other]
      by blast+
    with assms(2) show ?thesis by (simp add: fs_owns_def)
  qed
qed

lemma CloseAll_owns:
  assumes "os_tracks sys opened" and "fs_owns opened base (s, w)" and "dom (fs_open s) \<subseteq> set hs"
    and "CloseAll sys hs (s, w) = (s', w')"
  shows "fs_open s' = (\<lambda>_. None) \<and> opened w' = base"
  using assms(2-)
proof (induction hs arbitrary: s w)
  case Nil
  then have "fs_open s = (\<lambda>_. None)"
    by (metis dom_eq_empty_conv list.set(1) subset_empty)
  with Nil show ?case by (simp add: fs_owns_def)
next
  case (Cons h hs)
  show ?case
  proof (cases "fs_open s h")
    case None
    with Cons.prems have "dom (fs_open s) \<subseteq> set hs" by auto
    with Cons None show ?thesis by simp
  next
    case (Some f)
    obtain c w1 where c: "os_Close sys f w = (c, w1)" by fastforce
    let ?s = "s\<lparr>fs_open := (fs_open s)(h := None)\<rparr>"
    have "fs_owns opened base (?s, w1)"
      using fs_owns_delete [OF Cons.prems(1) Some] os_tracks_world(1) [OF assms(1) c] by blast
    moreover have "dom (fs_open ?s) \<subseteq> set hs"
      using Cons.prems(2) by auto
    moreover have "CloseAll sys hs (?s, w1) = (s', w')"
      using Cons.prems(3) Some c by simp
    ultimately show ?thesis
      by (rule Cons.IH)
  qed
qed

lemma fs_run_owns:
  assumes "os_tracks sys opened" and "run (fs_Handle sys) qs (s0, w0) = (rs, s, w)"
    and "fs_owns opened base (s0, w0)" and "\<forall>h \<in> dom (fs_open s0). h < fs_next s0"
    and "unat (fs_next s0) + length qs < 2 ^ 64"
  shows "fs_owns opened base (s, w)"
  using assms(2-)
proof (induction qs arbitrary: rs s0 w0)
  case (Cons q qs)
  obtain r s1 w1 where q: "fs_Handle sys q (s0, w0) = (r, s1, w1)" by (metis prod_cases3)
  obtain rs1 where rs: "run (fs_Handle sys) qs (s1, w1) = (rs1, s, w)"
    using Cons.prems(1) q by (auto simp: Let_def split: prod.splits)
  have one: "run (fs_Handle sys) [q] (s0, w0) = ([r], s1, w1)"
    using q by simp
  have "\<forall>h \<in> dom (fs_open s1). h < fs_next s1"
    using fs.live_below [OF one] Cons.prems(3,4) by simp
  moreover have "fs_owns opened base (s1, w1)"
    using Cons.prems(3) by (intro fs_Handle_owns [OF assms(1) Cons.prems(2) q]) auto
  moreover have "unat (fs_next s1) + length qs < 2 ^ 64"
    using fs.opens [OF _ q] fs.keeps_next [OF q] Cons.prems(4) word_plus_one [OF Cons.prems(4)]
    by (cases "is_open q \<and> rs_Err r = 0") auto
  ultimately show ?case
    using Cons.IH [OF rs] by blast
qed simp

definition errno_result :: "i32 \<Rightarrow> bool" where
  "errno_result e \<longleftrightarrow> e = 0 \<or> (\<exists>n. e = neg_errno n)"

lemma errno_result_toErrno [simp]: "errno_result (toErrno e)"
proof (cases e)
  case (Some x)
  then show ?thesis using toErrno_errno [of x] by (simp add: errno_result_def)
qed (simp add: errno_result_def)

lemma errno_result_simps [simp]: "errno_result 0" "errno_result (neg_errno n)"
  by (auto simp: errno_result_def)

lemma errno_result_handlers:
  "errno_result (rs_Err (fst (fs_stat sys req (s, w))))"
  "errno_result (rs_Err (fst (openWithMode sys req fl pm (s, w))))"
  "errno_result (rs_Err (fst (fs_pread sys req (s, w))))"
  "errno_result (rs_Err (fst (fs_writeFile sys req (s, w))))"
  "errno_result (rs_Err (fst (fs_close sys req (s, w))))"
  "errno_result (rs_Err (fst (fs_readdir sys req (s, w))))"
  "errno_result (rs_Err (fst (fs_pwrite sys req (s, w))))"
  "errno_result (rs_Err (fst (fs_unlink sys req (s, w))))"
  "errno_result (rs_Err (fst (fs_mkdir sys req (s, w))))"
  "errno_result (rs_Err (fst (fs_rename sys req (s, w))))"
  "errno_result (rs_Err (fst (fs_setattr sys req (s, w))))"
  by (simp_all add: fs_defs rs_Err_done_response err_response_def Let_def
      split: prod.splits sum.splits option.splits)

lemma fs_Handle_errno_result: "errno_result (rs_Err (fst (fs_Handle sys req (s, w))))"
  unfolding fs_Handle_def Let_def
  by (simp add: errno_result_handlers fs_openFile_def fs_create_def)

text \<open>The three changes of a \<open>SETATTR\<close>, one at a time.\<close>

lemma setattr_parts:
  fixes req m
  defines "part \<equiv> \<lambda>m. req\<lparr>rq_Mask := rq_Mask req AND m\<rparr>"
  shows "setattr_mode sys (part SetMode) = setattr_mode sys req"
    and "setattr_size sys (part SetSize) = setattr_size sys req"
    and "setattr_times sys (part (SetAtime OR SetMtime)) = setattr_times sys req"
    and "setattr_mode sys (part SetSize) w = (None, w)"
    and "setattr_mode sys (part (SetAtime OR SetMtime)) w = (None, w)"
    and "setattr_size sys (part SetMode) w = (None, w)"
    and "setattr_size sys (part (SetAtime OR SetMtime)) w = (None, w)"
    and "setattr_times sys (part SetMode) w = (None, w)"
    and "setattr_times sys (part SetSize) w = (None, w)"
  by (simp_all add: part_def setattr_mode_def setattr_size_def setattr_times_def fun_eq_iff and.assoc)

subsection \<open>Properties\<close>

lemma run_Cons: "run serve (q # qs) s = (let (r, s1) = serve q s; (rs, s2) = run serve qs s1 in (r # rs, s2))"
  by simp

lemma fs_new_simps [simp]: "fs_next NewFSService = 1" "fs_open NewFSService = (\<lambda>_. None)"
  by (simp_all add: NewFSService_def)

text \<open>
  On every host and for every sequence of requests served from a new service, the opens that
  succeed return the handles 1, 2, 3, ... modulo \<open>2 ^ 64\<close>, and the open handles at the end are
  exactly those returned by an open and not closed after it.
\<close>

theorem fs_handles_tracked:
  "let (rs, (s, w)) = run (fs_Handle sys) qs (NewFSService, w0) in
     opened_handles qs rs = map (\<lambda>i. 1 + word_of_nat i) [0..<length (opened_handles qs rs)] \<and>
     dom (fs_open s) = track_all qs rs {}"
proof -
  obtain rs s w where run: "run (fs_Handle sys) qs (NewFSService, w0) = (rs, s, w)"
    by (metis prod_cases3)
  show ?thesis
    using fs.opened_consecutive [OF run] fs.live_track_all [OF run] by (simp add: run)
qed

text \<open>
  A handle that was closed is dead: after a \<open>CLOSE\<close> of a handle given out before, and any
  further requests, a \<open>PREAD\<close>, \<open>PWRITE\<close> or \<open>CLOSE\<close> of it gets \<open>EBADF\<close> and changes nothing, as long
  as the 64-bit counter has not wrapped.
\<close>

theorem fs_use_after_close:
  assumes "rq_Op q = OpClose" and "rq_Handle q < fs_next s"
    and "unat (fs_next s) + length qs < 2 ^ 64"
    and "by_handle q'" and "rq_Handle q' = rq_Handle q"
  shows "let sw = snd (run (fs_Handle sys) (q # qs) (s, w)) in fs_Handle sys q' sw = (bad_handle, sw)"
  using fs.use_after_close [of q "(s, w)" qs q' sys] assms by simp

definition sample_world :: mem where
  "sample_world = \<lparr>m_nodes = [(''/w'', DirNode 0x1ED 7), (''/w/f'', FileNode [1, 2, 3, 4, 5] 0x1A4 9)],
     m_fds = []\<rparr>"

definition sample_reopen :: "request list" where
  "sample_reopen = [(request0 OpOpen)\<lparr>rq_Path := ''/w/f''\<rparr>]"

theorem fs_use_after_close_witness:
  "let s = \<lparr>fs_next = 2, fs_open = [1 \<mapsto> 0]\<rparr>;
       sw = snd (run (fs_Handle memos) ((request0 OpClose)\<lparr>rq_Handle := 1\<rparr> # sample_reopen) (s, sample_world))
   in fs_Handle memos ((request0 OpPread)\<lparr>rq_Handle := 1, rq_Len := 9\<rparr>) sw = (bad_handle, sw)"
  unfolding Let_def [of "\<lparr>fs_next = 2, fs_open = [1 \<mapsto> 0]\<rparr>"]
  by (rule fs_use_after_close)
    (simp_all add: request0_def by_handle_def sample_reopen_def)

text \<open>
  C6: The service leaks no file and closes none twice: on a host whose \<open>open\<close> and \<open>close\<close> behave
  as documented, after any requests (failing ones included: an open whose \<open>fstat\<close> fails closes
  its file) and then \<open>CloseAll\<close> in any order of the table, exactly the files open before are open.
\<close>

theorem fs_no_leak:
  assumes "os_tracks sys opened" and "run (fs_Handle sys) qs (NewFSService, w0) = (rs, s, w)"
    and "length qs < 2 ^ 64 - 1" and "dom (fs_open s) \<subseteq> set order"
    and "CloseAll sys order (s, w) = (s', w')"
  shows "opened w' = opened w0 \<and> fs_open s' = (\<lambda>_. None)"
proof -
  have "fs_owns opened (opened w0) (NewFSService, w0)"
    by (simp add: fs_owns_def)
  then have "fs_owns opened (opened w0) (s, w)"
    using assms(3) by (intro fs_run_owns [OF assms(1,2)]) simp_all
  from CloseAll_owns [OF assms(1) this assms(4,5)] show ?thesis by blast
qed

lemma Clean_wf: "Clean ''/w/f'' = ''/w/f''"
  by (simp add: Clean_def clean_loop.simps)

lemma sample_reopen_run:
  "run (fs_Handle memos) sample_reopen (NewFSService, sample_world) =
     ([(response0 0)\<lparr>rs_Mode := 0x81A4, rs_Size := 5, rs_Handle := 1, rs_Mtime := 9\<rparr>],
      \<lparr>fs_next = 2, fs_open = [1 \<mapsto> 1]\<rparr>, sample_world\<lparr>m_fds := [(1, ''/w/f'')]\<rparr>)"
  by (simp add: sample_reopen_def sample_world_def NewFSService_def fs_Handle_def request0_def
      fs_openFile_def openWithMode_def memos_def mem_open_def mem_node_def Clean_wf fresh_fd_def
      mem_fstat_def mem_stat_def fileMode_def Perm_def mode_IsDir_def)

theorem fs_no_leak_witness:
  "mem_opened (snd (CloseAll memos [1] (snd (run (fs_Handle memos) sample_reopen (NewFSService, sample_world))))) = {}"
proof -
  obtain s' w' where c: "CloseAll memos [1] (\<lparr>fs_next = 2, fs_open = [1 \<mapsto> 1]\<rparr>,
      sample_world\<lparr>m_fds := [(1, ''/w/f'')]\<rparr>) = (s', w')"
    by fastforce
  have "mem_opened w' = mem_opened sample_world \<and> fs_open s' = (\<lambda>_. None)"
    by (rule fs_no_leak [OF memos_tracks sample_reopen_run _ _ c]) (simp_all add: sample_reopen_def)
  moreover have "mem_opened sample_world = {}"
    by (simp add: sample_world_def mem_opened_def)
  ultimately show ?thesis
    by (simp only: sample_reopen_run snd_conv c)
qed

text \<open>
  What a client sees of a failed system call is its error number, negative, however Go's
  library wraps it: every error of a response is 0 or \<open>-n\<close> for an error number \<open>n\<close>, and an error
  whose chain ends in a \<open>syscall.Errno\<close> gives the number of that one.
\<close>

theorem fs_errno:
  "(rs_Err (fst (fs_Handle sys req sw)) = 0 \<or>
      (\<exists>n. sint (rs_Err (fst (fs_Handle sys req sw))) = - int (unat (errno_num n)))) \<and>
   sint (toErrno (Some ((PathError ^^ i) ((LinkError ^^ j) ((SyscallError ^^ k) (Errno n)))))) =
     - int (unat (errno_num n))"
proof -
  have "errno_result (rs_Err (fst (fs_Handle sys req sw)))"
    by (metis fs_Handle_errno_result prod.exhaust)
  moreover have "as_errno ((PathError ^^ i) e) = as_errno e" "as_errno ((LinkError ^^ i) e) = as_errno e"
    "as_errno ((SyscallError ^^ i) e) = as_errno e" for i e
    by (induction i) simp_all
  ultimately show ?thesis
    by (auto simp: errno_result_def toErrno_def sint_neg_errno)
qed

text \<open>
  A successful \<open>STAT\<close> tells a directory from anything else (\<open>Response.IsDir\<close>) and gives the
  permission bits unchanged, and \<open>READDIR\<close> gives the directory type to directories and only to
  them, in the order of the listing.
\<close>

theorem fs_directory_bit:
  "(case os_Stat sys (rq_Path req) w of
      (Inl e, _) \<Rightarrow> rs_Err (fst (fs_stat sys req (s, w))) \<noteq> 0
    | (Inr fi, _) \<Rightarrow>
        (let r = fst (fs_stat sys req (s, w)) in
         rs_Err r = 0 \<and> IsDir r = mode_IsDir (fi_Mode fi) \<and> Perm (rs_Mode r) = Perm (fi_Mode fi))) \<and>
   (case os_ReadDir sys (rq_Path req) w of
      (Inl e, _) \<Rightarrow> rs_Err (fst (fs_readdir sys req (s, w))) \<noteq> 0
    | (Inr es, _) \<Rightarrow>
        (let r = fst (fs_readdir sys req (s, w)) in
         rs_Names r = map de_Name es \<and>
         map (\<lambda>t. t = DTDir) (rs_Types r) = map (\<lambda>e. mode_IsDir (de_Type e)) es))"
  by (auto simp: fs_stat_def fs_readdir_def IsDir_def fileMode_IsDir fileMode_Perm direntType_def
      response0_def split: prod.splits sum.splits)

text \<open>
  A \<open>SETATTR\<close> with several bits is the three single changes in the order mode, size, times,
  stopping at the first that fails: serving the three requests one after the other gives the
  same response and the same world.
\<close>

theorem fs_setattr_split:
  "fs_setattr sys req sw =
     (let part = (\<lambda>m. fs_setattr sys (req\<lparr>rq_Mask := rq_Mask req AND m\<rparr>));
          (r1, sw1) = part SetMode sw
      in if rs_Err r1 \<noteq> 0 then (r1, sw1)
         else let (r2, sw2) = part SetSize sw1 in
           if rs_Err r2 \<noteq> 0 then (r2, sw2) else part (SetAtime OR SetMtime) sw2)"
proof -
  obtain s w where sw: "sw = (s, w)" by fastforce
  obtain e1 w1 where m: "setattr_mode sys req w = (e1, w1)" by fastforce
  obtain e2 w2 where z: "setattr_size sys req w1 = (e2, w2)" by fastforce
  obtain e3 w3 where t: "setattr_times sys req w2 = (e3, w3)" by fastforce
  show ?thesis
    unfolding sw fs_setattr_def Let_def setattr_parts
    by (cases e1; cases e2; cases e3) (simp_all add: m z t setattr_parts)
qed

end
