(* ===== verification/Conn.thy ===== *)
theory Conn
  imports Protocol
begin

section \<open>Buffered connections (Conn of internal/protocol/protocol.go)\<close>

text \<open>
  \<open>Conn\<close> puts a \<open>bufio.Writer\<close> of 4096 bytes before the stream and flushes after each message.
  The writer keeps the first error of the stream and gives it back to every later call. Reading
  goes through a \<open>bufio.Reader\<close>, which only reads ahead: \<open>ReadRequest\<close> and \<open>ReadResponse\<close> of the
  connection are those of the stream.
\<close>

record bufw =
  bw_buf :: bytes
  bw_err :: "io_error option"

definition bufio_size :: nat where
  "bufio_size = 4096"

definition NewConn :: bufw where
  "NewConn = \<lparr>bw_buf = [], bw_err = None\<rparr>"

text \<open>After an error of the stream what is left in the buffer is never written.\<close>

definition bufio_Flush :: "'s writer \<Rightarrow> bufw \<times> 's \<Rightarrow> io_error option \<times> bufw \<times> 's" where
  "bufio_Flush wr = (\<lambda>(b, s).
     (case bw_err b of
        Some e \<Rightarrow> (Some e, b, s)
      | None \<Rightarrow>
          if bw_buf b = [] then (None, b, s)
          else (case wr (bw_buf b) s of
                  (None, s) \<Rightarrow> (None, b\<lparr>bw_buf := []\<rparr>, s)
                | (Some e, s) \<Rightarrow> (Some e, b\<lparr>bw_err := Some e\<rparr>, s))))"

text \<open>
  \<open>Write\<close>: data that does not fit fills the buffer, which is flushed; what is left then goes
  straight to the stream when it is larger than the buffer.
\<close>

definition bufio_Write :: "'s writer \<Rightarrow> (bufw \<times> 's) writer" where
  "bufio_Write wr p = (\<lambda>(b, s).
     (case bw_err b of
        Some e \<Rightarrow> (Some e, b, s)
      | None \<Rightarrow>
          let avail = bufio_size - length (bw_buf b) in
          if length p \<le> avail then (None, b\<lparr>bw_buf := bw_buf b @ p\<rparr>, s)
          else
            (case (if bw_buf b = [] then (None, b, s)
                   else bufio_Flush wr (b\<lparr>bw_buf := bw_buf b @ take avail p\<rparr>, s)) of
               (Some e, b1, s1) \<Rightarrow> (Some e, b1, s1)
             | (None, b1, s1) \<Rightarrow>
                 let rest = (if bw_buf b = [] then p else drop avail p) in
                 if length rest > bufio_size then
                   (case wr rest s1 of
                      (None, s2) \<Rightarrow> (None, b1, s2)
                    | (Some e, s2) \<Rightarrow> (Some e, b1\<lparr>bw_err := Some e\<rparr>, s2))
                 else (None, b1\<lparr>bw_buf := rest\<rparr>, s1))))"

definition SendRequest :: "'s writer \<Rightarrow> request \<Rightarrow> bufw \<times> 's \<Rightarrow> proto_error option \<times> bufw \<times> 's" where
  "SendRequest wr req c =
     (case WriteRequest (bufio_Write wr) req c of
        (Some e, c) \<Rightarrow> (Some e, c)
      | (None, c) \<Rightarrow>
          (case bufio_Flush wr c of
             (Some e, c) \<Rightarrow> (Some (StreamError e), c)
           | (None, c) \<Rightarrow> (None, c)))"

definition SendResponse ::
    "'s writer \<Rightarrow> op \<Rightarrow> response \<Rightarrow> bufw \<times> 's \<Rightarrow> proto_error option \<times> bufw \<times> 's" where
  "SendResponse wr opc resp c =
     (case WriteResponse (bufio_Write wr) opc resp c of
        (Some e, c) \<Rightarrow> (Some e, c)
      | (None, c) \<Rightarrow>
          (case bufio_Flush wr c of
             (Some e, c) \<Rightarrow> (Some (StreamError e), c)
           | (None, c) \<Rightarrow> (None, c)))"

definition ConnReadRequest :: "'s reader \<Rightarrow> 's \<Rightarrow> (proto_error + request) \<times> 's" where
  "ConnReadRequest rd = ReadRequest rd"

definition ConnReadResponse :: "'s reader \<Rightarrow> op \<Rightarrow> 's \<Rightarrow> (proto_error + response) \<times> 's" where
  "ConnReadResponse rd opc = ReadResponse rd opc"

subsection \<open>The buffered writer is a writer\<close>

text \<open>What a buffered stream will have received: what it has, and the buffer while no error is set.\<close>

definition bufio_view :: "('s \<Rightarrow> bytes) \<Rightarrow> bufw \<times> 's \<Rightarrow> bytes" where
  "bufio_view written = (\<lambda>(b, s). written s @ (if bw_err b = None then bw_buf b else []))"

context byte_sink
begin

lemma bufio_Flush_ok:
  "bufio_Flush wr (b, s) = (None, b', s') \<Longrightarrow>
   bw_err b = None \<and> bw_err b' = None \<and> bw_buf b' = [] \<and> written s' = written s @ bw_buf b"
  by (auto simp: bufio_Flush_def wr_ok split: option.splits if_splits prod.splits)

lemma bufio_Flush_err:
  assumes "bufio_Flush wr (b, s) = (Some e, b', s')"
  shows "bw_err b' = Some e \<and>
    (if bw_err b = None then bw_buf b \<noteq> [] \<and> strict_prefix (written s') (written s @ bw_buf b)
     else s' = s \<and> b' = b)"
  using assms wr_err [of "bw_buf b" s]
  by (auto simp: bufio_Flush_def strict_prefix_def split: option.splits if_splits prod.splits)

lemma bufio_Write_ok:
  assumes "bufio_Write wr p (b, s) = (None, b', s')"
  shows "bw_err b = None \<and> bw_err b' = None \<and>
    written s' @ bw_buf b' = written s @ bw_buf b @ p"
proof -
  let ?avail = "bufio_size - length (bw_buf b)"
  have err: "bw_err b = None"
    using assms by (auto simp: bufio_Write_def split: option.splits)
  show ?thesis
  proof (cases "length p \<le> ?avail")
    case True
    with assms err show ?thesis by (auto simp: bufio_Write_def)
  next
    case big: False
    show ?thesis
    proof (cases "bw_buf b = []")
      case True
      with assms err big show ?thesis
        by (auto simp: bufio_Write_def Let_def wr_ok split: if_splits prod.splits option.splits)
    next
      case False
      let ?b = "b\<lparr>bw_buf := bw_buf b @ take ?avail p\<rparr>"
      obtain b1 s1 where f: "bufio_Flush wr (?b, s) = (None, b1, s1)"
        using assms err big False
        by (auto simp: bufio_Write_def Let_def split: if_splits prod.splits option.splits)
      note ok = bufio_Flush_ok [OF f]
      have "written s' @ bw_buf b' = written s1 @ drop ?avail p \<and> bw_err b' = None"
        using assms err big False f ok
        by (auto simp: bufio_Write_def Let_def wr_ok split: if_splits prod.splits option.splits)
      with ok err show ?thesis by simp
    qed
  qed
qed

lemma bufio_Write_err:
  assumes "bufio_Write wr p (b, s) = (Some e, b', s')"
  shows "bw_err b' = Some e \<and>
    (if bw_err b = None then p \<noteq> [] \<and> strict_prefix (written s') (written s @ bw_buf b @ p)
     else s' = s \<and> b' = b)"
proof (cases "bw_err b")
  case (Some e1)
  with assms show ?thesis by (auto simp: bufio_Write_def)
next
  case None
  let ?avail = "bufio_size - length (bw_buf b)"
  have big: "\<not> length p \<le> ?avail"
    using assms None by (auto simp: bufio_Write_def)
  show ?thesis
  proof (cases "bw_buf b = []")
    case True
    then have "\<exists>s2. wr p s = (Some e, s') \<and> b' = b\<lparr>bw_err := Some e\<rparr>"
      using assms None big
      by (auto simp: bufio_Write_def Let_def split: if_splits prod.splits option.splits)
    with True None big wr_err [of p s e s'] show ?thesis
      by (auto simp: strict_prefix_def)
  next
    case False
    let ?b = "b\<lparr>bw_buf := bw_buf b @ take ?avail p\<rparr>"
    obtain r b1 s1 where f: "bufio_Flush wr (?b, s) = (r, b1, s1)"
      by (metis prod_cases3)
    show ?thesis
    proof (cases r)
      case (Some e1)
      with assms None big False f have "e1 = e" "b1 = b'" "s1 = s'"
        by (auto simp: bufio_Write_def Let_def)
      with bufio_Flush_err [OF f [unfolded Some]] None
      have "bw_err b' = Some e" "strict_prefix (written s') (written s @ bw_buf b @ take ?avail p)"
        by auto
      moreover have "prefix (written s @ bw_buf b @ take ?avail p) (written s @ bw_buf b @ p)"
        by (simp add: take_is_prefix)
      ultimately have "strict_prefix (written s') (written s @ bw_buf b @ p)"
        by (metis prefix_order.less_le_trans)
      with \<open>bw_err b' = Some e\<close> None big show ?thesis by auto
    next
      case ok: None
      note flushed = bufio_Flush_ok [OF f [unfolded ok]]
      obtain s2 where w: "wr (drop ?avail p) s1 = (Some e, s')" "b' = b1\<lparr>bw_err := Some e\<rparr>"
        using assms None big False f ok
        by (auto simp: bufio_Write_def Let_def split: if_splits prod.splits option.splits)
      have "written s @ bw_buf b @ p = written s1 @ drop ?avail p"
        using flushed by simp
      moreover have "strict_prefix (written s') (written s1 @ drop ?avail p)"
        using wr_err [OF w(1)] big by (simp add: strict_prefix_def)
      ultimately show ?thesis
        using None big w(2) by auto
    qed
  qed
qed

text \<open>A buffered writer over a writer keeps the contract of a writer.\<close>

lemma bufio_sink: "byte_sink (bufio_Write wr) (bufio_view written)"
proof
  fix p c c' assume "bufio_Write wr p c = (None, c')"
  then show "bufio_view written c' = bufio_view written c @ p"
    using bufio_Write_ok [of p "fst c" "snd c" "fst c'" "snd c'"]
    by (auto simp: bufio_view_def split: prod.splits)
next
  fix p c e c' assume "bufio_Write wr p c = (Some e, c')"
  then show "prefix (bufio_view written c') (bufio_view written c @ p) \<and>
      (p \<noteq> [] \<longrightarrow> bufio_view written c' \<noteq> bufio_view written c @ p)"
    using bufio_Write_err [of p "fst c" "snd c" e "fst c'" "snd c'"]
    by (auto simp: bufio_view_def strict_prefix_def split: prod.splits if_splits)
qed

text \<open>The error flag of the buffered writer: set by an error and by nothing else.\<close>

lemma writeFrame_bufio_ok:
  assumes "writeFrame (bufio_Write wr) body (b, s) = (None, b', s')"
  shows "bw_err b = None \<and> bw_err b' = None \<and> length body \<le> MaxFrame \<and>
    written s' @ bw_buf b' = written s @ bw_buf b @ frame body"
proof -
  obtain c where "bufio_Write wr (be32 (word_of_nat (length body))) (b, s) = (None, c)"
      "bufio_Write wr body c = (None, b', s')" and len: "length body \<le> MaxFrame"
    using assms by (auto simp: writeFrame_def split: if_splits prod.splits option.splits)
  then show ?thesis
    using bufio_Write_ok [of "be32 (word_of_nat (length body))" b s "fst c" "snd c"]
      bufio_Write_ok [of body "fst c" "snd c" b' s'] by (auto simp: frame_def)
qed

lemma writeFrame_bufio_err:
  assumes "writeFrame (bufio_Write wr) body (b, s) = (Some e, b', s')"
    and "bw_err b = None" and "length body \<le> MaxFrame" and "body \<noteq> []"
  shows "(\<exists>x. e = StreamError x \<and> bw_err b' = Some x) \<and>
    strict_prefix (written s') (written s @ bw_buf b @ frame body)"
proof -
  let ?h = "be32 (word_of_nat (length body))"
  obtain r b1 s1 where h: "bufio_Write wr ?h (b, s) = (r, b1, s1)" by (metis prod_cases3)
  show ?thesis
  proof (cases r)
    case (Some x)
    with assms h have "e = StreamError x" "b' = b1" "s' = s1"
      by (auto simp: writeFrame_def)
    with bufio_Write_err [OF h [unfolded Some]] assms(2)
    have "\<exists>x. e = StreamError x \<and> bw_err b' = Some x" "strict_prefix (written s') (written s @ bw_buf b @ ?h)"
      by auto
    moreover have "prefix (written s @ bw_buf b @ ?h) (written s @ bw_buf b @ frame body)"
      by (simp add: frame_def)
    ultimately show ?thesis by (auto intro: prefix_order.less_le_trans)
  next
    case None
    with assms h obtain x where w: "e = StreamError x" "bufio_Write wr body (b1, s1) = (Some x, b', s')"
      by (auto simp: writeFrame_def split: prod.splits option.splits)
    note ok = bufio_Write_ok [OF h [unfolded None]]
    have whole: "(written s1 @ bw_buf b1) @ body = written s @ bw_buf b @ frame body"
      using ok by (simp add: frame_def)
    have "bw_err b1 = None" using ok by simp
    with bufio_Write_err [OF w(2)]
    have "bw_err b' = Some x" "strict_prefix (written s') ((written s1 @ bw_buf b1) @ body)"
      by simp_all
    then show ?thesis using w(1) unfolding whole by blast
  qed
qed

text \<open>A message is delivered whole, or cut before its end with the error set for good.\<close>

lemma SendRequest_ok:
  assumes "SendRequest wr req (b, s) = (None, b', s')"
  shows "\<exists>body. encodeRequest req = Inr body \<and> length body \<le> MaxFrame \<and> bw_err b = None \<and>
    bw_err b' = None \<and> bw_buf b' = [] \<and> written s' = written s @ bw_buf b @ frame body"
proof -
  obtain b1 s1 where w: "WriteRequest (bufio_Write wr) req (b, s) = (None, b1, s1)"
      and f: "bufio_Flush wr (b1, s1) = (None, b', s')"
    using assms by (auto simp: SendRequest_def split: prod.splits option.splits)
  then obtain body where body: "encodeRequest req = Inr body"
      "writeFrame (bufio_Write wr) body (b, s) = (None, b1, s1)"
    by (auto simp: WriteRequest_def split: sum.splits)
  with writeFrame_bufio_ok [OF body(2)] bufio_Flush_ok [OF f] show ?thesis by auto
qed

lemma SendRequest_err:
  assumes "SendRequest wr req (b, s) = (Some e, b', s')" and "bw_err b = None"
    and "encodeRequest req = Inr body" and "length body \<le> MaxFrame"
  shows "(\<exists>x. e = StreamError x \<and> bw_err b' = Some x) \<and>
    strict_prefix (written s') (written s @ bw_buf b @ frame body)"
proof -
  obtain r b1 s1 where w: "writeFrame (bufio_Write wr) body (b, s) = (r, b1, s1)" by (metis prod_cases3)
  show ?thesis
  proof (cases r)
    case None
    with assms w obtain x where f: "bufio_Flush wr (b1, s1) = (Some x, b', s')" "e = StreamError x"
      by (auto simp: SendRequest_def WriteRequest_def split: prod.splits option.splits)
    note ok = writeFrame_bufio_ok [OF w [unfolded None]]
    with bufio_Flush_err [OF f(1)] have "bw_err b' = Some x" "strict_prefix (written s') (written s1 @ bw_buf b1)"
      by auto
    with ok f(2) show ?thesis by simp
  next
    case (Some x)
    with assms w have "writeFrame (bufio_Write wr) body (b, s) = (Some e, b', s')"
      by (simp add: SendRequest_def WriteRequest_def)
    then show ?thesis
      using encodeRequest_neq_Nil [OF assms(3)] assms by (intro writeFrame_bufio_err)
  qed
qed

lemma SendResponse_ok:
  assumes "SendResponse wr opc resp (b, s) = (None, b', s')"
  shows "length (encodeResponse opc resp) \<le> MaxFrame \<and> bw_err b = None \<and>
    bw_err b' = None \<and> bw_buf b' = [] \<and>
    written s' = written s @ bw_buf b @ frame (encodeResponse opc resp)"
proof -
  obtain b1 s1 where w: "writeFrame (bufio_Write wr) (encodeResponse opc resp) (b, s) = (None, b1, s1)"
      and f: "bufio_Flush wr (b1, s1) = (None, b', s')"
    using assms by (auto simp: SendResponse_def WriteResponse_def split: prod.splits option.splits)
  with writeFrame_bufio_ok [OF w] bufio_Flush_ok [OF f] show ?thesis by auto
qed

end

lemma bufio_Write_sticky: "bw_err b = Some x \<Longrightarrow> bufio_Write wr p (b, s) = (Some x, b, s)"
  by (simp add: bufio_Write_def)

lemma SendRequest_sticky:
  "bw_err b = Some x \<Longrightarrow> \<exists>e. SendRequest wr req (b, s) = (Some e, b, s)"
  by (auto simp: SendRequest_def WriteRequest_def writeFrame_def bufio_Write_sticky split: sum.splits)

interpretation bufio_peer: byte_sink "bufio_Write sink_write" "bufio_view sk_out"
  by (rule peer_sink.bufio_sink)

subsection \<open>Sending to a transport that takes everything\<close>

lemma appending_SendRequest:
  assumes wr: "\<And>bs s. wr bs s = (None, app bs s)"
    and app: "\<And>xs ys s. app ys (app xs s) = app (xs @ ys) s"
    and body: "encodeRequest req = Inr body" "length body \<le> MaxFrame"
  shows "SendRequest wr req (NewConn, s) = (None, NewConn, app (frame body) s)"
proof -
  let ?h = "be32 (word_of_nat (length body))"
  let ?b = "\<lparr>bw_buf = ?h, bw_err = None\<rparr>"
  have head: "bufio_Write wr ?h (NewConn, s) = (None, ?b, s)"
    by (simp add: bufio_Write_def NewConn_def bufio_size_def)
  have ne: "body \<noteq> []" using encodeRequest_neq_Nil [OF body(1)] .
  have "\<exists>b' s'. bufio_Write wr body (?b, s) = (None, b', s') \<and> bufio_Flush wr (b', s') = (None, NewConn, app (frame body) s)"
  proof (cases "length body \<le> 4092")
    case True
    then show ?thesis
      by (simp add: bufio_Write_def bufio_Flush_def bufio_size_def wr frame_def NewConn_def)
  next
    case False
    have split: "app (drop 4092 body) (app (?h @ take 4092 body) s) = app (frame body) s"
      by (simp add: app frame_def)
    show ?thesis
      using False split ne
      by (auto simp: bufio_Write_def bufio_Flush_def bufio_size_def wr NewConn_def Let_def)
  qed
  then show ?thesis
    using head body by (auto simp: SendRequest_def WriteRequest_def writeFrame_def)
qed

subsection \<open>Properties\<close>

text \<open>
  C25: \<open>SendRequest\<close> through the buffer delivers the request's frame whole when it reports success.
  When it reports a stream error, the peer has received a proper part of the frame, which no
  decoder takes for a request, and the connection is dead: every later \<open>SendRequest\<close> on it fails
  and sends nothing.
\<close>

theorem SendRequest_all_or_dead:
  assumes "encodeRequest req = Inr body" and "length body \<le> MaxFrame"
    and "SendRequest sink_write req (NewConn, \<lparr>sk_out = out, sk_room = room\<rparr>) = (r, b, s)"
  shows "case r of
      None \<Rightarrow> sk_out s = out @ frame body \<and> b = NewConn
    | Some e \<Rightarrow> strict_prefix (sk_out s) (out @ frame body) \<and>
        (\<forall>req'. \<exists>e'. SendRequest sink_write req' (b, s) = (Some e', b, s))"
proof (cases r)
  case None
  with peer_sink.SendRequest_ok assms show ?thesis
    by (fastforce simp: NewConn_def intro: bufw.equality)
next
  case (Some e)
  with peer_sink.SendRequest_err [of req NewConn] assms
  have "\<exists>x. bw_err b = Some x" "strict_prefix (sk_out s) (out @ frame body)"
    by (fastforce simp: NewConn_def)+
  with SendRequest_sticky Some show ?thesis by fastforce
qed

theorem SendRequest_all_or_dead_witness:
  "\<exists>e b s. SendRequest sink_write (request0 OpClose) (NewConn, \<lparr>sk_out = [], sk_room = Some 6\<rparr>) = (Some e, b, s) \<and>
     length (sk_out s) = 6 \<and>
     (\<exists>e'. SendRequest sink_write (request0 OpServerInfo) (b, s) = (Some e', b, s))"
proof -
  have body: "encodeRequest (request0 OpClose) = Inr (OpClose # be64 0)"
    by (simp add: encodeRequest_def request0_def put_simps)
  obtain e b s where send: "SendRequest sink_write (request0 OpClose) (NewConn, \<lparr>sk_out = [], sk_room = Some 6\<rparr>) =
      (Some e, b, s)" and "length (sk_out s) = 6"
    by (simp add: SendRequest_def WriteRequest_def body writeFrame_def MaxFrame_def NewConn_def
        bufio_Write_def bufio_Flush_def bufio_size_def sink_write_def)
  with SendRequest_all_or_dead [OF body _ send] show ?thesis
    by (auto simp: MaxFrame_def)
qed

end
