(* ===== verification/ExecProto.thy ===== *)
theory ExecProto
  imports Streams
begin

section \<open>The subprocess wire format (internal/execproto/execproto.go)\<close>

text \<open>
  The stream between the spawn proxy and the executor: one spawn request (a length and a JSON
  body), then tagged frames. \<open>encoding/json\<close> on the \<open>SpawnRequest\<close> is a parameter, the pair of
  functions \<open>marshal\<close> and \<open>unmarshal\<close>; what the theorems need of it is \<open>json_codec\<close>.
\<close>

abbreviation TagStdout :: byte where "TagStdout \<equiv> 0x4F"
abbreviation TagStderr :: byte where "TagStderr \<equiv> 0x45"
abbreviation TagExit :: byte where "TagExit \<equiv> 0x58"
abbreviation TagSignal :: byte where "TagSignal \<equiv> 0x53"
abbreviation TagStdin :: byte where "TagStdin \<equiv> 0x49"

definition MaxChunk :: nat where
  "MaxChunk = 1048576"

record spawn_request =
  sr_Path :: string
  sr_Argv :: "string list"
  sr_Cwd :: string
  sr_Env :: "string list"

datatype exec_error =
    ExecStream io_error
  | JSONError
  | HeaderTooLarge nat
  | ChunkTooLarge nat

definition stream_result :: "io_error option \<times> 's \<Rightarrow> exec_error option \<times> 's" where
  "stream_result r = (map_option ExecStream (fst r), snd r)"

definition WriteSpawnRequest ::
    "(spawn_request \<Rightarrow> bytes option) \<Rightarrow> 's writer \<Rightarrow> spawn_request \<Rightarrow> 's \<Rightarrow> exec_error option \<times> 's" where
  "WriteSpawnRequest marshal wr req s =
     (case marshal req of
        None \<Rightarrow> (Some JSONError, s)
      | Some body \<Rightarrow>
          (case wr (be32 (word_of_nat (length body))) s of
             (Some e, s) \<Rightarrow> (Some (ExecStream e), s)
           | (None, s) \<Rightarrow> stream_result (wr body s)))"

definition ReadSpawnRequest ::
    "(bytes \<Rightarrow> spawn_request option) \<Rightarrow> 's reader \<Rightarrow> 's \<Rightarrow> (exec_error + spawn_request) \<times> 's" where
  "ReadSpawnRequest unmarshal rd s =
     (case rd 4 s of
        (Inl e, s) \<Rightarrow> (Inl (ExecStream e), s)
      | (Inr hdr, s) \<Rightarrow>
          (let n = unat (un_be32 hdr) in
           if n > MaxChunk * 16 then (Inl (HeaderTooLarge n), s)
           else case rd n s of
             (Inl e, s) \<Rightarrow> (Inl (ExecStream e), s)
           | (Inr body, s) \<Rightarrow>
               (case unmarshal body of
                  None \<Rightarrow> (Inl JSONError, s)
                | Some req \<Rightarrow> (Inr req, s))))"

definition WriteChunk :: "'s writer \<Rightarrow> byte \<Rightarrow> bytes \<Rightarrow> 's \<Rightarrow> exec_error option \<times> 's" where
  "WriteChunk wr tag data s =
     (let data = (if length data > MaxChunk then take MaxChunk data else data) in
      case wr (tag # be32 (word_of_nat (length data))) s of
        (Some e, s) \<Rightarrow> (Some (ExecStream e), s)
      | (None, s) \<Rightarrow> stream_result (wr data s))"

definition WriteExit :: "'s writer \<Rightarrow> i32 \<Rightarrow> 's \<Rightarrow> exec_error option \<times> 's" where
  "WriteExit wr code s = stream_result (wr (TagExit # be32 4 @ be32 code) s)"

definition WriteSignal :: "'s writer \<Rightarrow> i32 \<Rightarrow> 's \<Rightarrow> exec_error option \<times> 's" where
  "WriteSignal wr signum s = stream_result (wr (TagSignal # be32 4 @ be32 signum) s)"

record Frame =
  fr_Tag :: byte
  fr_Data :: bytes

definition ReadFrame :: "'s reader \<Rightarrow> 's \<Rightarrow> (exec_error + Frame) \<times> 's" where
  "ReadFrame rd s =
     (case rd 5 s of
        (Inl e, s) \<Rightarrow> (Inl (ExecStream e), s)
      | (Inr hdr, s) \<Rightarrow>
          (let n = unat (un_be32 (drop 1 hdr)) in
           if n > MaxChunk then (Inl (ChunkTooLarge n), s)
           else case rd n s of
             (Inl e, s) \<Rightarrow> (Inl (ExecStream e), s)
           | (Inr data, s) \<Rightarrow> (Inr \<lparr>fr_Tag = hdr ! 0, fr_Data = data\<rparr>, s)))"

definition ExitCode :: "Frame \<Rightarrow> i32" where
  "ExitCode f =
     (if fr_Tag f \<noteq> TagExit \<or> length (fr_Data f) < 4 then - 1 else un_be32 (fr_Data f))"

definition Signum :: "Frame \<Rightarrow> i32" where
  "Signum f =
     (if fr_Tag f \<noteq> TagSignal \<or> length (fr_Data f) < 4 then 0 else un_be32 (fr_Data f))"

subsection \<open>The bytes of a frame\<close>

definition xframe :: "byte \<Rightarrow> bytes \<Rightarrow> bytes" where
  "xframe tag data = tag # be32 (word_of_nat (length data)) @ data"

lemma length_xframe [simp]: "length (xframe tag data) = 5 + length data"
  by (simp add: xframe_def)

lemma unat_length_32: "n < 2 ^ 32 \<Longrightarrow> unat (word_of_nat n :: u32) = n"
  by (simp add: unat_of_nat)

text \<open>\<open>WriteExit\<close> and \<open>WriteSignal\<close> write frames of the same form.\<close>

lemma exit_xframe: "TagExit # be32 4 @ be32 code = xframe TagExit (be32 code)"
  by (simp add: xframe_def)

lemma signal_xframe: "TagSignal # be32 4 @ be32 n = xframe TagSignal (be32 n)"
  by (simp add: xframe_def)

context byte_source
begin

lemma ReadFrame_xframe:
  assumes "pending s = xframe tag data @ rest" and "length data \<le> MaxChunk"
  shows "\<exists>s'. ReadFrame rd s = (Inr \<lparr>fr_Tag = tag, fr_Data = data\<rparr>, s') \<and> pending s' = rest"
proof -
  let ?h = "tag # be32 (word_of_nat (length data))"
  obtain s1 where s1: "rd 5 s = (Inr ?h, s1)" "pending s1 = data @ rest"
    using rd_exact [of s ?h "data @ rest" 5] assms(1) by (auto simp: xframe_def)
  obtain s2 where "rd (length data) s1 = (Inr data, s2)" "pending s2 = rest"
    using rd_exact [OF s1(2) refl] by blast
  with s1 assms(2) show ?thesis
    by (simp add: ReadFrame_def Let_def unat_length_32 MaxChunk_def)
qed

lemma ReadFrame_truncated:
  assumes "pending s = take k (xframe tag data)" and "k < length (xframe tag data)"
    and "length data \<le> MaxChunk"
  shows "\<exists>e s'. ReadFrame rd s = (Inl e, s')"
proof (cases "k < 5")
  case True
  then obtain e s' where "rd 5 s = (Inl e, s')"
    using rd_shortE [of s 5] assms(1) by auto
  then show ?thesis by (simp add: ReadFrame_def)
next
  case False
  let ?h = "tag # be32 (word_of_nat (length data))"
  have "xframe tag data = ?h @ data" and len: "length ?h = 5"
    by (simp_all add: xframe_def)
  then have "pending s = ?h @ take (k - 5) data"
    using assms(1) False by (simp only: take_append) simp
  then obtain s1 where s1: "rd 5 s = (Inr ?h, s1)" "pending s1 = take (k - 5) data"
    using rd_exact [of s ?h "take (k - 5) data" 5] by auto
  have "length (pending s1) < length data"
    using s1(2) assms(2) False by simp
  then obtain e s2 where "rd (length data) s1 = (Inl e, s2)"
    using rd_shortE by blast
  with s1 assms(3) show ?thesis
    by (simp add: ReadFrame_def Let_def unat_length_32 MaxChunk_def)
qed

text \<open>No frame is larger than \<open>MaxChunk\<close>: a corrupt length is refused before any allocation.\<close>

lemma ReadFrame_bounded: "ReadFrame rd s = (Inr f, s') \<Longrightarrow> length (fr_Data f) \<le> MaxChunk"
proof -
  assume "ReadFrame rd s = (Inr f, s')"
  then obtain hdr s1 where h: "unat (un_be32 (drop 1 hdr)) \<le> MaxChunk"
      "rd (unat (un_be32 (drop 1 hdr))) s1 = (Inr (fr_Data f), s')"
    by (auto simp: ReadFrame_def Let_def not_less split: prod.splits sum.splits if_splits)
  show "length (fr_Data f) \<le> MaxChunk"
  proof (cases "unat (un_be32 (drop 1 hdr)) \<le> length (pending s1)")
    case True
    with h show ?thesis using rd_full [OF True] by simp
  next
    case False
    with h show ?thesis using rd_short [of s1 "unat (un_be32 (drop 1 hdr))"] by simp
  qed
qed

end

context ending_source
begin

text \<open>At the end of the stream \<open>ReadFrame\<close> reports \<open>EOF\<close>.\<close>

lemma ReadFrame_EOF: "pending s = [] \<Longrightarrow> \<exists>s'. ReadFrame rd s = (Inl (ExecStream EOF), s')"
  using rd_eof [of s 5] by (cases "rd 5 s") (auto simp: ReadFrame_def)

end

context byte_sink
begin

lemma WriteChunk_ok:
  "WriteChunk wr tag data s = (None, s') \<Longrightarrow> written s' = written s @ xframe tag (take MaxChunk data)"
  by (auto simp: WriteChunk_def Let_def stream_result_def xframe_def wr_ok
      split: if_splits prod.splits option.splits dest!: prod_eqI)
    (metis append.assoc append_Cons prod.collapse wr_ok)+

end

subsection \<open>Whole conversations\<close>

text \<open>What the two sides send after the request, and the frame each message arrives as.\<close>

datatype msg = Chunk byte bytes | Exit i32 | Signal i32

fun write_msg :: "'s writer \<Rightarrow> msg \<Rightarrow> 's \<Rightarrow> exec_error option \<times> 's" where
  "write_msg wr (Chunk tag data) = WriteChunk wr tag data"
| "write_msg wr (Exit code) = WriteExit wr code"
| "write_msg wr (Signal n) = WriteSignal wr n"

fun write_msgs :: "'s writer \<Rightarrow> msg list \<Rightarrow> 's \<Rightarrow> exec_error option \<times> 's" where
  "write_msgs wr [] s = (None, s)"
| "write_msgs wr (m # ms) s =
     (case write_msg wr m s of
        (Some e, s) \<Rightarrow> (Some e, s)
      | (None, s) \<Rightarrow> write_msgs wr ms s)"

fun read_frames :: "'s reader \<Rightarrow> nat \<Rightarrow> 's \<Rightarrow> (exec_error + Frame list) \<times> 's" where
  "read_frames rd 0 s = (Inr [], s)"
| "read_frames rd (Suc n) s =
     (case ReadFrame rd s of
        (Inl e, s) \<Rightarrow> (Inl e, s)
      | (Inr f, s) \<Rightarrow>
          (case read_frames rd n s of
             (Inl e, s) \<Rightarrow> (Inl e, s)
           | (Inr fs, s) \<Rightarrow> (Inr (f # fs), s)))"

fun msg_frame :: "msg \<Rightarrow> Frame" where
  "msg_frame (Chunk tag data) = \<lparr>fr_Tag = tag, fr_Data = take MaxChunk data\<rparr>"
| "msg_frame (Exit code) = \<lparr>fr_Tag = TagExit, fr_Data = be32 code\<rparr>"
| "msg_frame (Signal n) = \<lparr>fr_Tag = TagSignal, fr_Data = be32 n\<rparr>"

definition frame_bytes :: "Frame \<Rightarrow> bytes" where
  "frame_bytes f = xframe (fr_Tag f) (fr_Data f)"

lemma msg_frame_bounded: "length (fr_Data (msg_frame m)) \<le> MaxChunk"
  by (cases m) (simp_all add: MaxChunk_def)

lemma msg_frame_codes [simp]:
  "ExitCode (msg_frame (Exit c)) = c" "Signum (msg_frame (Signal n)) = n"
  by (simp_all add: ExitCode_def Signum_def)

context byte_sink
begin

lemma write_msg_ok:
  assumes "write_msg wr m s = (None, s')"
  shows "written s' = written s @ frame_bytes (msg_frame m)"
proof (cases m)
  case (Chunk tag data)
  with assms WriteChunk_ok show ?thesis by (simp add: frame_bytes_def)
next
  case (Exit code)
  with assms wr_ok show ?thesis
    by (cases "wr (TagExit # be32 4 @ be32 code) s")
      (auto simp: WriteExit_def stream_result_def exit_xframe frame_bytes_def)
next
  case (Signal n)
  with assms wr_ok show ?thesis
    by (cases "wr (TagSignal # be32 4 @ be32 n) s")
      (auto simp: WriteSignal_def stream_result_def signal_xframe frame_bytes_def)
qed

lemma write_msgs_ok:
  "write_msgs wr ms s = (None, s') \<Longrightarrow>
   written s' = written s @ concat (map (\<lambda>m. frame_bytes (msg_frame m)) ms)"
proof (induction ms arbitrary: s)
  case (Cons m ms)
  then obtain s1 where "write_msg wr m s = (None, s1)" "write_msgs wr ms s1 = (None, s')"
    by (auto split: prod.splits option.splits)
  with Cons.IH write_msg_ok show ?case by simp
qed simp

end

context byte_source
begin

lemma read_frames_ok:
  "pending s = concat (map frame_bytes fs) @ rest \<Longrightarrow> \<forall>f \<in> set fs. length (fr_Data f) \<le> MaxChunk \<Longrightarrow>
   \<exists>s'. read_frames rd (length fs) s = (Inr fs, s') \<and> pending s' = rest"
proof (induction fs arbitrary: s)
  case (Cons f fs)
  have "pending s = xframe (fr_Tag f) (fr_Data f) @ concat (map frame_bytes fs) @ rest"
    using Cons.prems(1) by (simp add: frame_bytes_def [of f])
  then obtain s1 where s1: "ReadFrame rd s = (Inr f, s1)" "pending s1 = concat (map frame_bytes fs) @ rest"
    using ReadFrame_xframe Cons.prems(2) by fastforce
  with Cons.IH [OF s1(2)] Cons.prems(2) show ?case by auto
qed simp

end

lemma buf_write_msgs: "\<exists>s'. write_msgs buf_write ms s = (None, s')"
proof (induction ms arbitrary: s)
  case (Cons m ms)
  have "\<exists>s1. write_msg buf_write m s = (None, s1)"
    by (cases m) (auto simp: WriteChunk_def WriteExit_def WriteSignal_def stream_result_def buf_write_def)
  with Cons.IH show ?case by auto
qed simp

subsection \<open>Properties\<close>

text \<open>
  A conversation arrives as it was sent: after any sequence of chunks, signals and exit codes
  is written, reading as many frames gives one frame per message with the same tag and payload
  (a chunk cut at \<open>MaxChunk\<close>), exit codes and signal numbers included, and nothing of what follows
  is consumed.
\<close>

theorem conversation_roundtrip:
  "\<exists>wire. write_msgs buf_write ms s = (None, s @ wire) \<and>
     (\<forall>rest. read_frames buf_read (length ms) (wire @ rest) = (Inr (map msg_frame ms), rest))"
proof -
  let ?w = "concat (map frame_bytes (map msg_frame ms))"
  obtain s' where s': "write_msgs buf_write ms s = (None, s')"
    using buf_write_msgs by blast
  then have "s' = s @ ?w"
    using buf_sink.write_msgs_ok by (simp add: comp_def)
  moreover have "read_frames buf_read (length ms) (?w @ rest) = (Inr (map msg_frame ms), rest)" for rest
    using buf.read_frames_ok [of "?w @ rest" "map msg_frame ms" rest] msg_frame_bounded by auto
  ultimately show ?thesis using s' by blast
qed

text \<open>
  A frame whose bytes stop before its end is an error for the reader, whatever the cut, and an
  ended stream is \<open>EOF\<close>: no exit code is ever read out of half a frame.
\<close>

theorem cut_frame_is_error:
  assumes "k < length (frame_bytes (msg_frame m))"
  shows "\<exists>e s'. ReadFrame buf_read (take k (frame_bytes (msg_frame m))) = (Inl e, s')"
  using buf.ReadFrame_truncated [OF refl] assms msg_frame_bounded by (simp add: frame_bytes_def)

theorem cut_frame_is_error_witness:
  "\<exists>e s'. ReadFrame buf_read (take 8 (frame_bytes (msg_frame (Exit 7)))) = (Inl e, s')"
  by (rule cut_frame_is_error) (simp add: frame_bytes_def)

subsection \<open>The spawn request\<close>

text \<open>
  Go strings hold any bytes; JSON text holds UTF-8. \<open>encoding/json\<close> documents that a string that is
  valid UTF-8 comes back as it was (invalid bytes become U+FFFD).
\<close>

definition cont :: "byte \<Rightarrow> bool" where
  "cont b \<longleftrightarrow> 0x80 \<le> b \<and> b \<le> 0xBF"

fun valid_utf8 :: "bytes \<Rightarrow> bool" where
  "valid_utf8 [] = True"
| "valid_utf8 (a # r) =
     (if a < 0x80 then valid_utf8 r
      else case r of
        [] \<Rightarrow> False
      | b # r \<Rightarrow>
          if 0xC2 \<le> a \<and> a \<le> 0xDF then cont b \<and> valid_utf8 r
          else case r of
            [] \<Rightarrow> False
          | c # r \<Rightarrow>
              if 0xE0 \<le> a \<and> a \<le> 0xEF then
                cont b \<and> cont c \<and> (a = 0xE0 \<longrightarrow> 0xA0 \<le> b) \<and> (a = 0xED \<longrightarrow> b \<le> 0x9F) \<and> valid_utf8 r
              else case r of
                [] \<Rightarrow> False
              | d # r \<Rightarrow>
                  0xF0 \<le> a \<and> a \<le> 0xF4 \<and> cont b \<and> cont c \<and> cont d \<and>
                  (a = 0xF0 \<longrightarrow> 0x90 \<le> b) \<and> (a = 0xF4 \<longrightarrow> b \<le> 0x8F) \<and> valid_utf8 r)"

definition utf8_request :: "spawn_request \<Rightarrow> bool" where
  "utf8_request req \<longleftrightarrow>
     list_all (\<lambda>s. valid_utf8 (bytes_of_str s)) (sr_Path req # sr_Cwd req # sr_Argv req @ sr_Env req)"

definition json_codec :: "(spawn_request \<Rightarrow> bytes option) \<Rightarrow> (bytes \<Rightarrow> spawn_request option) \<Rightarrow> bool" where
  "json_codec marshal unmarshal \<longleftrightarrow>
     (\<forall>req. utf8_request req \<longrightarrow> (\<exists>body. marshal req = Some body \<and> unmarshal body = Some req))"

context byte_source
begin

lemma ReadSpawnRequest_header:
  assumes "pending s = be32 (word_of_nat n) @ body @ rest" and "length body = n" and "n < 2 ^ 32"
  shows "\<exists>s1. ReadSpawnRequest unmarshal rd s =
    (if n > MaxChunk * 16 then (Inl (HeaderTooLarge n), s1)
     else (case unmarshal body of None \<Rightarrow> Inl JSONError | Some req \<Rightarrow> Inr req, s1)) \<and>
    (n \<le> MaxChunk * 16 \<longrightarrow> pending s1 = rest)"
proof -
  obtain s1 where s1: "rd 4 s = (Inr (be32 (word_of_nat n)), s1)" "pending s1 = body @ rest"
    using rd_exact [of s "be32 (word_of_nat n)" "body @ rest" 4] assms(1) by auto
  obtain s2 where "rd n s1 = (Inr body, s2)" "pending s2 = rest"
    using rd_exact [OF s1(2) assms(2)] by blast
  with s1 assms(3) show ?thesis
    by (cases "n > MaxChunk * 16")
      (auto simp: ReadSpawnRequest_def Let_def unat_length_32 split: option.splits)
qed

end

text \<open>
  A spawn request with UTF-8 strings (binary, full argument vector, directory, environment)
  whose JSON text is at most 16 MiB arrives as it was sent, and the frames behind it are untouched.
\<close>

theorem spawn_request_roundtrip:
  assumes "json_codec marshal unmarshal" and "utf8_request req" and "marshal req = Some body"
    and "length body \<le> MaxChunk * 16"
  shows "\<exists>wire. WriteSpawnRequest marshal buf_write req s = (None, s @ wire) \<and>
    (\<forall>rest. ReadSpawnRequest unmarshal buf_read (wire @ rest) = (Inr req, rest))"
proof (intro exI conjI allI)
  let ?w = "be32 (word_of_nat (length body)) @ body"
  show "WriteSpawnRequest marshal buf_write req s = (None, s @ ?w)"
    using assms(3) by (simp add: WriteSpawnRequest_def buf_write_def stream_result_def)
  have "unmarshal body = Some req"
    using assms(1-3) unfolding json_codec_def by fastforce
  moreover have "length body < 2 ^ 32"
    using assms(4) by (simp add: MaxChunk_def)
  ultimately show "ReadSpawnRequest unmarshal buf_read (?w @ rest) = (Inr req, rest)" for rest
    using buf.ReadSpawnRequest_header [of "?w @ rest" "length body" body rest unmarshal] assms(4)
    by auto
qed

text \<open>One codec that satisfies the hypothesis: every byte marked, every string and list closed.\<close>

definition mark_str :: "string \<Rightarrow> bytes" where
  "mark_str s = concat (map (\<lambda>c. [1, byte_of_char c]) s) @ [0]"

definition mark_strs :: "string list \<Rightarrow> bytes" where
  "mark_strs ss = concat (map mark_str ss) @ [2]"

definition mark_request :: "spawn_request \<Rightarrow> bytes option" where
  "mark_request req =
     Some (mark_str (sr_Path req) @ mark_str (sr_Cwd req) @ mark_strs (sr_Argv req) @ mark_strs (sr_Env req))"

fun unmark_str :: "bytes \<Rightarrow> string \<times> bytes" where
  "unmark_str (t # r) =
     (if t = 1 then case r of [] \<Rightarrow> ([], []) | b # r \<Rightarrow> (let (s, r) = unmark_str r in (char_of_byte b # s, r))
      else ([], if t = 0 then r else t # r))"
| "unmark_str [] = ([], [])"

fun unmark_strs :: "nat \<Rightarrow> bytes \<Rightarrow> string list \<times> bytes" where
  "unmark_strs 0 r = ([], r)"
| "unmark_strs (Suc n) r =
     (case r of
        [] \<Rightarrow> ([], [])
      | t # r' \<Rightarrow>
          if t = 2 then ([], r')
          else (let (s, r) = unmark_str r; (ss, r) = unmark_strs n r in (s # ss, r)))"

definition unmark_request :: "bytes \<Rightarrow> spawn_request option" where
  "unmark_request b =
     (let (p, r) = unmark_str b; (c, r) = unmark_str r; (a, r) = unmark_strs (length r) r;
          (e, r) = unmark_strs (length r) r
      in Some \<lparr>sr_Path = p, sr_Argv = a, sr_Cwd = c, sr_Env = e\<rparr>)"

lemma unmark_mark_str [simp]: "unmark_str (mark_str s @ r) = (s, r)"
  by (induction s) (simp_all add: mark_str_def)

lemma mark_str_hd: "\<exists>t r. mark_str s = t # r \<and> t \<noteq> 2"
  by (cases s) (auto simp: mark_str_def)

lemma unmark_mark_strs: "length ss < n \<Longrightarrow> unmark_strs n (mark_strs ss @ r) = (ss, r)"
proof (induction ss arbitrary: n)
  case Nil
  then show ?case by (cases n) (auto simp: mark_strs_def)
next
  case (Cons s ss)
  then obtain k where k: "n = Suc k" "length ss < k" by (cases n) auto
  obtain t x where t: "mark_str s = t # x" "t \<noteq> 2" using mark_str_hd by blast
  have "mark_strs (s # ss) @ r = mark_str s @ (mark_strs ss @ r)"
    by (simp add: mark_strs_def)
  moreover have "unmark_str (t # x @ mark_strs ss @ r) = (s, mark_strs ss @ r)"
    using unmark_mark_str [of s "mark_strs ss @ r"] t by simp
  ultimately show ?case
    using Cons.IH [OF k(2)] t by (simp add: k(1) del: unmark_str.simps)
qed

lemma length_mark_strs: "length ss < length (mark_strs ss)"
proof (induction ss)
  case (Cons s ss)
  then show ?case by (simp add: mark_strs_def mark_str_def)
qed (simp add: mark_strs_def)

lemma mark_codec: "json_codec mark_request unmark_request"
proof -
  have "unmark_request (mark_str p @ mark_str c @ mark_strs a @ mark_strs e) =
      Some \<lparr>sr_Path = p, sr_Argv = a, sr_Cwd = c, sr_Env = e\<rparr>" for p c a e
    using unmark_mark_strs [of a "length (mark_strs a @ mark_strs e)" "mark_strs e"]
      unmark_mark_strs [of e "length (mark_strs e)" "[]"] length_mark_strs [of a] length_mark_strs [of e]
    by (simp add: unmark_request_def)
  then show ?thesis
    by (simp add: json_codec_def mark_request_def)
qed

definition sample_spawn :: spawn_request where
  "sample_spawn = \<lparr>sr_Path = ''/bin/sh'', sr_Argv = [''rg'', ''-n''], sr_Cwd = ''/w'', sr_Env = []\<rparr>"

theorem spawn_request_roundtrip_witness:
  "\<exists>wire. WriteSpawnRequest mark_request buf_write sample_spawn [] = (None, wire) \<and>
    ReadSpawnRequest unmark_request buf_read (wire @ [1, 2]) = (Inr sample_spawn, [1, 2])"
proof -
  obtain body where body: "mark_request sample_spawn = Some body" by (simp add: mark_request_def)
  have "utf8_request sample_spawn"
    by (simp add: utf8_request_def sample_spawn_def bytes_of_str_def byte_of_char_def)
  moreover have "length body \<le> MaxChunk * 16"
    using body by (auto simp: mark_request_def sample_spawn_def mark_str_def mark_strs_def MaxChunk_def)
  ultimately show ?thesis
    using spawn_request_roundtrip [OF mark_codec _ body, of "[]"] by auto
qed

text \<open>
  \<open>WriteSpawnRequest\<close> sends what \<open>ReadSpawnRequest\<close> refuses: a request whose JSON text is above
  16 MiB is written without an error, and the executor rejects its header.
\<close>

theorem oversize_spawn_refused:
  assumes "marshal req = Some body" and "MaxChunk * 16 < length body" and "length body < 2 ^ 32"
  shows "\<exists>wire. WriteSpawnRequest marshal buf_write req [] = (None, wire) \<and>
    (\<exists>s. ReadSpawnRequest unmarshal buf_read wire = (Inl (HeaderTooLarge (length body)), s))"
proof (rule exI [of _ "be32 (word_of_nat (length body)) @ body"], rule conjI)
  let ?w = "be32 (word_of_nat (length body)) @ body"
  show "WriteSpawnRequest marshal buf_write req [] = (None, ?w)"
    using assms(1) by (simp add: WriteSpawnRequest_def buf_write_def stream_result_def)
  show "\<exists>s. ReadSpawnRequest unmarshal buf_read ?w = (Inl (HeaderTooLarge (length body)), s)"
    using buf.ReadSpawnRequest_header [of ?w "length body" body "[]" unmarshal] assms(2,3) by auto
qed

theorem oversize_spawn_refused_witness:
  "\<exists>wire. WriteSpawnRequest (\<lambda>_. Some (replicate 16777217 0x20)) buf_write sample_spawn [] = (None, wire) \<and>
    (\<exists>s. ReadSpawnRequest unmark_request buf_read wire = (Inl (HeaderTooLarge 16777217), s))"
  using oversize_spawn_refused [of "\<lambda>_. Some (replicate 16777217 0x20)" sample_spawn
      "replicate 16777217 0x20" unmark_request]
  by (simp add: MaxChunk_def)

end
