(* ===== verification/ExecService.thy ===== *)
theory ExecService
  imports ExecProto GoPath
begin

unbundle bit_operations_syntax

section \<open>The subprocess service (internal/executor/exec.go)\<close>

text \<open>
  How the executor runs one subprocess: the choice of the binary, the child's environment, the
  command, and the frames it sends and receives. The lookups of the host are arguments, as in
  \<open>resolveBinPathWith\<close>. The two output pumps run concurrently and share the stream under a mutex:
  they are the step relation \<open>exec_step\<close>, one step per frame, in which the child and the processes it leaves behind
  hold the pipes for as long as they like. The control loop gives the child its input and signals, until a write to
  an input pipe that nobody empties waits.
\<close>

subsection \<open>The binary and the environment\<close>

text \<open>\<open>stat p\<close> is whether \<open>os.Stat\<close> succeeds; \<open>lookPath n\<close> is the result of \<open>exec.LookPath\<close>.\<close>

definition resolveBinPathWith ::
    "string \<Rightarrow> string list \<Rightarrow> string \<Rightarrow> (string \<Rightarrow> bool) \<Rightarrow> (string \<Rightarrow> string option) \<Rightarrow> string" where
  "resolveBinPathWith reqPath argv embeddedRg stat lookPath =
     (let binPath = (if reqPath = [] \<and> argv \<noteq> [] then argv ! 0 else reqPath) in
      if \<not> HasPrefix binPath ''/'' then binPath
      else if stat binPath then binPath
      else case (case lookPath (Base binPath) of
                   Some resolved \<Rightarrow> if resolved \<noteq> binPath then Some resolved else None
                 | None \<Rightarrow> None) of
        Some resolved \<Rightarrow> resolved
      | None \<Rightarrow>
          let arg0Base = (if argv \<noteq> [] then Base (argv ! 0) else []) in
          case (if arg0Base \<noteq> [] then lookPath arg0Base else None) of
            Some resolved \<Rightarrow> resolved
          | None \<Rightarrow> if arg0Base = ''rg'' \<and> embeddedRg \<noteq> [] then embeddedRg else binPath)"

text \<open>The loop over the environment: the new entries and whether a \<open>PATH\<close> was found.\<close>

fun append_path_entries :: "string list \<Rightarrow> string \<Rightarrow> string list \<times> bool" where
  "append_path_entries [] dir = ([], False)"
| "append_path_entries (kv # env) dir =
     (let (out, found) = append_path_entries env dir in
      case CutPrefix kv ''PATH='' of
        Some v \<Rightarrow> ((if v = [] then ''PATH='' @ dir else ''PATH='' @ v @ '':'' @ dir) # out, True)
      | None \<Rightarrow> (kv # out, found))"

definition appendPath :: "string list \<Rightarrow> string \<Rightarrow> string list" where
  "appendPath env dir =
     (if dir = [] then env
      else let (out, found) = append_path_entries env dir in
        if \<not> found then out @ [''PATH='' @ dir] else out)"

fun scrubInjectionEnv :: "string list \<Rightarrow> string list" where
  "scrubInjectionEnv [] = []"
| "scrubInjectionEnv (kv # env) =
     (if HasPrefix kv ''DYLD_INSERT_LIBRARIES='' \<or> HasPrefix kv ''RCC_'' then scrubInjectionEnv env
      else kv # scrubInjectionEnv env)"

text \<open>
  The error of \<open>cmd.Wait\<close>: an \<open>*exec.ExitError\<close> carries what the process did; its \<open>ExitCode\<close> is -1
  for a process a signal ended.
\<close>

datatype process_state = Exited i32 | Signaled
datatype wait_error = ExitError process_state | OtherWaitError

fun state_code :: "process_state \<Rightarrow> i32" where
  "state_code (Exited n) = n"
| "state_code Signaled = - 1"

definition exitCode :: "wait_error option \<Rightarrow> i32" where
  "exitCode err =
     (case err of
        None \<Rightarrow> 0
      | Some (ExitError st) \<Rightarrow> state_code st
      | Some OtherWaitError \<Rightarrow> 127)"

subsection \<open>The command\<close>

record command =
  cm_Path :: string
  cm_Args :: "string list"
  cm_Dir :: string
  cm_Env :: "string list"
  cm_Setpgid :: bool

text \<open>
  What becomes of bytes written to the standard input of a child: all are taken; or after some number of bytes a
  write fails, because nobody reads any more; or it waits for ever, because the child does not read.
\<close>

datatype stdin_pipe = Drains | Breaks nat | Stalls nat

record host =
  h_stat :: "string \<Rightarrow> bool"
  h_lookPath :: "string \<Rightarrow> string option"
  h_environ :: "string list"
  h_stdin :: "command \<Rightarrow> stdin_pipe"

text \<open>What \<open>serveExec\<close> puts in the \<open>exec.Cmd\<close> before it starts it.\<close>

definition exec_command :: "host \<Rightarrow> string \<Rightarrow> spawn_request \<Rightarrow> command" where
  "exec_command h embeddedRg req =
     (let binPath = resolveBinPathWith (sr_Path req) (sr_Argv req) embeddedRg (h_stat h) (h_lookPath h);
          base = (if length (sr_Env req) = 0 then h_environ h else sr_Env req);
          env = scrubInjectionEnv base @ [''RCC_EXECUTOR=1''];
          env = (if embeddedRg \<noteq> [] then appendPath env (Dir embeddedRg) else env)
      in \<lparr>cm_Path = binPath, cm_Args = sr_Argv req, cm_Dir = sr_Cwd req, cm_Env = env,
          cm_Setpgid = True\<rparr>)"

subsection \<open>Control frames\<close>

text \<open>
  The goroutine that reads what the proxy relays: signals to the process group, bytes and end of the child's
  standard input. The child is what it got: its input, whether that is closed (later writes fail and are dropped),
  its signals, and what its pipe still takes. A write that waits stops the goroutine: \<open>ci_stalled\<close>. Otherwise the
  loop ends with the control stream.
\<close>

record child_in =
  ci_stdin :: bytes
  ci_closed :: bool
  ci_signals :: "i32 list"
  ci_pipe :: stdin_pipe
  ci_stalled :: bool

definition child_started :: "stdin_pipe \<Rightarrow> child_in" where
  "child_started p = \<lparr>ci_stdin = [], ci_closed = False, ci_signals = [], ci_pipe = p, ci_stalled = False\<rparr>"

definition stdin_write :: "bytes \<Rightarrow> child_in \<Rightarrow> child_in" where
  "stdin_write d c =
     (if ci_closed c then c
      else case ci_pipe c of
        Drains \<Rightarrow> c\<lparr>ci_stdin := ci_stdin c @ d\<rparr>
      | Breaks n \<Rightarrow> c\<lparr>ci_stdin := ci_stdin c @ take n d, ci_pipe := Breaks (n - length d)\<rparr>
      | Stalls n \<Rightarrow> c\<lparr>ci_stdin := ci_stdin c @ take n d, ci_pipe := Stalls (n - length d), ci_stalled := n < length d\<rparr>)"

definition control_frame :: "Frame \<Rightarrow> child_in \<Rightarrow> child_in" where
  "control_frame f c =
     (if fr_Tag f = TagSignal then c\<lparr>ci_signals := ci_signals c @ [Signum f]\<rparr>
      else if fr_Tag f = TagStdin then
        (if length (fr_Data f) = 0 then c\<lparr>ci_closed := True\<rparr> else stdin_write (fr_Data f) c)
      else c)"

lemma buf_ReadFrame_shorter: "ReadFrame buf_read s = (Inr f, s') \<Longrightarrow> length s' < length s"
  by (auto simp: ReadFrame_def buf_read_def Let_def split: if_splits)

function control_loop :: "bytes \<Rightarrow> child_in \<Rightarrow> child_in" where
  "control_loop s c =
     (if ci_stalled c then c
      else case ReadFrame buf_read s of
        (Inl e, _) \<Rightarrow> c\<lparr>ci_closed := True\<rparr>
      | (Inr f, s') \<Rightarrow> control_loop s' (control_frame f c))"
  by pat_completeness auto
termination
  by (relation "measure (\<lambda>(s, c). length s)") (auto dest!: buf_ReadFrame_shorter [OF sym])

declare control_loop.simps [simp del]

subsection \<open>The output of the child\<close>

text \<open>
  A running child: the standard output and error it has yet to deliver to the pumps, whether a process (the child, or
  one it has left behind) still holds the other end of each pipe, whether the child itself runs, whether each
  pump has ended, whether the exit frame is sent, and the bytes on the stream.
\<close>

record running =
  rn_out :: bytes
  rn_err :: bytes
  rn_out_held :: bool
  rn_err_held :: bool
  rn_alive :: bool
  rn_out_done :: bool
  rn_err_done :: bool
  rn_exited :: bool
  rn_sent :: bytes

definition pump_size :: nat where
  "pump_size = 32768"

definition write_chunk :: "byte \<Rightarrow> bytes \<Rightarrow> bytes \<Rightarrow> bytes" where
  "write_chunk tag data sent = snd (WriteChunk buf_write tag data sent)"

text \<open>What the child's side does: the last holder of a pipe closes it, and the child ends. It need not happen.\<close>

inductive child_step :: "running \<Rightarrow> running \<Rightarrow> bool" where
  out_closed: "rn_out_held r \<Longrightarrow> child_step r (r\<lparr>rn_out_held := False\<rparr>)"
| err_closed: "rn_err_held r \<Longrightarrow> child_step r (r\<lparr>rn_err_held := False\<rparr>)"
| ended: "rn_alive r \<Longrightarrow> child_step r (r\<lparr>rn_alive := False\<rparr>)"

text \<open>
  Each pump writes what it reads and ends at the end of its pipe; when both have ended and the child too,
  \<open>Wait\<close> returns and the exit frame is written.
\<close>

inductive exec_step :: "i32 \<Rightarrow> running \<Rightarrow> running \<Rightarrow> bool" for code where
  child: "child_step r r' \<Longrightarrow> exec_step code r r'"
| out_chunk: "\<not> rn_out_done r \<Longrightarrow> 0 < n \<Longrightarrow> n \<le> pump_size \<Longrightarrow> n \<le> length (rn_out r) \<Longrightarrow>
     exec_step code r (r\<lparr>rn_out := drop n (rn_out r),
       rn_sent := write_chunk TagStdout (take n (rn_out r)) (rn_sent r)\<rparr>)"
| out_eof: "\<not> rn_out_done r \<Longrightarrow> rn_out r = [] \<Longrightarrow> \<not> rn_out_held r \<Longrightarrow> exec_step code r (r\<lparr>rn_out_done := True\<rparr>)"
| err_chunk: "\<not> rn_err_done r \<Longrightarrow> 0 < n \<Longrightarrow> n \<le> pump_size \<Longrightarrow> n \<le> length (rn_err r) \<Longrightarrow>
     exec_step code r (r\<lparr>rn_err := drop n (rn_err r),
       rn_sent := write_chunk TagStderr (take n (rn_err r)) (rn_sent r)\<rparr>)"
| err_eof: "\<not> rn_err_done r \<Longrightarrow> rn_err r = [] \<Longrightarrow> \<not> rn_err_held r \<Longrightarrow> exec_step code r (r\<lparr>rn_err_done := True\<rparr>)"
| exit: "rn_out_done r \<Longrightarrow> rn_err_done r \<Longrightarrow> \<not> rn_alive r \<Longrightarrow> \<not> rn_exited r \<Longrightarrow>
     exec_step code r (r\<lparr>rn_exited := True, rn_sent := snd (WriteExit buf_write code (rn_sent r))\<rparr>)"

inductive_cases child_stepE: "child_step r r'"
inductive_cases exec_stepE: "exec_step code r r'"

definition started :: "bytes \<Rightarrow> bytes \<Rightarrow> running" where
  "started out err = \<lparr>rn_out = out, rn_err = err, rn_out_held = True, rn_err_held = True, rn_alive = True,
     rn_out_done = False, rn_err_done = False, rn_exited = False, rn_sent = []\<rparr>"

text \<open>
  \<open>serveExec\<close> on what the proxy sent. \<open>start\<close> is the operating system: how a command runs (\<open>None\<close>
  when a pipe or the start fails), as all that will be written to its output and error output, a finite list each,
  and the result of waiting for it. The outcome
  is nothing (the request could not be read), a bare exit frame, or a run of \<open>exec_step\<close>.
\<close>

datatype exec_outcome =
    NoRequest
  | ExitOnly bytes
  | Runs i32 running child_in

definition serveExec ::
    "(bytes \<Rightarrow> spawn_request option) \<Rightarrow> host \<Rightarrow> string \<Rightarrow>
     (command \<Rightarrow> (bytes \<times> bytes \<times> wait_error option) option) \<Rightarrow> bytes \<Rightarrow> exec_outcome" where
  "serveExec unmarshal h embeddedRg start s =
     (case ReadSpawnRequest unmarshal buf_read s of
        (Inl e, _) \<Rightarrow> NoRequest
      | (Inr req, s) \<Rightarrow>
          if length (sr_Argv req) = 0 then ExitOnly (snd (WriteExit buf_write 127 []))
          else case start (exec_command h embeddedRg req) of
            None \<Rightarrow> ExitOnly (snd (WriteExit buf_write 127 []))
          | Some (out, err, werr) \<Rightarrow>
              Runs (exitCode werr) (started out err)
                (control_loop s (child_started (h_stdin h (exec_command h embeddedRg req)))))"

subsection \<open>Environment lemmas\<close>

definition injected :: "string \<Rightarrow> bool" where
  "injected kv \<longleftrightarrow> HasPrefix kv ''DYLD_INSERT_LIBRARIES='' \<or> HasPrefix kv ''RCC_''"

lemma scrub_filter: "scrubInjectionEnv env = filter (\<lambda>kv. \<not> injected kv) env"
  by (induction env) (auto simp: injected_def)

text \<open>The directories a child with this environment searches, in order, for each \<open>PATH\<close> entry.\<close>

definition path_values :: "string list \<Rightarrow> string list" where
  "path_values env = List.map_filter (\<lambda>kv. CutPrefix kv ''PATH='') env"

definition others :: "string list \<Rightarrow> string list" where
  "others env = filter (\<lambda>kv. CutPrefix kv ''PATH='' = None) env"

lemma others_append: "others (xs @ ys) = others xs @ others ys"
  by (simp add: others_def)

lemma CutPrefix_PATH: "CutPrefix (''PATH='' @ v) ''PATH='' = Some v"
  by (simp add: CutPrefix_def HasPrefix_def)

lemma append_path_entries_spec:
  "append_path_entries env dir = (out, found) \<Longrightarrow>
   path_values out = map (\<lambda>v. if v = [] then dir else v @ '':'' @ dir) (path_values env) \<and>
   others out = others env \<and> (found \<longleftrightarrow> path_values env \<noteq> []) \<and> length out = length env"
proof (induction env arbitrary: out found)
  case Nil
  then show ?case by (simp add: path_values_def others_def map_filter_simps)
next
  case (Cons kv env)
  obtain o1 f1 where o1: "append_path_entries env dir = (o1, f1)" by fastforce
  note IH = Cons.IH [OF o1]
  show ?case
  proof (cases "CutPrefix kv ''PATH=''")
    case None
    with Cons.prems o1 IH show ?thesis
      by (auto simp: path_values_def others_def map_filter_simps)
  next
    case (Some v)
    let ?kv = "if v = [] then ''PATH='' @ dir else ''PATH='' @ v @ '':'' @ dir"
    have "CutPrefix ?kv ''PATH='' = Some (if v = [] then dir else v @ '':'' @ dir)"
      using CutPrefix_PATH by (cases "v = []") simp_all
    with Cons.prems o1 IH Some show ?thesis
      by (auto simp: path_values_def others_def map_filter_simps)
  qed
qed

lemma path_values_append: "path_values (xs @ ys) = path_values xs @ path_values ys"
  by (simp add: path_values_def map_filter_def)

subsection \<open>Properties\<close>

lemma exec_env:
  "let base = (if sr_Env req = [] then h_environ h else sr_Env req);
       env = cm_Env (exec_command h rg req)
   in others env = filter (\<lambda>kv. \<not> injected kv) (others base) @ [''RCC_EXECUTOR=1''] \<and>
      filter injected env = [''RCC_EXECUTOR=1'']"
proof -
  let ?base = "if sr_Env req = [] then h_environ h else sr_Env req"
  let ?env = "scrubInjectionEnv ?base @ [''RCC_EXECUTOR=1'']"
  have rcc: "injected ''RCC_EXECUTOR=1''" "CutPrefix ''RCC_EXECUTOR=1'' ''PATH='' = None"
    by (simp_all add: injected_def CutPrefix_def HasPrefix_def)
  have path_ok: "\<not> injected kv" if "CutPrefix kv ''PATH='' = Some v" for kv v
    using that by (auto simp: CutPrefix_iff injected_def HasPrefix_def)
  have env: "cm_Env (exec_command h rg req) = (if rg \<noteq> [] then appendPath ?env (Dir rg) else ?env)"
    by (simp add: exec_command_def Let_def)
  have oth: "others ?env = filter (\<lambda>kv. \<not> injected kv) (others ?base) @ [''RCC_EXECUTOR=1'']"
    by (simp add: scrub_filter others_def rcc conj_commute)
  have inj: "filter injected e = filter injected (others e)" for e
    using path_ok by (induction e) (auto simp: others_def)
  have "others (appendPath ?env d) = others ?env" for d
  proof -
    obtain o1 f1 where o1: "append_path_entries ?env d = (o1, f1)" by fastforce
    have "others [''PATH='' @ d] = []"
      using CutPrefix_PATH by (simp add: others_def)
    then show ?thesis
      using append_path_entries_spec [OF o1] by (simp add: appendPath_def o1 others_def)
  qed
  then have "others (cm_Env (exec_command h rg req)) = others ?env"
    unfolding env by simp
  moreover have "filter injected (filter (\<lambda>kv. \<not> injected kv) e) = []" for e
    by (simp add: filter_empty_conv)
  ultimately show ?thesis
    unfolding Let_def using oth inj [of "cm_Env (exec_command h rg req)"] by (simp add: rcc)
qed

text \<open>
  The child never inherits the injection environment: of a \<open>SpawnRequest\<close>'s variables (or the
  host's, when it has none) exactly those that are neither \<open>DYLD_INSERT_LIBRARIES\<close> nor \<open>RCC_...\<close>
  reach the child unchanged and in order, \<open>PATH\<close> entries apart, and the only \<open>RCC_\<close> variable it
  has is \<open>RCC_EXECUTOR=1\<close>.
\<close>

theorem exec_env_scrubbed:
  "let base = (if sr_Env req = [] then h_environ h else sr_Env req);
       env = cm_Env (exec_command h rg req)
   in others env = filter (\<lambda>kv. \<not> injected kv) (others base) @ [''RCC_EXECUTOR=1''] \<and>
      filter injected env = [''RCC_EXECUTOR=1'']"
  by (rule exec_env)

text \<open>
  The bundled ripgrep comes last: \<open>appendPath\<close> puts its directory at the end of every \<open>PATH\<close> the
  child has, or adds a \<open>PATH\<close> with it alone when there is none, and touches no other variable.
\<close>

theorem appendPath_last:
  "others (appendPath env dir) = others env \<and>
   (dir \<noteq> [] \<longrightarrow> path_values (appendPath env dir) =
      (if path_values env = [] then [dir]
       else map (\<lambda>v. if v = [] then dir else v @ '':'' @ dir) (path_values env)))"
proof (cases "dir = []")
  case False
  obtain o1 f1 where o1: "append_path_entries env dir = (o1, f1)" by fastforce
  have "others [''PATH='' @ dir] = []" "path_values [''PATH='' @ dir] = [dir]"
    using CutPrefix_PATH [of dir] by (simp_all add: others_def path_values_def map_filter_simps)
  with append_path_entries_spec [OF o1] False show ?thesis
    by (auto simp: appendPath_def o1 path_values_append others_def)
qed (simp add: appendPath_def)

theorem appendPath_last_witness:
  "path_values (appendPath [''A=1'', ''PATH=/bin''] ''/opt'') = [''/bin:/opt'']"
  using appendPath_last [of "[''A=1'', ''PATH=/bin'']" "''/opt''"]
  by (simp add: path_values_def map_filter_simps CutPrefix_def HasPrefix_def)

text \<open>
  The choice of the binary fails only when nothing on the host could run: with lookups that
  find existing files, an absolute path that is chosen and does not exist is the one requested, and
  then neither its name nor the name of \<open>argv[0]\<close> is on the host's \<open>PATH\<close>, and a ripgrep call has
  no bundled ripgrep either.
\<close>

theorem resolveBinPath_runnable:
  assumes "\<And>n p. lookPath n = Some p \<Longrightarrow> stat p" and "rg \<noteq> [] \<Longrightarrow> stat rg"
    and "HasPrefix (resolveBinPathWith req argv rg stat lookPath) ''/''"
    and "\<not> stat (resolveBinPathWith req argv rg stat lookPath)"
  shows "let bin = (if req = [] \<and> argv \<noteq> [] then hd argv else req) in
    resolveBinPathWith req argv rg stat lookPath = bin \<and> lookPath (Base bin) = None \<and>
    list_all (\<lambda>a. lookPath (Base a) = None \<and> (rg = [] \<or> Base a \<noteq> ''rg'')) (take 1 argv)"
proof -
  have base: "Base p \<noteq> []" for p
    by (simp add: Base_def Let_def)
  have found: "stat p" if "lookPath n = Some p" for n p
    using assms(1) that by blast
  show ?thesis
    using assms(2-) base
    by (cases argv) (auto simp: resolveBinPathWith_def Let_def dest: found split: option.splits if_splits)
qed

lemma sample_Base: "Base ''/x/claude'' = ''claude''" "Base ''sh'' = ''sh''"
  by (simp_all add: Base_def)

theorem resolveBinPath_runnable_witness:
  "resolveBinPathWith ''/x/claude'' [''sh''] [] (\<lambda>p. p = ''/b/rg'') (\<lambda>n. if n = ''rg'' then Some ''/b/rg'' else None) = ''/x/claude''"
proof -
  have "resolveBinPathWith ''/x/claude'' [''sh''] [] (\<lambda>p. p = ''/b/rg'')
      (\<lambda>n. if n = ''rg'' then Some ''/b/rg'' else None) = ''/x/claude''"
    by (simp add: resolveBinPathWith_def HasPrefix_def sample_Base)
  then show ?thesis
    using resolveBinPath_runnable [of "\<lambda>n. if n = ''rg'' then Some ''/b/rg'' else None" "\<lambda>p. p = ''/b/rg''"
        "[]" "''/x/claude''" "[''sh'']"]
    by (simp add: HasPrefix_def split: if_splits)
qed

end
