(* ===== verification/SpawnProxy.thy ===== *)
theory SpawnProxy
  imports ExecService
begin

unbundle bit_operations_syntax

section \<open>The spawn proxy (cmd/rca/spawnproxy.go) and a whole subprocess\<close>

text \<open>
  \<open>cmdSpawnProxy\<close>: what it asks of the executor, the control frames it relays, and the loop that
  writes the frames it receives to its own output and error until the exit frame. The second part
  puts it together with the executor's pumps: a remote subprocess is seen as a local one.
\<close>

abbreviation StreamKindFS :: byte where "StreamKindFS \<equiv> 0x46"
abbreviation StreamKindExec :: byte where "StreamKindExec \<equiv> 0x58"

record proxy_out =
  po_stdout :: bytes
  po_stderr :: bytes

definition no_output :: proxy_out where
  "no_output = \<lparr>po_stdout = [], po_stderr = []\<rparr>"

text \<open>The receive loop; the result is the exit code of the proxy.\<close>

function proxy_loop :: "bytes \<Rightarrow> proxy_out \<Rightarrow> int \<times> proxy_out" where
  "proxy_loop s p =
     (case ReadFrame buf_read s of
        (Inl e, _) \<Rightarrow> (if e = ExecStream EOF then 0 else 127, p)
      | (Inr f, s') \<Rightarrow>
          if fr_Tag f = TagStdout then proxy_loop s' (p\<lparr>po_stdout := po_stdout p @ fr_Data f\<rparr>)
          else if fr_Tag f = TagStderr then proxy_loop s' (p\<lparr>po_stderr := po_stderr p @ fr_Data f\<rparr>)
          else if fr_Tag f = TagExit then (uint (ExitCode f AND 0xFF), p)
          else proxy_loop s' p)"
  by pat_completeness auto
termination
  by (relation "measure (\<lambda>(s, p). length s)") (auto dest!: buf_ReadFrame_shorter [OF sym])

declare proxy_loop.simps [simp del]

text \<open>
  The whole command. \<open>dial\<close> reaches the socket, \<open>wr\<close> writes to the connection, \<open>reply\<close> is what
  comes back on it given what was sent; the result is the exit code, what the proxy wrote to its own
  output and error (diagnostics apart), and the connection.
\<close>

definition cmdSpawnProxy ::
    "(spawn_request \<Rightarrow> bytes option) \<Rightarrow> (string \<Rightarrow> 's option) \<Rightarrow> 's writer \<Rightarrow> ('s \<Rightarrow> bytes) \<Rightarrow>
     string list \<Rightarrow> string \<Rightarrow> string \<Rightarrow> string list \<Rightarrow> int \<times> proxy_out \<times> 's option" where
  "cmdSpawnProxy marshal dial wr reply args sock cwd environ =
     (if length args < 2 then (127, no_output, None)
      else if sock = [] then (127, no_output, None)
      else case dial sock of
        None \<Rightarrow> (127, no_output, None)
      | Some s \<Rightarrow>
          (case wr [StreamKindExec] s of
             (Some e, s) \<Rightarrow> (127, no_output, Some s)
           | (None, s) \<Rightarrow>
               (case WriteSpawnRequest marshal wr
                    \<lparr>sr_Path = args ! 0, sr_Argv = drop 1 args, sr_Cwd = cwd, sr_Env = environ\<rparr> s of
                  (Some e, s) \<Rightarrow> (127, no_output, Some s)
                | (None, s) \<Rightarrow>
                    (let (code, p) = proxy_loop (reply s) no_output in (code, p, Some s)))))"

text \<open>
  The two goroutines that write control frames: one relays the signals the proxy got, the other what it reads from
  its standard input, at most 32 KiB at a time, and an empty frame at the end. They share the connection under a
  mutex, so each step is one frame. A state has the input and the signals still to come, whether the end of the input
  was relayed, and the bytes sent.
\<close>

record relay =
  rl_input :: bytes
  rl_signals :: "i32 list"
  rl_ended :: bool
  rl_sent :: bytes

inductive relay_step :: "relay \<Rightarrow> relay \<Rightarrow> bool" where
  read: "\<not> rl_ended r \<Longrightarrow> 0 < n \<Longrightarrow> n \<le> 32 * 1024 \<Longrightarrow> n \<le> length (rl_input r) \<Longrightarrow>
     relay_step r (r\<lparr>rl_input := drop n (rl_input r),
       rl_sent := snd (WriteChunk buf_write TagStdin (take n (rl_input r)) (rl_sent r))\<rparr>)"
| eof: "\<not> rl_ended r \<Longrightarrow> rl_input r = [] \<Longrightarrow>
     relay_step r (r\<lparr>rl_ended := True, rl_sent := snd (WriteChunk buf_write TagStdin [] (rl_sent r))\<rparr>)"
| signal: "rl_signals r = n # ns \<Longrightarrow>
     relay_step r (r\<lparr>rl_signals := ns, rl_sent := snd (WriteSignal buf_write n (rl_sent r))\<rparr>)"

inductive_cases relay_stepE: "relay_step r r'"

subsection \<open>Loops over frames\<close>

definition wire_of :: "msg list \<Rightarrow> bytes" where
  "wire_of ms = concat (map (\<lambda>m. frame_bytes (msg_frame m)) ms)"

lemma wire_of_simps [simp]:
  "wire_of [] = []" "wire_of (m # ms) = frame_bytes (msg_frame m) @ wire_of ms"
  "wire_of (xs @ ys) = wire_of xs @ wire_of ys"
  by (simp_all add: wire_of_def)

lemma ReadFrame_msg: "ReadFrame buf_read (frame_bytes (msg_frame m) @ rest) = (Inr (msg_frame m), rest)"
  using buf.ReadFrame_xframe [OF refl msg_frame_bounded, of "fr_Tag (msg_frame m)" m rest]
  by (simp add: frame_bytes_def)

lemma fr_msg [simp]:
  "fr_Tag (msg_frame (Chunk t d)) = t" "fr_Data (msg_frame (Chunk t d)) = take MaxChunk d"
  "fr_Tag (msg_frame (Exit c)) = TagExit" "fr_Tag (msg_frame (Signal n)) = TagSignal"
  by simp_all

declare msg_frame.simps [simp del]

lemma ReadFrame_end: "ReadFrame buf_read [] = (Inl (ExecStream EOF), [])"
  by (simp add: ReadFrame_def buf_read_def)

fun out_bytes :: "byte \<Rightarrow> msg list \<Rightarrow> bytes" where
  "out_bytes t [] = []"
| "out_bytes t (Chunk tag d # ms) = (if tag = t then take MaxChunk d else []) @ out_bytes t ms"
| "out_bytes t (_ # ms) = out_bytes t ms"

definition is_output :: "msg \<Rightarrow> bool" where
  "is_output m \<longleftrightarrow> (\<exists>d. m = Chunk TagStdout d \<or> m = Chunk TagStderr d)"

lemma out_bytes_append: "out_bytes t (xs @ ys) = out_bytes t xs @ out_bytes t ys"
  by (induction t xs rule: out_bytes.induct) auto

lemma proxy_loop_outputs:
  "list_all is_output ms \<Longrightarrow> proxy_loop (wire_of ms @ rest) p =
     proxy_loop rest \<lparr>po_stdout = po_stdout p @ out_bytes TagStdout ms,
       po_stderr = po_stderr p @ out_bytes TagStderr ms\<rparr>"
proof (induction ms arbitrary: p)
  case (Cons m ms)
  then obtain d where "m = Chunk TagStdout d \<or> m = Chunk TagStderr d"
    by (auto simp: is_output_def)
  with Cons show ?case
    by (auto simp: proxy_loop.simps [of "frame_bytes _ @ _"] ReadFrame_msg)
next
  case Nil
  then show ?case by (cases p) simp
qed

lemma proxy_loop_exit: "proxy_loop (frame_bytes (msg_frame (Exit c)) @ rest) p = (uint (c AND 0xFF), p)"
  by (subst proxy_loop.simps) (simp add: ReadFrame_msg)

lemma control_loop_stalled: "ci_stalled c \<Longrightarrow> control_loop s c = c"
  by (subst control_loop.simps) simp

lemma control_loop_msg:
  "control_loop (frame_bytes (msg_frame m) @ rest) c =
     control_loop rest (if ci_stalled c then c else control_frame (msg_frame m) c)"
  by (subst control_loop.simps) (simp add: ReadFrame_msg control_loop_stalled)

text \<open>What a child gets of the bytes written to its input, and how much its pipe still takes after some of them.\<close>

fun delivered :: "stdin_pipe \<Rightarrow> bytes \<Rightarrow> bytes" where
  "delivered Drains d = d"
| "delivered (Breaks n) d = take n d"
| "delivered (Stalls n) d = take n d"

fun pipe_left :: "stdin_pipe \<Rightarrow> nat \<Rightarrow> stdin_pipe" where
  "pipe_left Drains k = Drains"
| "pipe_left (Breaks n) k = Breaks (n - k)"
| "pipe_left (Stalls n) k = Stalls (n - k)"

fun full_after :: "stdin_pipe \<Rightarrow> nat \<Rightarrow> bool" where
  "full_after (Stalls n) k \<longleftrightarrow> n < k"
| "full_after _ k \<longleftrightarrow> False"

lemma stdin_write_left:
  assumes "ci_pipe c = pipe_left p (length d)" and "ci_stdin c = delivered p d" and "\<not> ci_closed c"
    and "\<not> full_after p (length d)" and "\<not> ci_stalled c"
  shows "stdin_write e c = c\<lparr>ci_stdin := delivered p (d @ e), ci_pipe := pipe_left p (length (d @ e)),
    ci_stalled := full_after p (length (d @ e))\<rparr>"
proof -
  have "n - length d < length e \<longleftrightarrow> n < length (d @ e)" if "\<not> n < length d" for n
    using that by simp linarith
  then show ?thesis
    using assms by (cases p) (auto simp: stdin_write_def)
qed

subsection \<open>Runs of the executor\<close>

text \<open>
  What every run keeps: the stream holds output messages, which with what the pumps have yet to
  read are the child's output and error; the exit frame comes last.
\<close>

definition run_ok :: "i32 \<Rightarrow> bytes \<Rightarrow> bytes \<Rightarrow> running \<Rightarrow> bool" where
  "run_ok code out err r \<longleftrightarrow>
     (\<exists>ms. list_all is_output ms \<and>
        rn_sent r = wire_of (ms @ (if rn_exited r then [Exit code] else [])) \<and>
        out = out_bytes TagStdout ms @ rn_out r \<and> err = out_bytes TagStderr ms @ rn_err r \<and>
        (rn_out_done r \<longrightarrow> rn_out r = []) \<and> (rn_err_done r \<longrightarrow> rn_err r = []) \<and>
        (rn_out_done r \<longrightarrow> \<not> rn_out_held r) \<and> (rn_err_done r \<longrightarrow> \<not> rn_err_held r) \<and>
        (rn_exited r \<longrightarrow> rn_out_done r \<and> rn_err_done r \<and> \<not> rn_alive r))"

lemma write_chunk_wire: "write_chunk tag d sent = sent @ frame_bytes (msg_frame (Chunk tag d))"
  using buf_sink.WriteChunk_ok [of tag d sent "sent @ xframe tag (take MaxChunk d)"]
  by (simp add: write_chunk_def WriteChunk_def buf_write_def stream_result_def frame_bytes_def xframe_def min_def)

lemma write_exit_wire: "snd (WriteExit buf_write code sent) = sent @ frame_bytes (msg_frame (Exit code))"
  by (simp add: WriteExit_def stream_result_def buf_write_def frame_bytes_def exit_xframe msg_frame.simps)

lemma run_ok_started: "run_ok code out err (started out err)"
  unfolding run_ok_def by (intro exI [of _ "[]"]) (simp add: started_def)

lemma run_ok_step:
  assumes "run_ok code out err r" and "exec_step code r r'"
  shows "run_ok code out err r'"
proof -
  obtain ms where ms: "list_all is_output ms"
      "rn_sent r = wire_of (ms @ (if rn_exited r then [Exit code] else []))"
      "out = out_bytes TagStdout ms @ rn_out r" "err = out_bytes TagStderr ms @ rn_err r"
      "rn_out_done r \<longrightarrow> rn_out r = []" "rn_err_done r \<longrightarrow> rn_err r = []"
      "rn_out_done r \<longrightarrow> \<not> rn_out_held r" "rn_err_done r \<longrightarrow> \<not> rn_err_held r"
      "rn_exited r \<longrightarrow> rn_out_done r \<and> rn_err_done r \<and> \<not> rn_alive r"
    using assms(1) unfolding run_ok_def by blast
  have small: "min MaxChunk n = n" if "n \<le> pump_size" for n
    using that by (simp add: pump_size_def MaxChunk_def)
  from assms(2) show ?thesis
  proof cases
    case child
    then show ?thesis
      using ms unfolding run_ok_def by (cases; intro exI [of _ ms]) simp_all
  next
    case (out_chunk n)
    with ms have "list_all is_output (ms @ [Chunk TagStdout (take n (rn_out r))])" "\<not> rn_exited r"
      by (auto simp: is_output_def)
    with ms out_chunk show ?thesis
      unfolding run_ok_def
      by (intro exI [of _ "ms @ [Chunk TagStdout (take n (rn_out r))]"])
        (simp add: write_chunk_wire out_bytes_append small)
  next
    case (err_chunk n)
    with ms have "list_all is_output (ms @ [Chunk TagStderr (take n (rn_err r))])" "\<not> rn_exited r"
      by (auto simp: is_output_def)
    with ms err_chunk show ?thesis
      unfolding run_ok_def
      by (intro exI [of _ "ms @ [Chunk TagStderr (take n (rn_err r))]"])
        (simp add: write_chunk_wire out_bytes_append small)
  next
    case exit
    with ms show ?thesis
      unfolding run_ok_def by (intro exI [of _ ms]) (simp add: write_exit_wire)
  next
    case out_eof
    with ms show ?thesis unfolding run_ok_def by (intro exI [of _ ms]) simp
  next
    case err_eof
    with ms show ?thesis unfolding run_ok_def by (intro exI [of _ ms]) simp
  qed
qed

lemma run_ok_reachable:
  "(exec_step code)\<^sup>*\<^sup>* (started out err) r \<Longrightarrow> run_ok code out err r"
  by (induction rule: rtranclp_induct) (auto intro: run_ok_started run_ok_step)

text \<open>Every step brings the run nearer to its end, and a run that has not ended can go on.\<close>

definition run_measure :: "running \<Rightarrow> nat" where
  "run_measure r = length (rn_out r) + length (rn_err r) + (if rn_out_done r then 0 else 1) +
     (if rn_err_done r then 0 else 1) + (if rn_exited r then 0 else 1) +
     (if rn_out_held r then 1 else 0) + (if rn_err_held r then 1 else 0) + (if rn_alive r then 1 else 0)"

lemma exec_step_measure: "exec_step code r r' \<Longrightarrow> run_measure r' < run_measure r"
  by (erule exec_stepE; (erule child_stepE)?; simp add: run_measure_def)

lemma exec_steps_measure: "(exec_step code ^^ n) r r' \<Longrightarrow> n + run_measure r' \<le> run_measure r"
proof (induction n arbitrary: r')
  case (Suc n)
  then obtain r1 where "(exec_step code ^^ n) r r1" "exec_step code r1 r'" by auto
  with Suc.IH [of r1] exec_step_measure [of code r1 r'] show ?case by simp
qed simp

text \<open>The executor's own steps: what it does next when the child's side does nothing.\<close>

lemma exec_own_step:
  assumes "\<not> rn_exited r" and "rn_out r \<noteq> [] \<and> \<not> rn_out_done r \<or> rn_err r \<noteq> [] \<and> \<not> rn_err_done r \<or>
    \<not> rn_out_done r \<and> \<not> rn_out_held r \<or> \<not> rn_err_done r \<and> \<not> rn_err_held r \<or>
    rn_out_done r \<and> rn_err_done r \<and> \<not> rn_alive r"
  shows "\<exists>r'. exec_step code r r' \<and> \<not> child_step r r'"
proof -
  have own: "\<not> child_step r r'" if "rn_out_held r' = rn_out_held r" "rn_err_held r' = rn_err_held r"
    "rn_alive r' = rn_alive r" for r'
    using that by (auto elim!: child_stepE)
  consider "rn_out r \<noteq> []" "\<not> rn_out_done r" | "rn_err r \<noteq> []" "\<not> rn_err_done r"
    | "rn_out r = []" "\<not> rn_out_done r" "\<not> rn_out_held r" | "rn_err r = []" "\<not> rn_err_done r" "\<not> rn_err_held r"
    | "rn_out_done r" "rn_err_done r" "\<not> rn_alive r"
    using assms(2) by blast
  then show ?thesis
  proof cases
    case 1
    then have "exec_step code r (r\<lparr>rn_out := drop 1 (rn_out r), rn_sent := write_chunk TagStdout (take 1 (rn_out r)) (rn_sent r)\<rparr>)"
      by (intro exec_step.out_chunk) (auto simp: pump_size_def Suc_le_eq)
    then show ?thesis using own by force
  next
    case 2
    then have "exec_step code r (r\<lparr>rn_err := drop 1 (rn_err r), rn_sent := write_chunk TagStderr (take 1 (rn_err r)) (rn_sent r)\<rparr>)"
      by (intro exec_step.err_chunk) (auto simp: pump_size_def Suc_le_eq)
    then show ?thesis using own by force
  next
    case 3
    then show ?thesis using exec_step.out_eof [of r code] own by force
  next
    case 4
    then show ?thesis using exec_step.err_eof [of r code] own by force
  next
    case 5
    then show ?thesis using exec_step.exit [of r code] assms(1) own by force
  qed
qed

lemma exec_step_progress:
  assumes "\<not> rn_exited r"
  shows "\<exists>r'. exec_step code r r'"
proof -
  consider "rn_out_held r" | "rn_err_held r" | "rn_alive r"
    | "\<not> rn_out_held r" "\<not> rn_err_held r" "\<not> rn_alive r" by blast
  then show ?thesis
    using exec_own_step [OF assms, of code]
    by cases (auto intro: exec_step.child child_step.intros)
qed

lemma exec_reaches_exit: "\<exists>r'. (exec_step code)\<^sup>*\<^sup>* r r' \<and> rn_exited r'"
proof (induction "run_measure r" arbitrary: r rule: less_induct)
  case less
  show ?case
  proof (cases "rn_exited r")
    case False
    then obtain r1 where r1: "exec_step code r r1" using exec_step_progress by blast
    with less [OF exec_step_measure [OF r1]] show ?thesis
      by (meson converse_rtranclp_into_rtranclp)
  qed blast
qed

lemma proxy_of_finished:
  assumes "run_ok code out err r" and "rn_exited r"
  shows "proxy_loop (rn_sent r) no_output = (uint (code AND 0xFF), \<lparr>po_stdout = out, po_stderr = err\<rparr>)"
proof -
  obtain ms where ms: "list_all is_output ms" "rn_sent r = wire_of ms @ frame_bytes (msg_frame (Exit code)) @ []"
      "out = out_bytes TagStdout ms" "err = out_bytes TagStderr ms"
    using assms by (auto simp: run_ok_def)
  then show ?thesis
    unfolding ms(2) using proxy_loop_outputs [OF ms(1)] proxy_loop_exit [of code "[]"]
    by (simp add: no_output_def)
qed

subsection \<open>What the child receives\<close>

text \<open>
  What every interleaving of the proxy's goroutines keeps: \<open>w\<close> is what they have sent after the request, \<open>c\<close> the child
  when the executor has read it.
\<close>

definition relay_ok :: "stdin_pipe \<Rightarrow> bytes \<Rightarrow> bytes \<Rightarrow> i32 list \<Rightarrow> relay \<Rightarrow> bool" where
  "relay_ok p hdr input sigs r \<longleftrightarrow>
     (\<exists>relayed got w c. relayed @ rl_input r = input \<and> got @ rl_signals r = sigs \<and> rl_sent r = hdr @ w \<and>
        (\<forall>rest. control_loop (w @ rest) (child_started p) = control_loop rest c) \<and>
        ci_stdin c = delivered p relayed \<and> (ci_stalled c \<longleftrightarrow> full_after p (length relayed)) \<and>
        (if ci_stalled c then prefix (ci_signals c) got
         else ci_signals c = got \<and> (ci_closed c \<longleftrightarrow> rl_ended r) \<and> ci_pipe c = pipe_left p (length relayed)))"

lemma WriteSignal_wire: "snd (WriteSignal buf_write n sent) = sent @ frame_bytes (msg_frame (Signal n))"
  by (simp add: WriteSignal_def stream_result_def buf_write_def frame_bytes_def signal_xframe msg_frame.simps)

lemma relay_ok_start:
  "relay_ok p hdr input sigs \<lparr>rl_input = input, rl_signals = sigs, rl_ended = False, rl_sent = hdr\<rparr>"
  unfolding relay_ok_def
  by (intro exI [of _ "[]"] exI [of _ "child_started p"]) (cases p; simp add: child_started_def)

lemma full_after_delivered: "full_after p (length d) \<Longrightarrow> delivered p (d @ e) = delivered p d \<and> full_after p (length (d @ e))"
  by (cases p) auto

lemma control_frame_msgs:
  "control_frame (msg_frame (Signal n)) c = c\<lparr>ci_signals := ci_signals c @ [n]\<rparr>"
  "control_frame (msg_frame (Chunk TagStdin [])) c = c\<lparr>ci_closed := True\<rparr>"
  "d \<noteq> [] \<Longrightarrow> length d \<le> MaxChunk \<Longrightarrow> control_frame (msg_frame (Chunk TagStdin d)) c = stdin_write d c"
  using msg_frame_codes(2) [of n] by (simp_all add: control_frame_def)

lemma relay_ok_step:
  assumes "relay_ok p hdr input sigs r" and "relay_step r r'"
  shows "relay_ok p hdr input sigs r'"
proof -
  obtain relayed got w c where c: "relayed @ rl_input r = input" "got @ rl_signals r = sigs" "rl_sent r = hdr @ w"
      "\<forall>rest. control_loop (w @ rest) (child_started p) = control_loop rest c"
      "ci_stdin c = delivered p relayed" "ci_stalled c \<longleftrightarrow> full_after p (length relayed)"
      "if ci_stalled c then prefix (ci_signals c) got
       else ci_signals c = got \<and> (ci_closed c \<longleftrightarrow> rl_ended r) \<and> ci_pipe c = pipe_left p (length relayed)"
    using assms(1) unfolding relay_ok_def by blast
  define after where "after m = (if ci_stalled c then c else control_frame (msg_frame m) c)" for m
  have ahead: "control_loop ((w @ frame_bytes (msg_frame m)) @ rest) (child_started p) = control_loop rest (after m)"
    for m rest
    using c(4) control_loop_msg [of m rest c] by (simp add: after_def)
  from assms(2) show ?thesis
  proof cases
    case (read n)
    let ?d = "take n (rl_input r)"
    have d: "?d \<noteq> []" "length ?d \<le> MaxChunk"
      using read by (auto simp: MaxChunk_def)
    have sent: "rl_sent r' = hdr @ w @ frame_bytes (msg_frame (Chunk TagStdin ?d))"
      using read(1) c(3) write_chunk_wire [of TagStdin ?d "rl_sent r"] by (simp add: write_chunk_def)
    have "ci_stdin (after (Chunk TagStdin ?d)) = delivered p (relayed @ ?d) \<and>
        (ci_stalled (after (Chunk TagStdin ?d)) \<longleftrightarrow> full_after p (length (relayed @ ?d))) \<and>
        (if ci_stalled (after (Chunk TagStdin ?d)) then prefix (ci_signals (after (Chunk TagStdin ?d))) got
         else ci_signals (after (Chunk TagStdin ?d)) = got \<and> (ci_closed (after (Chunk TagStdin ?d)) \<longleftrightarrow> rl_ended r') \<and>
           ci_pipe (after (Chunk TagStdin ?d)) = pipe_left p (length (relayed @ ?d)))"
    proof (cases "ci_stalled c")
      case True
      with c full_after_delivered [of p relayed ?d] show ?thesis by (simp add: after_def del: length_append)
    next
      case False
      then have "after (Chunk TagStdin ?d) = c\<lparr>ci_stdin := delivered p (relayed @ ?d),
          ci_pipe := pipe_left p (length (relayed @ ?d)), ci_stalled := full_after p (length (relayed @ ?d))\<rparr>"
        using c(5-7) read(2) stdin_write_left [of c p relayed ?d] control_frame_msgs(3) [OF d] by (simp add: after_def)
      then show ?thesis
        using c(7) False read by (simp del: length_append)
    qed
    moreover have "(relayed @ ?d) @ rl_input r' = input" "got @ rl_signals r' = sigs"
      using read(1) c(1,2) by simp_all
    ultimately show ?thesis
      unfolding relay_ok_def using sent ahead [of "Chunk TagStdin ?d"] by blast
  next
    case eof
    have "rl_sent r' = hdr @ w @ frame_bytes (msg_frame (Chunk TagStdin []))"
      using eof(1) c(3) write_chunk_wire [of TagStdin "[]" "rl_sent r"] by (simp add: write_chunk_def)
    moreover have "ci_stdin (after (Chunk TagStdin [])) = delivered p relayed \<and>
        (ci_stalled (after (Chunk TagStdin [])) \<longleftrightarrow> full_after p (length relayed)) \<and>
        (if ci_stalled (after (Chunk TagStdin [])) then prefix (ci_signals (after (Chunk TagStdin []))) got
         else ci_signals (after (Chunk TagStdin [])) = got \<and> (ci_closed (after (Chunk TagStdin [])) \<longleftrightarrow> rl_ended r') \<and>
           ci_pipe (after (Chunk TagStdin [])) = pipe_left p (length relayed))"
      using c(5-7) eof(1) by (simp add: after_def control_frame_msgs)
    moreover have "relayed @ rl_input r' = input" "got @ rl_signals r' = sigs"
      using eof(1) c(1,2) by simp_all
    ultimately show ?thesis
      unfolding relay_ok_def using ahead [of "Chunk TagStdin []"] by blast
  next
    case (signal n ns)
    have "rl_sent r' = hdr @ w @ frame_bytes (msg_frame (Signal n))"
      using signal(1) c(3) by (simp add: WriteSignal_wire)
    moreover have "ci_stdin (after (Signal n)) = delivered p relayed \<and>
        (ci_stalled (after (Signal n)) \<longleftrightarrow> full_after p (length relayed)) \<and>
        (if ci_stalled (after (Signal n)) then prefix (ci_signals (after (Signal n))) (got @ [n])
         else ci_signals (after (Signal n)) = got @ [n] \<and> (ci_closed (after (Signal n)) \<longleftrightarrow> rl_ended r') \<and>
           ci_pipe (after (Signal n)) = pipe_left p (length relayed))"
      using c(5-7) signal(1) by (simp add: after_def control_frame_msgs)
    moreover have "relayed @ rl_input r' = input" "(got @ [n]) @ rl_signals r' = sigs"
      using signal c(1,2) by simp_all
    ultimately show ?thesis
      unfolding relay_ok_def using ahead [of "Signal n"] by blast
  qed
qed

lemma relay_ok_reachable:
  "relay_step\<^sup>*\<^sup>* \<lparr>rl_input = input, rl_signals = sigs, rl_ended = False, rl_sent = hdr\<rparr> r \<Longrightarrow> relay_ok p hdr input sigs r"
  by (induction rule: rtranclp_induct) (auto intro: relay_ok_start relay_ok_step)

subsection \<open>Properties\<close>

text \<open>
  C8: A remote subprocess looks like a local one. When the proxy's request reaches the executor and
  the command runs there with some output, error output and exit code, then however the two pumps
  cut and interleave their frames, every finished run makes the proxy write exactly this output and
  this error output and exit with the low byte of the code.
\<close>

theorem remote_subprocess:
  assumes "json_codec marshal unmarshal" and "dial sock = Some []" and "sock \<noteq> []"
    and "args = path # arg0 # argv"
    and "req = \<lparr>sr_Path = path, sr_Argv = arg0 # argv, sr_Cwd = cwd, sr_Env = environ\<rparr>"
    and "utf8_request req" and "marshal req = Some body" and "length body \<le> MaxChunk * 16"
    and "start (exec_command h rg req) = Some (out, err, werr)"
  shows "\<exists>sent cin. hd sent = StreamKindExec \<and>
    serveExec unmarshal h rg start (tl sent) = Runs (exitCode werr) (started out err) cin \<and>
    (\<forall>r. (exec_step (exitCode werr))\<^sup>*\<^sup>* (started out err) r \<and> rn_exited r \<longrightarrow>
      cmdSpawnProxy marshal dial buf_write (\<lambda>_. rn_sent r) args sock cwd environ =
        (uint (exitCode werr AND 0xFF), \<lparr>po_stdout = out, po_stderr = err\<rparr>, Some sent))"
proof -
  let ?w = "be32 (word_of_nat (length body)) @ body"
  have un: "unmarshal body = Some req"
    using assms(1,6,7) unfolding json_codec_def by fastforce
  have "length body < 2 ^ 32"
    using assms(8) by (simp add: MaxChunk_def)
  then have "fst (ReadSpawnRequest unmarshal buf_read ?w) = Inr req"
    using buf.ReadSpawnRequest_header [of ?w "length body" body "[]" unmarshal] assms(8) un by auto
  then obtain s where rd: "ReadSpawnRequest unmarshal buf_read ?w = (Inr req, s)"
    by (cases "ReadSpawnRequest unmarshal buf_read ?w") auto
  then have "\<exists>cin. serveExec unmarshal h rg start ?w = Runs (exitCode werr) (started out err) cin"
    using assms(9) by (simp add: serveExec_def assms(5))
  moreover have "WriteSpawnRequest marshal buf_write req [StreamKindExec] = (None, StreamKindExec # ?w)"
    using assms(7) by (simp add: WriteSpawnRequest_def buf_write_def stream_result_def)
  then have "cmdSpawnProxy marshal dial buf_write (\<lambda>_. reply) args sock cwd environ =
      (fst (proxy_loop reply no_output), snd (proxy_loop reply no_output), Some (StreamKindExec # ?w))" for reply
    using assms(2-5) by (simp add: cmdSpawnProxy_def buf_write_def case_prod_beta)
  ultimately show ?thesis
    using proxy_of_finished [OF run_ok_reachable]
    by (intro exI [of _ "StreamKindExec # ?w"]) auto
qed

definition sample_host :: host where
  "sample_host = \<lparr>h_stat = (\<lambda>p. p = ''/bin/sh''), h_lookPath = (\<lambda>_. None), h_environ = [''PATH=/bin''],
     h_stdin = (\<lambda>_. Stalls 2)\<rparr>"

definition sample_start :: "command \<Rightarrow> (bytes \<times> bytes \<times> wait_error option) option" where
  "sample_start c = (if cm_Path c = ''/bin/sh'' then Some ([1, 2], [3], Some (ExitError (Exited 259))) else None)"

lemma sample_start_runs: "sample_start (exec_command sample_host [] sample_spawn) = Some ([1, 2], [3], Some (ExitError (Exited 259)))"
  by (simp add: sample_start_def exec_command_def sample_host_def sample_spawn_def
      resolveBinPathWith_def HasPrefix_def)

theorem remote_subprocess_witness:
  "\<exists>sent r. serveExec unmark_request sample_host [] sample_start (tl sent) \<noteq> NoRequest \<and>
    (exec_step 259)\<^sup>*\<^sup>* (started [1, 2] [3]) r \<and>
    cmdSpawnProxy mark_request (\<lambda>_. Some []) buf_write (\<lambda>_. rn_sent r) [''/bin/sh'', ''rg'', ''-n''] ''s'' ''/w'' [] =
      (3, \<lparr>po_stdout = [1, 2], po_stderr = [3]\<rparr>, Some sent)"
proof -
  obtain body where body: "mark_request sample_spawn = Some body" by (simp add: mark_request_def)
  have utf8: "utf8_request sample_spawn"
    by (simp add: utf8_request_def sample_spawn_def bytes_of_str_def byte_of_char_def)
  have small: "length body \<le> MaxChunk * 16"
    using body by (auto simp: mark_request_def sample_spawn_def mark_str_def mark_strs_def MaxChunk_def)
  obtain r where "(exec_step 259)\<^sup>*\<^sup>* (started [1, 2] [3]) r" "rn_exited r"
    using exec_reaches_exit by blast
  with remote_subprocess [where dial = "\<lambda>_. Some []" and sock = "''s''"
        and args = "[''/bin/sh'', ''rg'', ''-n'']" and path = "''/bin/sh''" and argv = "[''-n'']"
        and ?arg0.0 = "''rg''" and cwd = "''/w''" and environ = "[]" and start = sample_start,
      OF mark_codec _ _ _ _ utf8 body small sample_start_runs]
  show ?thesis
    by (simp add: sample_spawn_def exitCode_def) (metis exec_outcome.distinct(4))
qed

text \<open>
  C30: A run ends, with its exit frame exactly when the child and all holders of its pipes end: with all that will be
  written to the two pipes finite, no run takes more than a step per byte and six. When only the child's side could
  still act, everything written has been sent to the proxy, in each stream's order; and the exit frame with the child's
  exit code is sent, last and once, when the child has ended and both pipes are closed. While a process that the child
  left behind holds a pipe, there is none.
\<close>

theorem exec_run_ends:
  assumes "(exec_step code ^^ n) (started out err) r"
  shows "n \<le> length out + length err + 6 \<and>
    ((\<forall>r'. exec_step code r r' \<longrightarrow> child_step r r') \<longrightarrow>
      (\<exists>ms. list_all is_output ms \<and> out_bytes TagStdout ms = out \<and> out_bytes TagStderr ms = err \<and>
        rn_sent r = wire_of (ms @ (if rn_out_held r \<or> rn_err_held r \<or> rn_alive r then [] else [Exit code]))))"
proof -
  have "(exec_step code)\<^sup>*\<^sup>* (started out err) r"
    using assms by (meson rtranclp_power)
  then obtain ms where ms: "list_all is_output ms"
      "rn_sent r = wire_of (ms @ (if rn_exited r then [Exit code] else []))"
      "out = out_bytes TagStdout ms @ rn_out r" "err = out_bytes TagStderr ms @ rn_err r"
      "rn_out_done r \<longrightarrow> rn_out r = []" "rn_err_done r \<longrightarrow> rn_err r = []"
      "rn_out_done r \<longrightarrow> \<not> rn_out_held r" "rn_err_done r \<longrightarrow> \<not> rn_err_held r"
      "rn_exited r \<longrightarrow> rn_out_done r \<and> rn_err_done r \<and> \<not> rn_alive r"
    using run_ok_reachable unfolding run_ok_def by blast
  have "\<exists>ms. list_all is_output ms \<and> out_bytes TagStdout ms = out \<and> out_bytes TagStderr ms = err \<and>
      rn_sent r = wire_of (ms @ (if rn_out_held r \<or> rn_err_held r \<or> rn_alive r then [] else [Exit code]))"
    if "\<forall>r'. exec_step code r r' \<longrightarrow> child_step r r'"
  proof -
    have "rn_exited r \<or> rn_out r = [] \<and> rn_err r = [] \<and> (rn_out_held r \<or> rn_err_held r \<or> rn_alive r)"
      using that exec_own_step [of r code] ms by blast
    then have "rn_out r = []" "rn_err r = []" "rn_exited r \<longleftrightarrow> \<not> (rn_out_held r \<or> rn_err_held r \<or> rn_alive r)"
      using ms(5-9) by auto
    with ms(1-4) show ?thesis by (intro exI [of _ ms]) simp
  qed
  moreover have "n \<le> length out + length err + 6"
    using exec_steps_measure [OF assms] by (simp add: run_measure_def started_def)
  ultimately show ?thesis by blast
qed

text \<open>A child that ends at once and leaves a process behind that holds its output: no exit frame.\<close>

theorem exec_run_ends_witness:
  "\<exists>r. (exec_step 0 ^^ 3) (started [] []) r \<and> (\<forall>r'. exec_step 0 r r' \<longrightarrow> child_step r r') \<and> rn_sent r = []"
proof -
  let ?r = "(started [] [])\<lparr>rn_alive := False, rn_err_held := False, rn_err_done := True\<rparr>"
  have "exec_step 0 (started [] []) ((started [] [])\<lparr>rn_alive := False\<rparr>)"
    by (intro exec_step.child child_step.ended) (simp add: started_def)
  moreover have "exec_step 0 ((started [] [])\<lparr>rn_alive := False\<rparr>) ((started [] [])\<lparr>rn_alive := False, rn_err_held := False\<rparr>)"
    using child_step.err_closed [of "(started [] [])\<lparr>rn_alive := False\<rparr>"]
    by (intro exec_step.child) (simp add: started_def)
  moreover have "exec_step 0 ((started [] [])\<lparr>rn_alive := False, rn_err_held := False\<rparr>) ?r"
    using exec_step.err_eof [of "(started [] [])\<lparr>rn_alive := False, rn_err_held := False\<rparr>" 0] by (simp add: started_def)
  ultimately have steps: "(exec_step 0 ^^ 3) (started [] []) ?r"
    by (auto simp: numeral_3_eq_3)
  have stuck: "\<forall>r'. exec_step 0 ?r r' \<longrightarrow> child_step ?r r'"
    by (auto simp: started_def elim: exec_stepE)
  then obtain ms where "list_all is_output ms" "out_bytes TagStdout ms = []" "out_bytes TagStderr ms = []"
      "rn_sent ?r = wire_of ms"
    using exec_run_ends [OF steps] by (auto simp: started_def)
  then show ?thesis
    using steps stuck by (intro exI [of _ ?r]) (simp add: started_def)
qed

text \<open>
  C31: The child's standard input and signals arrive. The proxy sends its request and then relays its input, cut as its
  reads cut it, the end of the input, and signals, in any interleaving. Whatever it has sent so far, the executor runs
  the command, and its control loop, with all this read, has given the child the bytes relayed: all of them, or those
  its pipe took before the child broke it or stopped reading. Unless a write to that pipe waits for ever, the child
  got every signal relayed, in order, and its input is closed exactly when the proxy's has ended. When a write waits,
  no later signal reaches the child: those it got are the first ones, and nothing that follows changes this.
\<close>

theorem stdin_relayed:
  assumes "json_codec marshal unmarshal" and "utf8_request req" and "marshal req = Some body"
    and "length body \<le> MaxChunk * 16" and "sr_Argv req \<noteq> []"
    and "start (exec_command h rg req) = Some (out, err, werr)"
    and "WriteSpawnRequest marshal buf_write req [StreamKindExec] = (None, hdr)"
    and "relay_step\<^sup>*\<^sup>* \<lparr>rl_input = input, rl_signals = sigs, rl_ended = False, rl_sent = hdr\<rparr> r"
  shows "\<exists>relayed got c. relayed @ rl_input r = input \<and> got @ rl_signals r = sigs \<and>
    (\<forall>rest. serveExec unmarshal h rg start (tl (rl_sent r) @ rest) =
       Runs (exitCode werr) (started out err) (control_loop rest c)) \<and>
    (let p = h_stdin h (exec_command h rg req) in
     ci_stdin c = delivered p relayed \<and> (ci_stalled c \<longleftrightarrow> full_after p (length relayed)) \<and>
     (if ci_stalled c then prefix (ci_signals c) got \<and> (\<forall>rest. control_loop rest c = c)
      else ci_signals c = got \<and> (ci_closed c \<longleftrightarrow> rl_ended r)))"
proof -
  let ?p = "h_stdin h (exec_command h rg req)"
  let ?w = "be32 (word_of_nat (length body)) @ body"
  have hdr: "hdr = StreamKindExec # ?w"
    using assms(3,7) by (simp add: WriteSpawnRequest_def buf_write_def stream_result_def)
  have un: "unmarshal body = Some req"
    using assms(1-3) unfolding json_codec_def by fastforce
  have "length body < 2 ^ 32"
    using assms(4) by (simp add: MaxChunk_def)
  then have rd: "ReadSpawnRequest unmarshal buf_read (?w @ rest) = (Inr req, rest)" for rest
    using buf.ReadSpawnRequest_header [of "?w @ rest" "length body" body rest unmarshal] assms(4) un by auto
  obtain relayed got w c where c: "relayed @ rl_input r = input" "got @ rl_signals r = sigs" "rl_sent r = hdr @ w"
      "\<forall>rest. control_loop (w @ rest) (child_started ?p) = control_loop rest c"
      "ci_stdin c = delivered ?p relayed" "ci_stalled c \<longleftrightarrow> full_after ?p (length relayed)"
      "if ci_stalled c then prefix (ci_signals c) got
       else ci_signals c = got \<and> (ci_closed c \<longleftrightarrow> rl_ended r) \<and> ci_pipe c = pipe_left ?p (length relayed)"
    using relay_ok_reachable [OF assms(8), of ?p] unfolding relay_ok_def by blast
  have "serveExec unmarshal h rg start (tl (rl_sent r) @ rest) =
      Runs (exitCode werr) (started out err) (control_loop rest c)" for rest
    using rd [of "w @ rest"] c(3,4) assms(5,6) by (simp add: serveExec_def hdr)
  with c show ?thesis
    by (intro exI [of _ relayed] exI [of _ got] exI [of _ c]) (simp add: Let_def control_loop_stalled)
qed

text \<open>A child that takes two bytes of input and reads no more: a signal behind the third never reaches it.\<close>

theorem stdin_relayed_witness:
  "\<exists>r c. relay_step\<^sup>*\<^sup>* \<lparr>rl_input = [1, 2, 3], rl_signals = [15], rl_ended = False,
        rl_sent = snd (WriteSpawnRequest mark_request buf_write sample_spawn [StreamKindExec])\<rparr> r \<and> rl_input r = [] \<and>
     (\<forall>rest. serveExec unmark_request sample_host [] sample_start (tl (rl_sent r) @ rest) =
        Runs 259 (started [1, 2] [3]) c) \<and> ci_stdin c = [1, 2] \<and> ci_signals c = []"
proof -
  obtain body where body: "mark_request sample_spawn = Some body" by (simp add: mark_request_def)
  have utf8: "utf8_request sample_spawn"
    by (simp add: utf8_request_def sample_spawn_def bytes_of_str_def byte_of_char_def)
  have small: "length body \<le> MaxChunk * 16"
    using body by (auto simp: mark_request_def sample_spawn_def mark_str_def mark_strs_def MaxChunk_def)
  obtain hdr where hdr: "WriteSpawnRequest mark_request buf_write sample_spawn [StreamKindExec] = (None, hdr)"
    using body by (simp add: WriteSpawnRequest_def buf_write_def stream_result_def)
  let ?start = "\<lparr>rl_input = [1, 2, 3], rl_signals = [15], rl_ended = False, rl_sent = hdr\<rparr> :: relay"
  let ?after = "?start\<lparr>rl_input := [], rl_sent := snd (WriteChunk buf_write TagStdin [1, 2, 3] hdr)\<rparr>"
  have step: "relay_step\<^sup>*\<^sup>* ?start ?after"
    using relay_step.read [of ?start 3] by auto
  have argv: "sr_Argv sample_spawn \<noteq> []" by (simp add: sample_spawn_def)
  obtain c where c: "ci_stdin c = [1, 2]" "ci_stalled c" "prefix (ci_signals c) []" "\<forall>rest. control_loop rest c = c"
      "\<forall>rest. serveExec unmark_request sample_host [] sample_start (tl (rl_sent ?after) @ rest) =
         Runs 259 (started [1, 2] [3]) (control_loop rest c)"
    using stdin_relayed [where start = sample_start and h = sample_host and rg = "[]",
      OF mark_codec utf8 body small argv sample_start_runs hdr step]
    by (auto simp: sample_host_def exitCode_def Let_def)
  then show ?thesis
    using step hdr by (intro exI [of _ ?after] exI [of _ c]) simp
qed

text \<open>
  C34: A connection that breaks can look like success: when the stream ends after the five-byte
  header of the exit frame (or before any frame), \<open>io.ReadFull\<close> reports \<open>EOF\<close> for the missing payload
  and the proxy exits with 0, whatever the child's exit code was.
\<close>

theorem cut_exit_frame_is_success:
  "proxy_loop (take 5 (frame_bytes (msg_frame (Exit code)))) p = (0, p) \<and> proxy_loop [] p = (0, p)"
proof -
  have "take 5 (frame_bytes (msg_frame (Exit code))) = TagExit # be32 4"
    by (simp add: frame_bytes_def xframe_def msg_frame.simps)
  moreover have "un_be32 (be32 4) = 4" by simp
  ultimately have "ReadFrame buf_read (take 5 (frame_bytes (msg_frame (Exit code)))) = (Inl (ExecStream EOF), [])"
    by (simp add: ReadFrame_def buf_read_def MaxChunk_def)
  then show ?thesis
    by (simp add: proxy_loop.simps ReadFrame_end)
qed

end
