(* ===== verification/Executor.thy ===== *)
theory Executor
  imports FSService Conn SpawnProxy
begin

section \<open>The executor (internal/executor/executor.go)\<close>

text \<open>
  One stream of the executor: the kind byte, and for a filesystem stream the loop that reads a
  request, handles it and sends the response, with the handle table released at the end. The loop
  is \<open>serve_loop\<close>, shared with the adapter's connections, which have the same loop. A stream is
  what the peer sends before it closes its side (bytes) and a sink that may break.
\<close>

lemma buf_ReadRequest_shorter: "ReadRequest buf_read s = (Inr req, s') \<Longrightarrow> length s' < length s"
  by (auto simp: ReadRequest_def readFrame_def buf_read_def Let_def split: if_splits)

function serve_loop ::
    "(request \<Rightarrow> 's \<Rightarrow> response \<times> 's) \<Rightarrow> bytes \<Rightarrow> bufw \<times> sink \<Rightarrow> 's \<Rightarrow> (bufw \<times> sink) \<times> 's" where
  "serve_loop handle s c st =
     (case ConnReadRequest buf_read s of
        (Inl e, _) \<Rightarrow> (c, st)
      | (Inr req, s') \<Rightarrow>
          (let (resp, st) = handle req st in
           case SendResponse sink_write (rq_Op req) resp c of
             (Some e, c) \<Rightarrow> (c, st)
           | (None, c) \<Rightarrow> serve_loop handle s' c st))"
  by pat_completeness auto
termination
  by (relation "measure (\<lambda>(handle, s, c, st). length s)")
    (auto simp: ConnReadRequest_def dest!: buf_ReadRequest_shorter [OF sym])

declare serve_loop.simps [simp del]

text \<open>The order in which \<open>CloseAll\<close> walks a table is an argument: any enumeration of its handles.\<close>

definition range_order :: "((u64 \<Rightarrow> 'f option) \<Rightarrow> u64 list) \<Rightarrow> bool" where
  "range_order order \<longleftrightarrow> (\<forall>m. distinct (order m) \<and> set (order m) = dom m)"

definition serveFS ::
    "('f, 'w) os \<Rightarrow> ((u64 \<Rightarrow> 'f option) \<Rightarrow> u64 list) \<Rightarrow> bytes \<Rightarrow> sink \<Rightarrow> 'w \<Rightarrow> sink \<times> 'w" where
  "serveFS sys order s out w =
     (let ((b, out), fs, w) = serve_loop (fs_Handle sys) s (NewConn, out) (NewFSService, w);
          (fs, w) = CloseAll sys (order (fs_open fs)) (fs, w)
      in (out, w))"

text \<open>What the executor needs to run a stream: its host for files and for processes, and the options.\<close>

record ('f, 'w) executor =
  ex_os :: "('f, 'w) os"
  ex_order :: "(u64 \<Rightarrow> 'f option) \<Rightarrow> u64 list"
  ex_host :: host
  ex_unmarshal :: "bytes \<Rightarrow> spawn_request option"
  ex_start :: "command \<Rightarrow> (bytes \<times> bytes \<times> wait_error option) option"
  ex_embeddedRg :: string

definition SetEmbeddedRg :: "string \<Rightarrow> ('f, 'w) executor \<Rightarrow> ('f, 'w) executor" where
  "SetEmbeddedRg path e = e\<lparr>ex_embeddedRg := path\<rparr>"

datatype 'w served =
    Closed
  | ServedFS sink 'w
  | ServedExec exec_outcome

definition ex_handle :: "('f, 'w) executor \<Rightarrow> bytes \<Rightarrow> sink \<Rightarrow> 'w \<Rightarrow> 'w served" where
  "ex_handle e s out w =
     (case buf_read 1 s of
        (Inl err, _) \<Rightarrow> Closed
      | (Inr kind, s) \<Rightarrow>
          if kind ! 0 = StreamKindFS then
            (let (out, w) = serveFS (ex_os e) (ex_order e) s out w in ServedFS out w)
          else if kind ! 0 = StreamKindExec then
            ServedExec (serveExec (ex_unmarshal e) (ex_host e) (ex_embeddedRg e) (ex_start e) s)
          else Closed)"

subsection \<open>What the wire keeps of a request and of an answer\<close>

text \<open>The service looks only at the fields an operation encodes, and sets only those it encodes.\<close>

lemma relevant_Op [simp]: "rq_Op (relevant q) = rq_Op q"
  by (simp add: relevant_def Let_def request0_def)

text \<open>Each handler reads a few fields of the request.\<close>

lemma fs_handler_cong:
  "rq_Path q' = rq_Path q \<Longrightarrow> fs_stat sys q' = fs_stat sys q"
  "rq_Path q' = rq_Path q \<Longrightarrow> fs_readdir sys q' = fs_readdir sys q"
  "rq_Path q' = rq_Path q \<Longrightarrow> openWithMode sys q' fl pm = openWithMode sys q fl pm"
  "rq_Handle q' = rq_Handle q \<Longrightarrow> rq_Len q' = rq_Len q \<Longrightarrow> rq_Off q' = rq_Off q \<Longrightarrow> fs_pread sys q' = fs_pread sys q"
  "rq_Handle q' = rq_Handle q \<Longrightarrow> rq_Data q' = rq_Data q \<Longrightarrow> rq_Off q' = rq_Off q \<Longrightarrow> fs_pwrite sys q' = fs_pwrite sys q"
  "rq_Path q' = rq_Path q \<Longrightarrow> rq_Data q' = rq_Data q \<Longrightarrow> fs_writeFile sys q' = fs_writeFile sys q"
  "rq_Handle q' = rq_Handle q \<Longrightarrow> fs_close sys q' = fs_close sys q"
  "rq_Path q' = rq_Path q \<Longrightarrow> rq_Flags q' = rq_Flags q \<Longrightarrow> fs_unlink sys q' = fs_unlink sys q"
  "rq_Path q' = rq_Path q \<Longrightarrow> rq_Mode q' = rq_Mode q \<Longrightarrow> fs_mkdir sys q' = fs_mkdir sys q"
  "rq_Path q' = rq_Path q \<Longrightarrow> rq_Path2 q' = rq_Path2 q \<Longrightarrow> fs_rename sys q' = fs_rename sys q"
  by (simp_all only: fs_defs)

lemma fs_setattr_cong:
  assumes "rq_Path q' = rq_Path q" "rq_Mask q' = rq_Mask q" "rq_Mode q' = rq_Mode q"
    "rq_Size q' = rq_Size q" "rq_Atime q' = rq_Atime q" "rq_Mtime q' = rq_Mtime q"
  shows "fs_setattr sys q' = fs_setattr sys q"
  unfolding fs_setattr_def setattr_mode_def setattr_size_def setattr_times_def assms ..

lemma relevant_open_fields:
  "rq_Op q = OpOpen \<or> rq_Op q = OpCreate \<Longrightarrow> rq_Path (relevant q) = rq_Path q \<and> rq_Flags (relevant q) = rq_Flags q"
  "rq_Op q = OpCreate \<Longrightarrow> rq_Mode (relevant q) = rq_Mode q"
  by (auto simp: relevant_def request0_def)

lemma fs_handler_relevant:
  "rq_Op q = OpStat \<Longrightarrow> fs_stat sys (relevant q) = fs_stat sys q"
  "rq_Op q = OpReaddir \<Longrightarrow> fs_readdir sys (relevant q) = fs_readdir sys q"
  "rq_Op q = OpPread \<Longrightarrow> fs_pread sys (relevant q) = fs_pread sys q"
  "rq_Op q = OpPwrite \<Longrightarrow> fs_pwrite sys (relevant q) = fs_pwrite sys q"
  "rq_Op q = OpWriteFile \<Longrightarrow> fs_writeFile sys (relevant q) = fs_writeFile sys q"
  "rq_Op q = OpClose \<Longrightarrow> fs_close sys (relevant q) = fs_close sys q"
  "rq_Op q = OpUnlink \<Longrightarrow> fs_unlink sys (relevant q) = fs_unlink sys q"
  "rq_Op q = OpMkdir \<Longrightarrow> fs_mkdir sys (relevant q) = fs_mkdir sys q"
  "rq_Op q = OpRename \<Longrightarrow> fs_rename sys (relevant q) = fs_rename sys q"
  by (rule fs_handler_cong; simp add: relevant_def request0_def)+

lemma fs_setattr_relevant: "rq_Op q = OpSetattr \<Longrightarrow> fs_setattr sys (relevant q) = fs_setattr sys q"
  by (rule fs_setattr_cong) (simp_all add: relevant_def request0_def)

lemma fs_open_relevant:
  "rq_Op q = OpOpen \<Longrightarrow> fs_openFile sys (relevant q) = fs_openFile sys q"
  "rq_Op q = OpCreate \<Longrightarrow> fs_create sys (relevant q) = fs_create sys q"
  unfolding fs_openFile_def fs_create_def
  by (simp_all only: relevant_open_fields simp_thms) (rule fs_handler_cong, simp add: relevant_open_fields)+

lemma fs_Handle_relevant: "fs_Handle sys (relevant q) = fs_Handle sys q"
  unfolding fs_Handle_def Let_def relevant_Op
  by (simp add: fs_handler_relevant fs_setattr_relevant fs_open_relevant)

lemma run_relevant: "run (fs_Handle sys) (map relevant qs) st = run (fs_Handle sys) qs st"
  by (induction qs arbitrary: st) (simp_all add: fs_Handle_relevant)

lemma relevant_response_error: "rs_Err r \<noteq> 0 \<Longrightarrow> relevant_response opc r = response0 (rs_Err r)"
  by (simp add: relevant_response_def)

lemma relevant_response_errno: "relevant_response opc (response0 e) = response0 e"
  by (cases "e = 0") (auto simp: relevant_response_def Let_def response0_def)

lemma relevant_response_err [simp]: "relevant_response opc (err_response e) = err_response e"
  by (simp add: err_response_def relevant_response_errno)

lemma relevant_response_done [simp]: "relevant_response opc (done_response c) = done_response c"
  by (cases c) (simp_all add: done_response_def relevant_response_errno)

lemma pad_types_same: "length ts = length ns \<Longrightarrow> pad_types ns ts = ts"
  by (induction ns arbitrary: ts) (auto simp: length_Suc_conv)

text \<open>The successful answers.\<close>

lemma relevant_response_ok:
  "relevant_response OpStat ((response0 0)\<lparr>rs_Mode := m, rs_Size := z, rs_Mtime := t\<rparr>) =
     (response0 0)\<lparr>rs_Mode := m, rs_Size := z, rs_Mtime := t\<rparr>"
  "opc = OpOpen \<or> opc = OpCreate \<Longrightarrow>
     relevant_response opc ((response0 0)\<lparr>rs_Mode := m, rs_Size := z, rs_Handle := h, rs_Mtime := t\<rparr>) =
       (response0 0)\<lparr>rs_Mode := m, rs_Size := z, rs_Handle := h, rs_Mtime := t\<rparr>"
  "relevant_response OpPread ((response0 0)\<lparr>rs_Data := d\<rparr>) = (response0 0)\<lparr>rs_Data := d\<rparr>"
  "relevant_response OpPwrite ((response0 0)\<lparr>rs_Size := z\<rparr>) = (response0 0)\<lparr>rs_Size := z\<rparr>"
  "length ts = length ns \<Longrightarrow> relevant_response OpReaddir ((response0 0)\<lparr>rs_Names := ns, rs_Types := ts\<rparr>) =
     (response0 0)\<lparr>rs_Names := ns, rs_Types := ts\<rparr>"
  "relevant_response OpServerInfo ((response0 0)\<lparr>rs_OS := os, rs_Arch := a\<rparr>) =
     (response0 0)\<lparr>rs_OS := os, rs_Arch := a\<rparr>"
  by (auto simp: relevant_response_def Let_def response0_def pad_types_same)

lemma relevant_response_handlers:
  "relevant_response OpStat (fst (fs_stat sys q (s, w))) = fst (fs_stat sys q (s, w))"
  "opc = OpOpen \<or> opc = OpCreate \<Longrightarrow>
     relevant_response opc (fst (openWithMode sys q fl pm (s, w))) = fst (openWithMode sys q fl pm (s, w))"
  "relevant_response OpPread (fst (fs_pread sys q (s, w))) = fst (fs_pread sys q (s, w))"
  "relevant_response opc (fst (fs_writeFile sys q (s, w))) = fst (fs_writeFile sys q (s, w))"
  "relevant_response opc (fst (fs_close sys q (s, w))) = fst (fs_close sys q (s, w))"
  "relevant_response OpReaddir (fst (fs_readdir sys q (s, w))) = fst (fs_readdir sys q (s, w))"
  "relevant_response OpPwrite (fst (fs_pwrite sys q (s, w))) = fst (fs_pwrite sys q (s, w))"
  "relevant_response opc (fst (fs_unlink sys q (s, w))) = fst (fs_unlink sys q (s, w))"
  "relevant_response opc (fst (fs_mkdir sys q (s, w))) = fst (fs_mkdir sys q (s, w))"
  "relevant_response opc (fst (fs_rename sys q (s, w))) = fst (fs_rename sys q (s, w))"
  "relevant_response opc (fst (fs_setattr sys q (s, w))) = fst (fs_setattr sys q (s, w))"
  by (simp_all add: fs_defs Let_def relevant_response_errno relevant_response_ok
      split: prod.split sum.split option.split)

lemma fs_response_relevant:
  assumes "fs_Handle sys q st = (r, st')"
  shows "relevant_response (rq_Op q) r = r"
proof -
  obtain s w where st: "st = (s, w)" by fastforce
  have "r = fst (fs_Handle sys q (s, w))"
    using assms by (simp add: st)
  then show ?thesis
    by (simp add: fs_Handle_def Let_def relevant_response_handlers relevant_response_ok fs_openFile_def fs_create_def
        relevant_response_errno)
qed

lemma run_responses_relevant:
  "run (fs_Handle sys) qs st = (rs, st') \<Longrightarrow> map2 (\<lambda>q r. relevant_response (rq_Op q) r) qs rs = rs"
  by (induction qs arbitrary: st rs) (auto simp: Let_def fs_response_relevant split: prod.splits)

subsection \<open>The loop as a run of the handler\<close>

text \<open>Whatever the bytes, the loop is a run of the handler on some requests, each at least a frame.\<close>

lemma serve_loop_run:
  "serve_loop handle s c st = (c', st') \<Longrightarrow> \<exists>qs. snd (run handle qs st) = st' \<and> length qs \<le> length s"
proof (induction handle s c st arbitrary: c' st' rule: serve_loop.induct)
  case (1 handle s c st)
  obtain r s' where rd: "ConnReadRequest buf_read s = (r, s')" by fastforce
  show ?case
  proof (cases r)
    case (Inl e)
    with 1(2) rd show ?thesis
      by (intro exI [of _ "[]"]) (simp add: serve_loop.simps [of handle s])
  next
    case (Inr req)
    obtain resp st1 where h: "handle req st = (resp, st1)" by fastforce
    obtain e c1 where send: "SendResponse sink_write (rq_Op req) resp c = (e, c1)" by (metis surj_pair)
    have len: "length s' < length s"
      using rd Inr buf_ReadRequest_shorter by (simp add: ConnReadRequest_def)
    show ?thesis
    proof (cases e)
      case (Some x)
      with 1(2) rd Inr h send show ?thesis
        using len by (intro exI [of _ "[req]"]) (auto simp: serve_loop.simps [of handle s])
    next
      case None
      then have "serve_loop handle s' c1 st1 = (c', st')"
        using 1(2) rd Inr h send by (simp add: serve_loop.simps [of handle s])
      then obtain qs where "snd (run handle qs st1) = st'" "length qs \<le> length s'"
        using 1(1) [OF rd [symmetric] Inr h [symmetric] refl send [symmetric] None] by blast
      with h len show ?thesis
        by (intro exI [of _ "req # qs"]) (simp add: case_prod_beta)
    qed
  qed
qed

text \<open>A peer that sends requests and takes the responses.\<close>

definition requests_wire :: "request list \<Rightarrow> bytes option" where
  "requests_wire qs =
     (if list_all (\<lambda>q. case encodeRequest q of Inl _ \<Rightarrow> False | Inr b \<Rightarrow> length b \<le> MaxFrame) qs
      then Some (concat (map (\<lambda>q. case encodeRequest q of Inl _ \<Rightarrow> [] | Inr b \<Rightarrow> frame b) qs))
      else None)"

lemma requests_wire_Cons:
  "requests_wire (q # qs) = Some s \<longleftrightarrow>
     (\<exists>b s'. encodeRequest q = Inr b \<and> length b \<le> MaxFrame \<and> requests_wire qs = Some s' \<and> s = frame b @ s')"
  by (auto simp: requests_wire_def split: sum.splits)

lemma ReadRequest_wire:
  "encodeRequest q = Inr b \<Longrightarrow> length b \<le> MaxFrame \<Longrightarrow>
   ReadRequest buf_read (frame b @ rest) = (Inr (relevant q), rest)"
  using buf.ReadRequest_frame [OF refl, of b rest] decodeRequest_encodeRequest [of q b "[]"] MaxFrame_lt [of "length b"]
  by simp

definition responses_fit :: "request list \<Rightarrow> response list \<Rightarrow> bool" where
  "responses_fit qs rs \<longleftrightarrow> list_all2 (\<lambda>q r. length (encodeResponse (rq_Op q) r) \<le> MaxFrame) qs rs"

definition responses_wire :: "request list \<Rightarrow> response list \<Rightarrow> bytes" where
  "responses_wire qs rs = concat (map2 (\<lambda>q r. frame (encodeResponse (rq_Op q) r)) qs rs)"

text \<open>Sending to a peer that takes everything leaves the buffer empty and the frame delivered.\<close>

lemma open_sink_write: "sk_room s = None \<Longrightarrow> sink_write bs s = (None, s\<lparr>sk_out := sk_out s @ bs\<rparr>)"
  by (simp add: sink_write_def)

lemma open_bufio_Flush:
  "bw_err b = None \<Longrightarrow> sk_room s = None \<Longrightarrow> \<exists>b' s'. bufio_Flush sink_write (b, s) = (None, b', s') \<and> sk_room s' = None"
  by (auto simp: bufio_Flush_def open_sink_write)

lemma open_bufio_Write:
  "bw_err b = None \<Longrightarrow> sk_room s = None \<Longrightarrow> \<exists>b' s'. bufio_Write sink_write p (b, s) = (None, b', s') \<and> sk_room s' = None"
  by (auto simp: bufio_Write_def bufio_Flush_def open_sink_write Let_def)

lemma open_SendResponse:
  assumes "sk_room s = None" and "length (encodeResponse opc resp) \<le> MaxFrame"
  shows "SendResponse sink_write opc resp (NewConn, s) =
    (None, NewConn, s\<lparr>sk_out := sk_out s @ frame (encodeResponse opc resp)\<rparr>)"
proof -
  let ?body = "encodeResponse opc resp"
  have err: "bw_err NewConn = None" by (simp add: NewConn_def)
  obtain b1 s1 where h: "bufio_Write sink_write (be32 (word_of_nat (length ?body))) (NewConn, s) = (None, b1, s1)"
      "sk_room s1 = None"
    using open_bufio_Write [OF err assms(1)] by blast
  then have "bw_err b1 = None" using peer_sink.bufio_Write_ok by blast
  then obtain b2 s2 where w: "bufio_Write sink_write ?body (b1, s1) = (None, b2, s2)" "sk_room s2 = None"
    using open_bufio_Write h(2) by blast
  then have "bw_err b2 = None" using peer_sink.bufio_Write_ok by blast
  then obtain b3 s3 where f: "bufio_Flush sink_write (b2, s2) = (None, b3, s3)" "sk_room s3 = None"
    using open_bufio_Flush w(2) by blast
  have send: "SendResponse sink_write opc resp (NewConn, s) = (None, b3, s3)"
    using h w f assms(2) by (simp add: SendResponse_def WriteResponse_def writeFrame_def)
  from peer_sink.SendResponse_ok [OF send] f(2) assms(1)
  have "b3 = NewConn" "s3 = s\<lparr>sk_out := sk_out s @ frame ?body\<rparr>"
    by (simp_all add: NewConn_def)
  with send show ?thesis by simp
qed

lemma serve_loop_requests:
  "requests_wire qs = Some s \<Longrightarrow> run handle (map relevant qs) st = (rs, st') \<Longrightarrow> responses_fit qs rs \<Longrightarrow>
   sk_room out = None \<Longrightarrow>
   serve_loop handle s (NewConn, out) st =
     ((NewConn, out\<lparr>sk_out := sk_out out @ responses_wire qs rs\<rparr>), st')"
proof (induction qs arbitrary: s st rs out)
  case Nil
  then show ?case
    by (simp add: requests_wire_def responses_wire_def serve_loop.simps ConnReadRequest_def
        ReadRequest_def readFrame_def buf_read_def)
next
  case (Cons q qs)
  obtain b s' where q: "encodeRequest q = Inr b" "length b \<le> MaxFrame" "requests_wire qs = Some s'" "s = frame b @ s'"
    using Cons.prems(1) by (auto simp: requests_wire_Cons)
  obtain r st1 where h: "handle (relevant q) st = (r, st1)" by fastforce
  obtain rs1 where rs: "run handle (map relevant qs) st1 = (rs1, st')" "rs = r # rs1"
    using Cons.prems(2) h by (auto split: prod.splits)
  have opq: "rq_Op (relevant q) = rq_Op q"
    by (simp add: relevant_def Let_def request0_def)
  have fit: "length (encodeResponse (rq_Op q) r) \<le> MaxFrame" "responses_fit qs rs1"
    using Cons.prems(3) by (auto simp: rs(2) responses_fit_def)
  let ?out = "out\<lparr>sk_out := sk_out out @ frame (encodeResponse (rq_Op q) r)\<rparr>"
  have "serve_loop handle s (NewConn, out) st = serve_loop handle s' (NewConn, ?out) st1"
    using ReadRequest_wire [OF q(1,2)] h open_SendResponse [OF Cons.prems(4) fit(1)]
    by (subst serve_loop.simps) (simp add: ConnReadRequest_def q(4) opq)
  also have "\<dots> = ((NewConn, ?out\<lparr>sk_out := sk_out ?out @ responses_wire qs rs1\<rparr>), st')"
    using Cons.prems(4) by (intro Cons.IH [OF q(3) rs(1) fit(2)]) simp
  finally show ?case
    by (simp add: responses_wire_def rs(2))
qed

text \<open>The client: it reads one response per request, for the operation it sent.\<close>

fun read_responses :: "op list \<Rightarrow> bytes \<Rightarrow> (proto_error + response list) \<times> bytes" where
  "read_responses [] s = (Inr [], s)"
| "read_responses (opc # ops) s =
     (case ConnReadResponse buf_read opc s of
        (Inl e, s) \<Rightarrow> (Inl e, s)
      | (Inr r, s) \<Rightarrow>
          (case read_responses ops s of
             (Inl e, s) \<Rightarrow> (Inl e, s)
           | (Inr rs, s) \<Rightarrow> (Inr (r # rs), s)))"

lemma ReadResponse_wire:
  "length (encodeResponse opc r) \<le> MaxFrame \<Longrightarrow>
   ReadResponse buf_read opc (frame (encodeResponse opc r) @ rest) = (Inr (relevant_response opc r), rest)"
  using buf.ReadResponse_frame [OF refl, where body = "encodeResponse opc r" and rest = rest and opc = opc]
    decodeResponse_encodeResponse [of opc r "[]"] MaxFrame_lt [of "length (encodeResponse opc r)"]
  by simp

lemma read_responses_wire:
  "responses_fit qs rs \<Longrightarrow> read_responses (map rq_Op qs) (responses_wire qs rs) =
     (Inr (map2 (\<lambda>q r. relevant_response (rq_Op q) r) qs rs), [])"
proof (induction qs rs rule: list_induct2')
  case (4 q qs r rs)
  then have fit: "length (encodeResponse (rq_Op q) r) \<le> MaxFrame" "responses_fit qs rs"
    by (simp_all add: responses_fit_def)
  with 4 ReadResponse_wire [OF fit(1), of "responses_wire qs rs"] show ?case
    by (simp add: responses_wire_def ConnReadResponse_def)
qed (simp_all add: responses_fit_def responses_wire_def)

subsection \<open>Properties\<close>

text \<open>
  A filesystem stream is the service, message by message: when a client writes any requests
  that encode and the responses fit in a frame, the executor writes back bytes from which the client
  reads, in order, exactly the responses of one \<open>FSService\<close> run on these requests.
\<close>

theorem serveFS_refines_service:
  assumes "requests_wire qs = Some s"
    and "run (fs_Handle sys) qs (NewFSService, w) = (rs, st)" and "responses_fit qs rs"
  shows "read_responses (map rq_Op qs) (sk_out (fst (serveFS sys order s \<lparr>sk_out = [], sk_room = None\<rparr> w))) =
    (Inr rs, [])"
proof -
  have "serve_loop (fs_Handle sys) s (NewConn, \<lparr>sk_out = [], sk_room = None\<rparr>) (NewFSService, w) =
      ((NewConn, \<lparr>sk_out = responses_wire qs rs, sk_room = None\<rparr>), st)"
    using serve_loop_requests [OF assms(1) _ assms(3), of "fs_Handle sys" "(NewFSService, w)" st
        "\<lparr>sk_out = [], sk_room = None\<rparr>"] assms(2) by (simp add: run_relevant)
  then have "sk_out (fst (serveFS sys order s \<lparr>sk_out = [], sk_room = None\<rparr> w)) = responses_wire qs rs"
    by (simp add: serveFS_def case_prod_beta)
  with read_responses_wire [OF assms(3)] run_responses_relevant [OF assms(2)] show ?thesis by simp
qed

lemma sample_reopen_encoded:
  "encodeRequest ((request0 OpOpen)\<lparr>rq_Path := ''/w/f''\<rparr>) = Inr (OpOpen # be32 0 @ enc_str ''/w/f'')"
  by (simp add: encodeRequest_def request0_def put_simps)

lemma sample_reopen_wire:
  "requests_wire sample_reopen = Some (frame (OpOpen # be32 0 @ enc_str ''/w/f''))"
  by (simp add: sample_reopen_def requests_wire_def sample_reopen_encoded MaxFrame_def)

text \<open>One order in which the runtime may visit the table of open files.\<close>

definition sorted_order :: "(u64 \<Rightarrow> nat option) \<Rightarrow> u64 list" where
  "sorted_order m = sorted_list_of_set (dom m)"

lemma range_order_sorted: "range_order sorted_order"
  by (simp add: range_order_def sorted_order_def)

theorem serveFS_refines_service_witness:
  "read_responses [OpOpen] (sk_out (fst (serveFS memos sorted_order
      (frame (OpOpen # be32 0 @ enc_str ''/w/f'')) \<lparr>sk_out = [], sk_room = None\<rparr> sample_world))) =
    (Inr [(response0 0)\<lparr>rs_Mode := 0x81A4, rs_Size := 5, rs_Handle := 1, rs_Mtime := 9\<rparr>], [])"
proof -
  have "responses_fit sample_reopen
      [(response0 0)\<lparr>rs_Mode := 0x81A4, rs_Size := 5, rs_Handle := 1, rs_Mtime := 9\<rparr>]"
    by (simp add: responses_fit_def sample_reopen_def encodeResponse_def request0_def response0_def
        put_simps MaxFrame_def)
  from serveFS_refines_service [OF sample_reopen_wire sample_reopen_run this]
  show ?thesis
    by (simp add: sample_reopen_def request0_def)
qed

text \<open>
  No stream leaks an open file: whatever bytes a peer sends (garbage, a cut frame, any requests)
  and wherever it stops taking responses, when \<open>serveFS\<close> returns the host has exactly the files open
  that were open before.
\<close>

theorem serveFS_no_leak:
  assumes "os_tracks sys opened" and "range_order order" and "length s < 2 ^ 64 - 1"
  shows "opened (snd (serveFS sys order s out w)) = opened w"
proof -
  obtain c fs w1 where loop: "serve_loop (fs_Handle sys) s (NewConn, out) (NewFSService, w) = (c, fs, w1)"
    by (metis prod_cases3)
  obtain qs where qs: "snd (run (fs_Handle sys) qs (NewFSService, w)) = (fs, w1)" "length qs \<le> length s"
    using serve_loop_run [OF loop] by blast
  obtain rs where run: "run (fs_Handle sys) qs (NewFSService, w) = (rs, fs, w1)"
    using qs(1) by (metis prod.collapse)
  obtain fs' w' where cl: "CloseAll sys (order (fs_open fs)) (fs, w1) = (fs', w')" by fastforce
  have "fs_owns opened (opened w) (fs, w1)"
    using qs(2) assms(3) by (intro fs_run_owns [OF assms(1) run]) (simp_all add: fs_owns_def)
  then have "opened w' = opened w"
    using CloseAll_owns [OF assms(1) _ _ cl] assms(2) by (simp add: range_order_def)
  with loop cl show ?thesis by (simp add: serveFS_def case_prod_beta)
qed

theorem serveFS_no_leak_witness:
  "mem_opened (snd (serveFS memos sorted_order
     (frame (OpOpen # be32 0 @ enc_str ''/w/f'') @ [0, 0]) \<lparr>sk_out = [], sk_room = Some 3\<rparr> sample_world)) = {}"
proof -
  have "mem_opened sample_world = {}"
    by (simp add: sample_world_def mem_opened_def)
  then show ?thesis
    by (subst serveFS_no_leak [OF memos_tracks range_order_sorted]) simp_all
qed

end
