(* ===== verification/Routing.thy ===== *)
theory Routing
  imports GoPath
begin

section \<open>Routing (internal/routing/routing.go)\<close>

text \<open>
  The routing table: which paths go to the executor. \<open>New\<close> cleans the prefixes, \<open>IsRemote\<close>
  cleans the path and compares strings; the lemmas show what this means on path elements.
\<close>

datatype Mode = ModeRemoteAllowlist | ModeLocalAllowlist

record Table =
  tb_mode :: Mode
  tb_remotePrefixes :: "string list"
  tb_localPrefixes :: "string list"

fun cleanPrefixes :: "string list \<Rightarrow> string list" where
  "cleanPrefixes [] = []"
| "cleanPrefixes (p # ps) =
     (let p = TrimSpace p in if p = [] then cleanPrefixes ps else Clean p # cleanPrefixes ps)"

definition New :: "Mode \<Rightarrow> string list \<Rightarrow> string list \<Rightarrow> Table" where
  "New mode remotePrefixes localPrefixes =
     \<lparr>tb_mode = mode, tb_remotePrefixes = cleanPrefixes remotePrefixes,
      tb_localPrefixes = cleanPrefixes localPrefixes\<rparr>"

fun matchesAny :: "string \<Rightarrow> string list \<Rightarrow> bool" where
  "matchesAny clean [] = False"
| "matchesAny clean (pre # ps) =
     (if clean = pre then True
      else if HasPrefix clean (pre @ ''/'') then True
      else matchesAny clean ps)"

definition IsRemote :: "Table \<Rightarrow> string \<Rightarrow> bool" where
  "IsRemote t path =
     (if path = [] then tb_mode t = ModeLocalAllowlist
      else let clean = Clean path in
        case tb_mode t of
          ModeLocalAllowlist \<Rightarrow> \<not> matchesAny clean (tb_localPrefixes t)
        | ModeRemoteAllowlist \<Rightarrow> matchesAny clean (tb_remotePrefixes t))"

definition RemotePrefixes :: "Table \<Rightarrow> string list" where
  "RemotePrefixes t = [] @ tb_remotePrefixes t"

definition LocalPrefixes :: "Table \<Rightarrow> string list" where
  "LocalPrefixes t = [] @ tb_localPrefixes t"

definition TableMode :: "Table \<Rightarrow> Mode" where
  "TableMode t = tb_mode t"

subsection \<open>Lemmas\<close>

lemma matchesAny_iff: "matchesAny clean ps \<longleftrightarrow> (\<exists>pre \<in> set ps. clean = pre \<or> HasPrefix clean (pre @ ''/''))"
  by (induction ps) auto

lemma set_cleanPrefixes: "set (cleanPrefixes ps) = {Clean (TrimSpace p) |p. p \<in> set ps \<and> TrimSpace p \<noteq> []}"
  by (induction ps) (auto simp: Let_def)

lemma cleanPrefixes_append: "cleanPrefixes (xs @ ys) = cleanPrefixes xs @ cleanPrefixes ys"
  by (induction xs) (auto simp: Let_def)

lemma matchesAny_mono:
  "set ps \<subseteq> set qs \<Longrightarrow> matchesAny clean (cleanPrefixes ps) \<Longrightarrow> matchesAny clean (cleanPrefixes qs)"
  unfolding matchesAny_iff set_cleanPrefixes by blast

text \<open>A prefix that names a directory below the root.\<close>

definition proper_prefix :: "string \<Rightarrow> bool" where
  "proper_prefix p \<longleftrightarrow>
     (let p = TrimSpace p in p = [] \<or> rooted_path p \<and> path_elems p \<noteq> [])"

text \<open>The specification: some prefix names a directory on the way to the path.\<close>

definition covered :: "string list \<Rightarrow> string \<Rightarrow> bool" where
  "covered ps path \<longleftrightarrow>
     (\<exists>p \<in> set ps. TrimSpace p \<noteq> [] \<and> prefix (path_elems (TrimSpace p)) (path_elems path))"

lemma matchesAny_covered:
  assumes "rooted_path path" and "list_all proper_prefix ps"
  shows "matchesAny (Clean path) (cleanPrefixes ps) \<longleftrightarrow> covered ps path"
proof -
  have "(Clean path = Clean (TrimSpace p) \<or> HasPrefix (Clean path) (Clean (TrimSpace p) @ ''/'')) \<longleftrightarrow>
      prefix (path_elems (TrimSpace p)) (path_elems path)"
    if "p \<in> set ps" and "TrimSpace p \<noteq> []" for p
    using that assms by (intro nested_iff_prefix) (auto simp: list_all_iff proper_prefix_def Let_def)
  then show ?thesis
    unfolding matchesAny_iff set_cleanPrefixes covered_def by blast
qed

lemma IsRemote_allow:
  "path \<noteq> [] \<Longrightarrow> IsRemote (New ModeRemoteAllowlist rs ls) path = matchesAny (Clean path) (cleanPrefixes rs)"
  by (simp add: IsRemote_def New_def)

subsection \<open>Properties\<close>

text \<open>
  C7: For a table made by \<open>New\<close> from prefixes that name directories below the root, the string
  comparison of \<open>IsRemote\<close> decides by path elements: a rooted path is on the listed side exactly
  when some prefix is one of its ancestors or the path itself, so \<open>/work\<close> covers \<open>/work/a\<close> and
  \<open>/work/x/../a/\<close> and not \<open>/workspace\<close>; the other paths go to the default side of the mode.
\<close>

theorem IsRemote_by_elements:
  assumes "rooted_path path" and "list_all proper_prefix rs" and "list_all proper_prefix ls"
  shows "IsRemote (New mode rs ls) path =
    (case mode of ModeRemoteAllowlist \<Rightarrow> covered rs path | ModeLocalAllowlist \<Rightarrow> \<not> covered ls path)"
  using assms matchesAny_covered [OF assms(1)]
  by (cases mode) (auto simp: IsRemote_def New_def rooted_path_def)

lemma TrimSpace_work: "TrimSpace ''/work/'' = ''/work/''"
  by (rule TrimSpace_graphic) (simp add: graphic_def)

lemma sample_elems:
  "path_elems ''/work/'' = [''work'']"
  "path_elems ''/work/x/../a'' = [''work'', ''a'']"
  "path_elems ''/workspace'' = [''workspace'']"
  by (simp_all add: path_elems_def clean_elems_def push_elem_def rooted_path_def elems.simps)

theorem IsRemote_by_elements_witness:
  "IsRemote (New ModeRemoteAllowlist [''/work/''] []) ''/work/x/../a'' \<and>
   \<not> IsRemote (New ModeRemoteAllowlist [''/work/''] []) ''/workspace''"
proof -
  have "list_all proper_prefix [''/work/'']"
    by (simp add: proper_prefix_def TrimSpace_work sample_elems rooted_path_def)
  then show ?thesis
    using IsRemote_by_elements [of "''/work/x/../a''" "[''/work/'']" "[]" ModeRemoteAllowlist]
      IsRemote_by_elements [of "''/workspace''" "[''/work/'']" "[]" ModeRemoteAllowlist]
    by (simp add: rooted_path_def covered_def TrimSpace_work sample_elems)
qed

text \<open>
  The decision depends on the cleaned path only: a path that is not empty and its
  \<open>filepath.Clean\<close> form go to the same side in every mode, so a caller that cleans its paths first
  (as the native interceptor does) agrees with one that does not.
\<close>

theorem IsRemote_Clean: "path \<noteq> [] \<Longrightarrow> IsRemote t (Clean path) = IsRemote t path"
  by (simp add: IsRemote_def)

theorem IsRemote_Clean_witness:
  "IsRemote (New ModeRemoteAllowlist [''/work/''] []) (Clean ''/work/x/../a'') =
   IsRemote (New ModeRemoteAllowlist [''/work/''] []) ''/work/x/../a''"
  by (rule IsRemote_Clean) simp

text \<open>
  A routed directory is routed with everything below it: when a rooted path is remote under
  the remote allowlist, so is every path obtained by going down from it.
\<close>

theorem IsRemote_subtree:
  assumes "rooted_path path" and "list_all proper_prefix rs"
    and "IsRemote (New ModeRemoteAllowlist rs ls) path" and "''..'' \<notin> set (elems sub)"
  shows "IsRemote (New ModeRemoteAllowlist rs ls) (path @ ''/'' @ sub)"
proof -
  have "covered rs path"
    using assms matchesAny_covered [OF assms(1,2)] by (simp add: IsRemote_def New_def rooted_path_def)
  then have "covered rs (path @ ''/'' @ sub)"
    using path_elems_append [OF assms(1,4)] by (auto simp: covered_def)
  moreover have "rooted_path (path @ ''/'' @ sub)"
    using assms(1) by (simp add: rooted_path_def)
  ultimately show ?thesis
    using matchesAny_covered [OF _ assms(2)] by (auto simp: IsRemote_def New_def)
qed

theorem IsRemote_subtree_witness:
  "IsRemote (New ModeRemoteAllowlist [''/work/''] []) (''/work/x/../a'' @ ''/'' @ ''b/c'')"
proof (rule IsRemote_subtree)
  show "list_all proper_prefix [''/work/'']"
    by (simp add: proper_prefix_def TrimSpace_work sample_elems rooted_path_def)
  then show "IsRemote (New ModeRemoteAllowlist [''/work/''] []) ''/work/x/../a''"
    using matchesAny_covered [of "''/work/x/../a''" "[''/work/'']"]
    by (simp add: IsRemote_allow rooted_path_def covered_def TrimSpace_work sample_elems
        del: matchesAny.simps cleanPrefixes.simps)
qed (simp_all add: rooted_path_def elems.simps)

text \<open>
  C33: The root cannot be listed: with the single remote prefix \<open>/\<close>, which should cover every
  path, the code compares with \<open>//\<close> and routes only the root itself.
\<close>

theorem IsRemote_root_prefix:
  "IsRemote (New ModeRemoteAllowlist [''/''] ls) (CHR ''/'' # p) \<longleftrightarrow> path_elems (CHR ''/'' # p) = []"
proof -
  let ?p = "CHR ''/'' # p"
  have "TrimSpace ''/'' = ''/''"
    by (rule TrimSpace_graphic) (simp add: graphic_def)
  moreover have "path_elems ''/'' = []"
    by (simp add: path_elems_def clean_elems_def)
  ultimately have pre: "cleanPrefixes [''/''] = [''/'']"
    using Clean_rooted [of "''/''"] by (simp add: rooted_path_def render_def)
  have p: "Clean ?p = CHR ''/'' # Join (path_elems ?p) ''/''"
    using Clean_rooted [of ?p] by (simp add: rooted_path_def render_def)
  have "\<not> HasPrefix (Join (path_elems ?p) ''/'') ''/''"
    using path_elems_good [of ?p]
    by (cases "path_elems ?p"; cases "hd (path_elems ?p)"; cases "tl (path_elems ?p)")
      (auto simp: HasPrefix_iff good_elem_def)
  then show ?thesis
    using path_elems_good [of ?p] Join_Nil_iff [of "path_elems ?p" "''/''"]
    by (auto simp: IsRemote_allow pre p HasPrefix_iff list_all_iff good_elem_def simp del: cleanPrefixes.simps)
qed

end
