(* ===== verification/Adapter.thy ===== *)
theory Adapter
  imports Executor Routing
begin

section \<open>The adapter (internal/adapter/adapter.go)\<close>

text \<open>
  One interceptor connection of the adapter: the session with its handle table, the routing of each
  request to the local service or to the executor, and the lazily dialed connection to the executor.
  The transport is the record \<open>link\<close> (\<open>transport.Dialer\<close> and \<open>transport.Stream\<close>), acting on a world that
  also holds the local host.
\<close>

record ('c, 'w) link =
  lk_dial :: "'w \<Rightarrow> 'c option \<times> 'w"
  lk_write :: "'c \<Rightarrow> 'w writer"
  lk_read :: "'c \<Rightarrow> 'w reader"
  lk_close :: "'c \<Rightarrow> 'w \<Rightarrow> 'w"

record handleRef =
  hr_remote :: bool
  hr_real :: u64

record ('f, 'c) session =
  se_localFS :: "'f fsservice"
  se_handles :: "u64 \<Rightarrow> handleRef option"
  se_next :: u64
  se_remote :: "('c \<times> bufw) option"

definition new_session :: "('f, 'c) session" where
  "new_session = \<lparr>se_localFS = NewFSService, se_handles = (\<lambda>_. None), se_next = 1, se_remote = None\<rparr>"

lemma new_session_simps [simp]:
  "se_localFS new_session = NewFSService" "se_handles new_session = (\<lambda>_. None)"
  "se_next new_session = 1" "se_remote new_session = None"
  by (simp_all add: new_session_def)

type_synonym ('f, 'c, 'w) sstep = "('f, 'c) session \<times> 'w \<Rightarrow> response \<times> ('f, 'c) session \<times> 'w"

definition io_failure :: response where
  "io_failure = response0 (neg_errno EIO)"

text \<open>The first half of \<open>remoteRPC\<close>: the connection, dialed when there is none.\<close>

definition remote_conn ::
    "('c, 'w) link \<Rightarrow> ('f, 'c) session \<times> 'w \<Rightarrow> ('c \<times> bufw) option \<times> ('f, 'c) session \<times> 'w" where
  "remote_conn lk = (\<lambda>(s, w).
     (case se_remote s of
        Some cb \<Rightarrow> (Some cb, s, w)
      | None \<Rightarrow>
          (case lk_dial lk w of
             (None, w) \<Rightarrow> (None, s, w)
           | (Some c, w) \<Rightarrow>
               (case lk_write lk c [StreamKindFS] w of
                  (Some e, w) \<Rightarrow> (None, s, lk_close lk c w)
                | (None, w) \<Rightarrow> (Some (c, NewConn), s\<lparr>se_remote := Some (c, NewConn)\<rparr>, w)))))"

definition remoteRPC :: "('c, 'w) link \<Rightarrow> request \<Rightarrow> ('f, 'c, 'w) sstep" where
  "remoteRPC lk req sw =
     (case remote_conn lk sw of
        (None, s, w) \<Rightarrow> (io_failure, s, w)
      | (Some (c, b), s, w) \<Rightarrow>
          (case SendRequest (lk_write lk c) req (b, w) of
             (Some e, b, w) \<Rightarrow> (io_failure, s\<lparr>se_remote := Some (c, b)\<rparr>, w)
           | (None, b, w) \<Rightarrow>
               (case ConnReadResponse (lk_read lk c) (rq_Op req) w of
                  (Inl e, w) \<Rightarrow> (io_failure, s\<lparr>se_remote := Some (c, b)\<rparr>, w)
                | (Inr resp, w) \<Rightarrow> (resp, s\<lparr>se_remote := Some (c, b)\<rparr>, w))))"

definition localRPC :: "('f, 'w) os \<Rightarrow> request \<Rightarrow> ('f, 'c, 'w) sstep" where
  "localRPC sys req = (\<lambda>(s, w).
     (case fs_Handle sys req (se_localFS s, w) of
        (resp, fs, w) \<Rightarrow> (resp, s\<lparr>se_localFS := fs\<rparr>, w)))"

definition forwardByPath :: "('f, 'w) os \<Rightarrow> ('c, 'w) link \<Rightarrow> Table \<Rightarrow> request \<Rightarrow> ('f, 'c, 'w) sstep" where
  "forwardByPath sys lk route req sw =
     (if IsRemote route (rq_Path req) then remoteRPC lk req sw else localRPC sys req sw)"

definition se_rename :: "('f, 'w) os \<Rightarrow> ('c, 'w) link \<Rightarrow> Table \<Rightarrow> request \<Rightarrow> ('f, 'c, 'w) sstep" where
  "se_rename sys lk route req sw =
     (if IsRemote route (rq_Path req) \<noteq> IsRemote route (rq_Path2 req)
      then (response0 (neg_errno EXDEV), sw)
      else forwardByPath sys lk route req sw)"

definition se_open :: "('f, 'w) os \<Rightarrow> ('c, 'w) link \<Rightarrow> Table \<Rightarrow> request \<Rightarrow> ('f, 'c, 'w) sstep" where
  "se_open sys lk route req sw =
     (let remote = IsRemote route (rq_Path req);
          (resp, s, w) = (if remote then remoteRPC lk req sw else localRPC sys req sw)
      in if rs_Err resp \<noteq> 0 then (resp, s, w)
         else let a = se_next s;
                  s = s\<lparr>se_next := a + 1,
                    se_handles := (se_handles s)(a := Some \<lparr>hr_remote = remote, hr_real = rs_Handle resp\<rparr>)\<rparr>
              in (resp\<lparr>rs_Handle := a\<rparr>, s, w))"

definition byHandle :: "('f, 'w) os \<Rightarrow> ('c, 'w) link \<Rightarrow> request \<Rightarrow> ('f, 'c, 'w) sstep" where
  "byHandle sys lk req = (\<lambda>(s, w).
     (let ref = se_handles s (rq_Handle req);
          s = (if ref \<noteq> None \<and> rq_Op req = OpClose
               then s\<lparr>se_handles := (se_handles s)(rq_Handle req := None)\<rparr> else s)
      in case ref of
           None \<Rightarrow> (response0 (neg_errno EBADF), s, w)
         | Some r \<Rightarrow>
             (let req = req\<lparr>rq_Handle := hr_real r\<rparr> in
              if hr_remote r then remoteRPC lk req (s, w) else localRPC sys req (s, w))))"

definition session_handle ::
    "('f, 'w) os \<Rightarrow> ('c, 'w) link \<Rightarrow> Table \<Rightarrow> request \<Rightarrow> ('f, 'c, 'w) sstep" where
  "session_handle sys lk route req =
     (let opc = rq_Op req in
      if opc = OpStat \<or> opc = OpReaddir \<or> opc = OpWriteFile \<or> opc = OpUnlink \<or> opc = OpMkdir \<or>
         opc = OpSetattr then forwardByPath sys lk route req
      else if opc = OpRename then se_rename sys lk route req
      else if opc = OpOpen \<or> opc = OpCreate then se_open sys lk route req
      else if opc = OpPread \<or> opc = OpPwrite \<or> opc = OpClose then byHandle sys lk req
      else (\<lambda>sw. (response0 (neg_errno EINVAL), sw)))"

definition session_close ::
    "('f, 'w) os \<Rightarrow> ((u64 \<Rightarrow> 'f option) \<Rightarrow> u64 list) \<Rightarrow> ('c, 'w) link \<Rightarrow>
     ('f, 'c) session \<times> 'w \<Rightarrow> ('f, 'c) session \<times> 'w" where
  "session_close sys order lk = (\<lambda>(s, w).
     (let (fs, w) = CloseAll sys (order (fs_open (se_localFS s))) (se_localFS s, w);
          s = s\<lparr>se_localFS := fs\<rparr>
      in case se_remote s of
           None \<Rightarrow> (s, w)
         | Some (c, b) \<Rightarrow> (s\<lparr>se_remote := None\<rparr>, lk_close lk c w)))"

definition serveConn ::
    "('f, 'w) os \<Rightarrow> ((u64 \<Rightarrow> 'f option) \<Rightarrow> u64 list) \<Rightarrow> ('c, 'w) link \<Rightarrow> Table \<Rightarrow>
     bytes \<Rightarrow> sink \<Rightarrow> 'w \<Rightarrow> sink \<times> 'w" where
  "serveConn sys order lk route s out w =
     (let ((b, out), sw) = serve_loop (session_handle sys lk route) s (NewConn, out) (new_session, w);
          (s, w) = session_close sys order lk sw
      in (out, w))"

text \<open>\<open>QueryServerInfo\<close>: the errors in the order of the code, and the deferred close.\<close>

datatype query_error =
    DialExecutor
  | WriteStreamKind io_error
  | SendServerInfo proto_error
  | ReadServerInfo proto_error
  | ServerInfoErrno i32

definition QueryServerInfo :: "('c, 'w) link \<Rightarrow> 'w \<Rightarrow> (query_error + string \<times> string) \<times> 'w" where
  "QueryServerInfo lk w =
     (case lk_dial lk w of
        (None, w) \<Rightarrow> (Inl DialExecutor, w)
      | (Some c, w) \<Rightarrow>
          (let (res, w) =
             (case lk_write lk c [StreamKindFS] w of
                (Some e, w) \<Rightarrow> (Inl (WriteStreamKind e), w)
              | (None, w) \<Rightarrow>
                  (case SendRequest (lk_write lk c) (request0 OpServerInfo) (NewConn, w) of
                     (Some e, b, w) \<Rightarrow> (Inl (SendServerInfo e), w)
                   | (None, b, w) \<Rightarrow>
                       (case ConnReadResponse (lk_read lk c) OpServerInfo w of
                          (Inl e, w) \<Rightarrow> (Inl (ReadServerInfo e), w)
                        | (Inr resp, w) \<Rightarrow>
                            if rs_Err resp \<noteq> 0 then (Inl (ServerInfoErrno (rs_Err resp)), w)
                            else (Inr (rs_OS resp, rs_Arch resp), w))))
           in (res, lk_close lk c w)))"

subsection \<open>The session as a handle table\<close>

abbreviation se_live :: "('f, 'c) session \<times> 'w \<Rightarrow> u64 set" where
  "se_live \<equiv> (\<lambda>(s, w). dom (se_handles s))"

abbreviation se_next_handle :: "('f, 'c) session \<times> 'w \<Rightarrow> u64" where
  "se_next_handle \<equiv> (\<lambda>(s, w). se_next s)"

lemma remote_conn_keeps:
  "remote_conn lk (s, w) = (cb, s', w') \<Longrightarrow>
   se_handles s' = se_handles s \<and> se_next s' = se_next s \<and> se_localFS s' = se_localFS s \<and>
   (\<forall>c. cb = Some c \<longrightarrow> se_remote s' = Some c)"
  by (auto simp: remote_conn_def split: option.splits prod.splits)

lemma remoteRPC_keeps:
  assumes "remoteRPC lk req (s, w) = (r, s', w')"
  shows "se_handles s' = se_handles s \<and> se_next s' = se_next s \<and> se_localFS s' = se_localFS s"
proof -
  obtain cb s1 w1 where c: "remote_conn lk (s, w) = (cb, s1, w1)" by (metis prod_cases3)
  from remote_conn_keeps [OF c] assms c show ?thesis
    by (auto simp: remoteRPC_def split: option.splits prod.splits sum.splits)
qed

lemma localRPC_keeps:
  "localRPC sys req (s, w) = (r, s', w') \<Longrightarrow>
   se_handles s' = se_handles s \<and> se_next s' = se_next s \<and> se_remote s' = se_remote s"
  by (auto simp: localRPC_def split: prod.splits)

lemma forwardByPath_keeps:
  "forwardByPath sys lk route req (s, w) = (r, s', w') \<Longrightarrow>
   se_handles s' = se_handles s \<and> se_next s' = se_next s"
  using remoteRPC_keeps [of lk req s w] localRPC_keeps [of sys req s w]
  by (auto simp: forwardByPath_def split: if_splits)

lemma se_open_cases:
  assumes "se_open sys lk route req (s, w) = (r, s', w')"
  shows "if rs_Err r = 0 then rs_Handle r = se_next s \<and> se_next s' = se_next s + 1 \<and>
      (\<exists>ref. se_handles s' = (se_handles s)(se_next s := Some ref))
    else se_handles s' = se_handles s \<and> se_next s' = se_next s"
proof -
  obtain r1 s1 w1 where rpc: "(if IsRemote route (rq_Path req) then remoteRPC lk req (s, w)
      else localRPC sys req (s, w)) = (r1, s1, w1)" by (metis prod_cases3)
  then have "se_handles s1 = se_handles s" "se_next s1 = se_next s"
    using remoteRPC_keeps [of lk req s w r1 s1 w1] localRPC_keeps [of sys req s w r1 s1 w1]
    by (auto split: if_splits)
  with assms rpc show ?thesis
    by (auto simp: se_open_def Let_def split: if_splits)
qed

lemma byHandle_table:
  assumes "byHandle sys lk req (s, w) = (r, s', w')"
  shows "se_next s' = se_next s \<and>
    se_handles s' = (if rq_Op req = OpClose then (se_handles s)(rq_Handle req := None) else se_handles s)"
proof (cases "se_handles s (rq_Handle req)")
  case None
  with assms show ?thesis
    by (auto simp: byHandle_def Let_def)
next
  case (Some ref)
  let ?s = "if rq_Op req = OpClose then s\<lparr>se_handles := (se_handles s)(rq_Handle req := None)\<rparr> else s"
  let ?q = "req\<lparr>rq_Handle := hr_real ref\<rparr>"
  have "(if hr_remote ref then remoteRPC lk ?q (?s, w) else localRPC sys ?q (?s, w)) = (r, s', w')"
    using assms Some by (auto simp: byHandle_def Let_def)
  then have "se_handles s' = se_handles ?s \<and> se_next s' = se_next ?s"
    using remoteRPC_keeps [of lk ?q ?s w r s' w'] localRPC_keeps [of sys ?q ?s w r s' w']
    by (auto split: if_splits)
  then show ?thesis by auto
qed

text \<open>Which handler serves a request.\<close>

lemma session_handle_open: "is_open q \<Longrightarrow> session_handle sys lk route q = se_open sys lk route q"
  by (auto simp: session_handle_def is_open_def)

lemma session_handle_by_handle: "by_handle q \<Longrightarrow> session_handle sys lk route q = byHandle sys lk q"
  by (auto simp: session_handle_def by_handle_def)

lemma session_handle_other:
  assumes "\<not> is_open q" and "\<not> by_handle q" and "session_handle sys lk route q (s, w) = (r, s', w')"
  shows "se_handles s' = se_handles s \<and> se_next s' = se_next s"
  using assms forwardByPath_keeps [of sys lk route q s w r s' w']
  by (auto simp: session_handle_def se_rename_def is_open_def by_handle_def Let_def split: if_splits)

lemma session_handle_tables:
  assumes "session_handle sys lk route q (s, w) = (r, s', w')"
  shows "(if is_open q \<and> rs_Err r = 0
      then rs_Handle r = se_next s \<and> se_next s' = se_next s + 1 \<and>
        (\<exists>ref. se_handles s' = (se_handles s)(se_next s := Some ref))
      else se_next s' = se_next s \<and> se_handles s' =
        (if rq_Op q = OpClose then (se_handles s)(rq_Handle q := None) else se_handles s))"
proof -
  consider (op) "is_open q" | (hd) "by_handle q" "\<not> is_open q" | (other) "\<not> is_open q" "\<not> by_handle q"
    by blast
  then show ?thesis
  proof cases
    case op
    with assms have "se_open sys lk route q (s, w) = (r, s', w')"
      by (simp add: session_handle_open)
    from se_open_cases [OF this] op show ?thesis
      by (auto simp: is_open_def)
  next
    case hd
    with assms have "byHandle sys lk q (s, w) = (r, s', w')"
      by (simp add: session_handle_by_handle)
    from byHandle_table [OF this] hd show ?thesis
      by simp
  next
    case other
    with assms session_handle_other [OF other assms] show ?thesis
      by (auto simp: by_handle_def)
  qed
qed

interpretation se: handle_server "session_handle sys lk route" se_live se_next_handle
  for sys :: "('f, 'w) os" and lk :: "('c, 'w) link" and route
proof unfold_locales
  fix q s r s' assume "is_open q" "session_handle sys lk route q s = (r, s')" "rs_Err r = 0"
  then show "rs_Handle r = se_next_handle s \<and> se_next_handle s' = se_next_handle s + 1"
    using session_handle_tables [of sys lk route q "fst s" "snd s" r "fst s'" "snd s'"]
    by (simp add: case_prod_beta)
next
  fix q s r s' assume "session_handle sys lk route q s = (r, s')" "\<not> (is_open q \<and> rs_Err r = 0)"
  then show "se_next_handle s' = se_next_handle s"
    using session_handle_tables [of sys lk route q "fst s" "snd s" r "fst s'" "snd s'"]
    by (auto simp: case_prod_beta split: if_splits)
next
  fix q s r s' assume "session_handle sys lk route q s = (r, s')"
  then show "se_live s' = track q r (se_live s)"
    using session_handle_tables [of sys lk route q "fst s" "snd s" r "fst s'" "snd s'"]
    by (auto simp: case_prod_beta track_def split: if_splits)
next
  fix q and s :: "('f, 'c) session \<times> 'w" assume "by_handle q" "rq_Handle q \<notin> se_live s"
  then show "session_handle sys lk route q s = (bad_handle, s)"
    by (cases s) (auto simp: session_handle_by_handle byHandle_def bad_handle_def domIff)
qed

subsection \<open>A session without remote paths\<close>

lemma IsRemote_none: "\<not> IsRemote (New ModeRemoteAllowlist [] ls) p"
  by (simp add: IsRemote_def New_def)

text \<open>With nothing routed, the session's table is the service's, handle by handle.\<close>

definition local_view :: "('f, 'c) session \<Rightarrow> bool" where
  "local_view s \<longleftrightarrow> se_next s = fs_next (se_localFS s) \<and>
     se_handles s = (\<lambda>h. if fs_open (se_localFS s) h = None then None else Some \<lparr>hr_remote = False, hr_real = h\<rparr>)"

lemma local_view_new: "local_view new_session"
  by (simp add: local_view_def)

lemma request_handle_id [simp]: "q\<lparr>rq_Handle := rq_Handle q\<rparr> = q"
  by simp

lemma response_handle_id: "rs_Handle r = h \<Longrightarrow> r\<lparr>rs_Handle := h\<rparr> = r"
  by simp

lemma local_open_step:
  assumes view: "local_view s" and q: "is_open q" "\<not> IsRemote route (rq_Path q)"
    and h: "fs_Handle sys q (se_localFS s, w) = (r, fs, w')"
  shows "\<exists>s'. session_handle sys lk route q (s, w) = (r, s', w') \<and> se_localFS s' = fs \<and> local_view s'"
proof -
  obtain fl pm where "fs_Handle sys q = openWithMode sys q fl pm"
    using q(1) by (rule fs_Handle_open)
  then have o: "openWithMode sys q fl pm (se_localFS s, w) = (r, fs, w')"
    using h by simp
  show ?thesis
  proof (cases "rs_Err r = 0")
    case True
    then obtain f where f: "rs_Handle r = fs_next (se_localFS s)"
        "fs = (se_localFS s)\<lparr>fs_next := fs_next (se_localFS s) + 1,
           fs_open := (fs_open (se_localFS s))(fs_next (se_localFS s) := Some f)\<rparr>"
      using openWithMode_cases [OF o] by auto
    with view h q True show ?thesis
      by (auto simp: session_handle_open se_open_def localRPC_def local_view_def Let_def
          response_handle_id fun_eq_iff)
  next
    case False
    then have "fs = se_localFS s"
      using openWithMode_cases [OF o] by auto
    with view h q False show ?thesis
      by (auto simp: session_handle_open se_open_def localRPC_def local_view_def Let_def)
  qed
qed

lemma local_step:
  assumes view: "local_view s" and route: "\<And>p. \<not> IsRemote route p" and op: "rq_Op q \<noteq> OpServerInfo"
    and h: "fs_Handle sys q (se_localFS s, w) = (r, fs, w')"
  shows "\<exists>s'. session_handle sys lk route q (s, w) = (r, s', w') \<and> se_localFS s' = fs \<and> local_view s'"
proof -
  consider (op) "is_open q" | (hd) "by_handle q" "\<not> is_open q" | (other) "\<not> is_open q" "\<not> by_handle q"
    by blast
  then show ?thesis
  proof cases
    case op
    with local_open_step [OF view op route h] show ?thesis by blast
  next
    case hd
    show ?thesis
    proof (cases "fs_open (se_localFS s) (rq_Handle q)")
      case None
      then have "fs_Handle sys q (se_localFS s, w) = (bad_handle, se_localFS s, w)"
          "session_handle sys lk route q (s, w) = (bad_handle, s, w)"
        using fs.unknown [OF hd(1), of "(se_localFS s, w)" sys]
          se.unknown [OF hd(1), of "(s, w)" sys lk route] view
        by (auto simp: local_view_def domIff)
      with h view show ?thesis by simp
    next
      case (Some f)
      then have ref: "se_handles s (rq_Handle q) = Some \<lparr>hr_remote = False, hr_real = rq_Handle q\<rparr>"
        using view by (simp add: local_view_def)
      have "fs_next fs = fs_next (se_localFS s)"
        using fs.keeps_next [OF h] hd(2) by simp
      moreover have "fs_open fs = (if rq_Op q = OpClose
          then (fs_open (se_localFS s))(rq_Handle q := None) else fs_open (se_localFS s))"
        using h fs_Handle_other [OF h hd(2)] Some
        by (cases "rq_Op q = OpClose")
          (auto simp: fs_Handle_close fs_close_result split: prod.splits)
      ultimately show ?thesis
        using h ref hd(1) view
        by (auto simp: session_handle_by_handle byHandle_def localRPC_def local_view_def Let_def fun_eq_iff)
    qed
  next
    case other
    then have "fs = se_localFS s"
      using fs_Handle_other [OF h] by (simp add: by_handle_def)
    with h view other op show ?thesis
      by (auto simp: session_handle_def forwardByPath_def se_rename_def localRPC_def route
          is_open_def by_handle_def fs_Handle_def Let_def split: if_splits)
  qed
qed

lemma local_run:
  "local_view s \<Longrightarrow> (\<And>p. \<not> IsRemote route p) \<Longrightarrow> list_all (\<lambda>q. rq_Op q \<noteq> OpServerInfo) qs \<Longrightarrow>
   run (fs_Handle sys) qs (se_localFS s, w) = (rs, fs, w') \<Longrightarrow>
   \<exists>s'. run (session_handle sys lk route) qs (s, w) = (rs, s', w') \<and> se_localFS s' = fs"
proof (induction qs arbitrary: s w rs)
  case (Cons q qs)
  obtain r fs1 w1 where q: "fs_Handle sys q (se_localFS s, w) = (r, fs1, w1)" by (metis prod_cases3)
  obtain rs1 where rs: "run (fs_Handle sys) qs (fs1, w1) = (rs1, fs, w')" "rs = r # rs1"
    using Cons.prems(4) q by (auto simp: Let_def split: prod.splits)
  obtain s1 where s1: "session_handle sys lk route q (s, w) = (r, s1, w1)" "se_localFS s1 = fs1" "local_view s1"
    using local_step [OF Cons.prems(1,2) _ q] Cons.prems(3) by auto
  with Cons.IH [of s1 w1 rs1] Cons.prems(2,3) rs show ?case by auto
qed simp

subsection \<open>A broken connection\<close>

definition path_op :: "request \<Rightarrow> bool" where
  "path_op q \<longleftrightarrow> (let opc = rq_Op q in opc = OpStat \<or> opc = OpReaddir \<or> opc = OpWriteFile \<or>
     opc = OpUnlink \<or> opc = OpMkdir \<or> opc = OpSetattr \<or> opc = OpRename)"

text \<open>The requests that are for the executor.\<close>

definition for_executor :: "Table \<Rightarrow> request \<Rightarrow> ('f, 'c) session \<Rightarrow> bool" where
  "for_executor route q s \<longleftrightarrow>
     (if by_handle q then \<exists>h. se_handles s (rq_Handle q) = Some \<lparr>hr_remote = True, hr_real = h\<rparr>
      else (is_open q \<or> path_op q) \<and> IsRemote route (rq_Path q) \<and> (rq_Op q = OpRename \<longrightarrow> IsRemote route (rq_Path2 q)))"

text \<open>A stream error of \<open>SendRequest\<close> stays in the buffered writer, whatever the stream.\<close>

lemma bufio_Flush_sets_err: "bufio_Flush wr (b, s) = (Some e, b', s') \<Longrightarrow> bw_err b' = Some e"
  by (auto simp: bufio_Flush_def split: option.splits if_splits prod.splits)

lemma bufio_Write_sets_err: "bufio_Write wr p (b, s) = (Some e, b', s') \<Longrightarrow> bw_err b' = Some e"
  by (auto simp: bufio_Write_def Let_def dest: bufio_Flush_sets_err
      split: option.splits if_splits prod.splits)

lemma SendRequest_sets_err:
  assumes "SendRequest wr req (b, s) = (Some (StreamError e), b', s')"
  shows "bw_err b' = Some e"
  using assms
  by (auto simp: SendRequest_def WriteRequest_def writeFrame_def encodeRequest_def Let_def
      dest: bufio_Flush_sets_err bufio_Write_sets_err
      split: sum.splits prod.splits option.splits if_splits)

definition dead_remote :: "('f, 'c) session \<Rightarrow> bool" where
  "dead_remote s \<longleftrightarrow> (\<exists>c b e. se_remote s = Some (c, b) \<and> bw_err b = Some e)"

lemma remoteRPC_dead:
  assumes "dead_remote s"
  shows "remoteRPC lk req (s, w) = (io_failure, s, w)"
proof -
  obtain c b e where d: "se_remote s = Some (c, b)" "bw_err b = Some e"
    using assms by (auto simp: dead_remote_def)
  then obtain x where "SendRequest (lk_write lk c) req (b, w) = (Some x, b, w)"
    using SendRequest_sticky [OF d(2), of "lk_write lk c" req w] by blast
  with d show ?thesis
    by (simp add: remoteRPC_def remote_conn_def)
qed

lemma dead_remote_step:
  assumes "dead_remote s" and "session_handle sys lk route q (s, w) = (r, s', w')"
  shows "dead_remote s'"
proof -
  have keep: "dead_remote s''" if "remoteRPC lk q' (t, w) = (r', s'', w'')" "dead_remote t" for q' t r' s'' w''
    using that remoteRPC_dead [of t lk q' w] by simp
  have keepl: "dead_remote s''" if "localRPC sys q' (t, w) = (r', s'', w'')" "dead_remote t" for q' t r' s'' w''
    using that localRPC_keeps [of sys q' t w r' s'' w''] by (simp add: dead_remote_def)
  have upd: "dead_remote (s\<lparr>se_handles := h\<rparr>)" "dead_remote (s\<lparr>se_next := n, se_handles := h\<rparr>)" if "dead_remote s" for h n s
    using that by (simp_all add: dead_remote_def)
  show ?thesis
    using assms
    by (auto simp: session_handle_def Let_def forwardByPath_def se_rename_def se_open_def byHandle_def upd
        dest: keep keepl split: if_splits prod.splits option.splits)
qed

lemma dead_remote_run:
  "dead_remote s \<Longrightarrow> run (session_handle sys lk route) qs (s, w) = (rs, s', w') \<Longrightarrow> dead_remote s'"
proof (induction qs arbitrary: s w rs)
  case (Cons q qs)
  obtain r s1 w1 where q: "session_handle sys lk route q (s, w) = (r, s1, w1)" by (metis prod_cases3)
  obtain rs1 where "run (session_handle sys lk route) qs (s1, w1) = (rs1, s', w')"
    using Cons.prems(2) q by (auto simp: Let_def split: prod.splits)
  with Cons.IH dead_remote_step [OF Cons.prems(1) q] show ?case by blast
qed simp

subsection \<open>Properties\<close>

text \<open>
  The adapter's handles are tracked like a service's, whatever is behind it: for every host,
  transport and routing table, the opens of a session that succeed return 1, 2, 3, ... modulo
  \<open>2 ^ 64\<close>, and the live handles are those opened and not closed, also when the executor fails.
\<close>

theorem adapter_handles_tracked:
  "let (rs, (s, w)) = run (session_handle sys lk route) qs (new_session, w0) in
     opened_handles qs rs = map (\<lambda>i. 1 + word_of_nat i) [0..<length (opened_handles qs rs)] \<and>
     dom (se_handles s) = track_all qs rs {}"
proof -
  obtain rs s w where run: "run (session_handle sys lk route) qs (new_session, w0) = (rs, s, w)"
    by (metis prod_cases3)
  show ?thesis
    using se.opened_consecutive [OF run] se.live_track_all [OF run] by (simp add: run)
qed

text \<open>
  C9: A handle the interceptor has closed is dead for the whole session, whichever side its file was
  on: any further use of it gets \<open>EBADF\<close> and reaches neither the local host nor the executor.
\<close>

theorem adapter_use_after_close:
  assumes "rq_Op q = OpClose" and "rq_Handle q < se_next s"
    and "unat (se_next s) + length qs < 2 ^ 64"
    and "by_handle q'" and "rq_Handle q' = rq_Handle q"
  shows "let sw = snd (run (session_handle sys lk route) (q # qs) (s, w))
    in session_handle sys lk route q' sw = (bad_handle, sw)"
  using se.use_after_close [of q "(s, w)" qs q' sys lk route] assms by simp

definition broken_link :: "(unit, mem) link" where
  "broken_link = \<lparr>lk_dial = (\<lambda>w. (Some (), w)), lk_write = (\<lambda>c bs w. if length bs = 1 then (None, w) else (Some IOFail, w)),
     lk_read = (\<lambda>c n w. (Inl EOF, w)), lk_close = (\<lambda>c w. w)\<rparr>"

definition work_table :: Table where
  "work_table = New ModeRemoteAllowlist [''/work''] []"

theorem adapter_use_after_close_witness:
  "let s = new_session\<lparr>se_next := 2, se_handles := [1 \<mapsto> \<lparr>hr_remote = True, hr_real = 5\<rparr>]\<rparr>;
       sw = snd (run (session_handle memos broken_link work_table)
         ((request0 OpClose)\<lparr>rq_Handle := 1\<rparr> # sample_reopen) (s, sample_world))
   in session_handle memos broken_link work_table ((request0 OpPwrite)\<lparr>rq_Handle := 1\<rparr>) sw = (bad_handle, sw)"
  unfolding Let_def [of "new_session\<lparr>se_next := 2, se_handles := [1 \<mapsto> \<lparr>hr_remote = True, hr_real = 5\<rparr>]\<rparr>"]
  by (rule adapter_use_after_close) (simp_all add: request0_def by_handle_def sample_reopen_def)

text \<open>
  With no remote prefix the adapter is transparent: it answers every sequence of requests
  (\<open>SERVERINFO\<close> aside, which a session refuses) exactly as one filesystem service on the local host
  would, handles included, and leaves the host in the same state.
\<close>

theorem local_session_transparent:
  assumes "list_all (\<lambda>q. rq_Op q \<noteq> OpServerInfo) qs"
  shows "let (rs, (s, w')) = run (session_handle sys lk (New ModeRemoteAllowlist [] ls)) qs (new_session, w)
    in run (fs_Handle sys) qs (NewFSService, w) = (rs, se_localFS s, w')"
proof -
  obtain rs fs w' where run: "run (fs_Handle sys) qs (NewFSService, w) = (rs, fs, w')"
    by (metis prod_cases3)
  have "\<exists>s'. run (session_handle sys lk (New ModeRemoteAllowlist [] ls)) qs (new_session, w) = (rs, s', w') \<and>
      se_localFS s' = fs"
    by (rule local_run [OF local_view_new IsRemote_none assms]) (simp add: run)
  with run show ?thesis by auto
qed

theorem local_session_transparent_witness:
  "fst (run (session_handle memos broken_link (New ModeRemoteAllowlist [] [])) sample_reopen (new_session, sample_world)) =
     [(response0 0)\<lparr>rs_Mode := 0x81A4, rs_Size := 5, rs_Handle := 1, rs_Mtime := 9\<rparr>]"
proof -
  have "list_all (\<lambda>q. rq_Op q \<noteq> OpServerInfo) sample_reopen"
    by (simp add: sample_reopen_def request0_def)
  from local_session_transparent [OF this, of memos broken_link "[]" sample_world] show ?thesis
    by (auto simp: sample_reopen_run split: prod.splits)
qed

text \<open>
  A rename across the routing boundary is refused with \<open>EXDEV\<close> before either side is asked:
  when exactly one of the two paths is remote, the session, the local host and the connection are
  as they were.
\<close>

theorem cross_boundary_rename:
  assumes "rq_Op q = OpRename" and "IsRemote route (rq_Path q) \<noteq> IsRemote route (rq_Path2 q)"
  shows "session_handle sys lk route q sw = (response0 (neg_errno EXDEV), sw)"
  using assms by (simp add: session_handle_def se_rename_def)

theorem cross_boundary_rename_witness:
  "session_handle memos broken_link work_table
     ((request0 OpRename)\<lparr>rq_Path := ''/work/a'', rq_Path2 := ''/tmp/a''\<rparr>) (new_session, sample_world) =
   (response0 (neg_errno EXDEV), new_session, sample_world)"
proof (rule cross_boundary_rename)
  have t: "TrimSpace ''/work'' = ''/work''"
    by (rule TrimSpace_graphic) (simp add: graphic_def)
  show "IsRemote work_table (rq_Path ((request0 OpRename)\<lparr>rq_Path := ''/work/a'', rq_Path2 := ''/tmp/a''\<rparr>)) \<noteq>
      IsRemote work_table (rq_Path2 ((request0 OpRename)\<lparr>rq_Path := ''/work/a'', rq_Path2 := ''/tmp/a''\<rparr>))"
    by (simp add: work_table_def IsRemote_allow t Clean_def clean_loop.simps HasPrefix_def)
qed (simp add: request0_def)

text \<open>
  C32: A session never recovers its connection: after one send to the executor failed with an error of the stream, every
  later request of the session that is for the executor, by path or by handle, is answered with \<open>EIO\<close> without
  touching the transport, whatever was done in between; the adapter does not dial again. All that such a
  request changes is that a close retires its handle.
\<close>

theorem failed_send_is_final:
  assumes "se_remote s = Some (c, b)"
    and "SendRequest (lk_write lk c) q0 (b, w) = (Some (StreamError e), b', w0)"
    and "remoteRPC lk q0 (s, w) = (r0, s1, w1)"
    and "run (session_handle sys lk route) qs (s1, w1) = (rs, s2, w2)"
    and "for_executor route q s2"
  shows "session_handle sys lk route q (s2, w2) =
    (io_failure, if rq_Op q = OpClose then s2\<lparr>se_handles := (se_handles s2)(rq_Handle q := None)\<rparr> else s2, w2)"
proof -
  have "dead_remote s1"
    using assms(1-3) SendRequest_sets_err [OF assms(2)]
    by (auto simp: remoteRPC_def remote_conn_def dead_remote_def)
  then have dead: "dead_remote s2"
    by (rule dead_remote_run [OF _ assms(4)])
  then have closed: "dead_remote (s2\<lparr>se_handles := h\<rparr>)" for h
    by (simp add: dead_remote_def)
  have fail: "rs_Err io_failure \<noteq> 0"
    by (simp add: io_failure_def)
  consider (handle) "by_handle q" | (opens) "is_open q" "\<not> by_handle q" | (path) "path_op q" "\<not> by_handle q"
    using assms(5) by (auto simp: for_executor_def split: if_splits)
  then show ?thesis
  proof cases
    case handle
    with assms(5) show ?thesis
      by (auto simp: for_executor_def session_handle_by_handle byHandle_def remoteRPC_dead [OF dead]
          remoteRPC_dead [OF closed])
  next
    case opens
    with assms(5) fail show ?thesis
      by (auto simp: for_executor_def session_handle_open se_open_def remoteRPC_dead [OF dead] is_open_def)
  next
    case path
    with assms(5) show ?thesis
      by (auto simp: for_executor_def session_handle_def se_rename_def forwardByPath_def remoteRPC_dead [OF dead]
          path_op_def Let_def)
  qed
qed

definition broken_session :: "(nat, unit) session" where
  "broken_session = new_session\<lparr>se_remote := Some ((), NewConn)\<rparr>"

theorem failed_send_is_final_witness:
  "let (s2, w2) = snd (run (session_handle memos broken_link work_table) sample_reopen
         (snd (remoteRPC broken_link (request0 OpClose) (broken_session, sample_world))))
   in session_handle memos broken_link work_table ((request0 OpCreate)\<lparr>rq_Path := ''/work/a''\<rparr>) (s2, w2) =
     (io_failure, s2, w2)"
proof -
  obtain b' w0 where send: "SendRequest (lk_write broken_link ()) (request0 OpClose) (NewConn, sample_world) =
      (Some (StreamError IOFail), b', w0)"
    by (simp add: SendRequest_def WriteRequest_def encodeRequest_def request0_def put_simps writeFrame_def
        MaxFrame_def NewConn_def bufio_Write_def bufio_Flush_def bufio_size_def broken_link_def)
  obtain r0 s1 w1 where r: "remoteRPC broken_link (request0 OpClose) (broken_session, sample_world) = (r0, s1, w1)"
    by (metis prod_cases3)
  obtain rs s2 w2 where run: "run (session_handle memos broken_link work_table) sample_reopen (s1, w1) = (rs, s2, w2)"
    by (metis prod_cases3)
  have t: "TrimSpace ''/work'' = ''/work''"
    by (rule TrimSpace_graphic) (simp add: graphic_def)
  have "IsRemote work_table ''/work/a''"
    by (simp add: work_table_def IsRemote_allow t Clean_def clean_loop.simps HasPrefix_def)
  then have "for_executor work_table ((request0 OpCreate)\<lparr>rq_Path := ''/work/a''\<rparr>) s2"
    by (simp add: for_executor_def by_handle_def is_open_def request0_def)
  then have "session_handle memos broken_link work_table ((request0 OpCreate)\<lparr>rq_Path := ''/work/a''\<rparr>) (s2, w2) =
      (io_failure, s2, w2)"
    using failed_send_is_final [OF _ send r run] by (simp add: broken_session_def request0_def)
  with r run show ?thesis by simp
qed

end
