(* ===== verification/EndToEnd.thy ===== *)
theory EndToEnd
  imports Adapter
begin

section \<open>The adapter and the executor together\<close>

text \<open>
  The transport of the adapter instantiated with the executor: a network of streams, each served by
  \<open>serve_loop\<close> on the remote host, so that every remote operation goes through the bytes of both
  codecs. The specification \<open>hosts_handle\<close> has no wire, no connection and no executor: two
  filesystem services, one per host, and one table of handles. The theorems show that a session
  over the network answers as the specification does.
\<close>

subsection \<open>The network\<close>

record 'g stream =
  st_kind :: bool
  st_in :: bytes
  st_out :: bytes
  st_fs :: "'g fsservice"
  st_ended :: bool

record ('g, 'l, 'r) net =
  nt_local :: 'l
  nt_remote :: 'r
  nt_streams :: "'g stream list"

text \<open>
  Whether \<open>serve_loop\<close> ended for good on what has arrived: by a request it does not understand or an answer it cannot
  send. Otherwise it waits for the next request.
\<close>

function serve_ends ::
    "(request \<Rightarrow> 's \<Rightarrow> response \<times> 's) \<Rightarrow> bytes \<Rightarrow> bufw \<times> sink \<Rightarrow> 's \<Rightarrow> bool" where
  "serve_ends handle s c st =
     (case ConnReadRequest buf_read s of
        (Inl e, _) \<Rightarrow> s \<noteq> []
      | (Inr req, s') \<Rightarrow>
          (let (resp, st) = handle req st in
           case SendResponse sink_write (rq_Op req) resp c of
             (Some e, c) \<Rightarrow> True
           | (None, c) \<Rightarrow> serve_ends handle s' c st))"
  by pat_completeness auto
termination
  by (relation "measure (\<lambda>(handle, s, c, st). length s)")
    (auto simp: ConnReadRequest_def dest!: buf_ReadRequest_shorter [OF sym])

declare serve_ends.simps [simp del]

text \<open>
  The executor's goroutine for a stream, run when the adapter waits for its answer: the kind byte
  (see \<open>ex_handle\<close>), then the loop of \<open>serveFS\<close> on what has arrived, and at its end \<open>CloseAll\<close> and the close of the
  stream. A stream of another kind is not served.
\<close>

definition executor_turn ::
    "('g, 'r) os \<Rightarrow> ((u64 \<Rightarrow> 'g option) \<Rightarrow> u64 list) \<Rightarrow> 'g stream \<Rightarrow> 'r \<Rightarrow> 'g stream \<times> 'r" where
  "executor_turn rsys order p r =
     (let (kind, s) = (if st_kind p then (True, st_in p)
                       else case st_in p of [] \<Rightarrow> (False, []) | k # s \<Rightarrow> (k = StreamKindFS, s));
          c = (NewConn, \<lparr>sk_out = st_out p, sk_room = None\<rparr>)
      in if \<not> kind \<or> st_ended p then (p, r)
         else let ends = serve_ends (fs_Handle rsys) s c (st_fs p, r);
                  ((b, out), fs, r) = serve_loop (fs_Handle rsys) s c (st_fs p, r);
                  (fs, r) = (if ends then CloseAll rsys (order (fs_open fs)) (fs, r) else (fs, r))
              in (\<lparr>st_kind = True, st_in = [], st_out = sk_out out, st_fs = fs, st_ended = ends\<rparr>, r))"

definition net_dial :: "('g, 'l, 'r) net \<Rightarrow> nat option \<times> ('g, 'l, 'r) net" where
  "net_dial w =
     (Some (length (nt_streams w)),
      w\<lparr>nt_streams := nt_streams w @ [\<lparr>st_kind = False, st_in = [], st_out = [], st_fs = NewFSService, st_ended = False\<rparr>]\<rparr>)"

text \<open>What is written to a stream that the executor has closed is lost.\<close>

definition net_write :: "nat \<Rightarrow> ('g, 'l, 'r) net writer" where
  "net_write c bs w =
     (let p = nt_streams w ! c
      in (None, if st_ended p then w else w\<lparr>nt_streams := (nt_streams w)[c := p\<lparr>st_in := st_in p @ bs\<rparr>]\<rparr>))"

definition net_read ::
    "('g, 'r) os \<Rightarrow> ((u64 \<Rightarrow> 'g option) \<Rightarrow> u64 list) \<Rightarrow> nat \<Rightarrow> ('g, 'l, 'r) net reader" where
  "net_read rsys order c n w =
     (let (p, r) = executor_turn rsys order (nt_streams w ! c) (nt_remote w);
          (res, out) = buf_read n (st_out p)
      in (res, w\<lparr>nt_remote := r, nt_streams := (nt_streams w)[c := p\<lparr>st_out := out\<rparr>]\<rparr>))"

definition net_close ::
    "('g, 'r) os \<Rightarrow> ((u64 \<Rightarrow> 'g option) \<Rightarrow> u64 list) \<Rightarrow> nat \<Rightarrow> ('g, 'l, 'r) net \<Rightarrow> ('g, 'l, 'r) net" where
  "net_close rsys order c w =
     (let p = nt_streams w ! c;
          (fs, r) = CloseAll rsys (order (fs_open (st_fs p))) (st_fs p, nt_remote w)
      in w\<lparr>nt_remote := r, nt_streams := (nt_streams w)[c := p\<lparr>st_fs := fs\<rparr>]\<rparr>)"

definition net_link ::
    "('g, 'r) os \<Rightarrow> ((u64 \<Rightarrow> 'g option) \<Rightarrow> u64 list) \<Rightarrow> (nat, ('g, 'l, 'r) net) link" where
  "net_link rsys order = \<lparr>lk_dial = net_dial, lk_write = net_write, lk_read = net_read rsys order,
     lk_close = net_close rsys order\<rparr>"

text \<open>The local host inside the network's world.\<close>

definition on_local :: "('l \<Rightarrow> 'a \<times> 'l) \<Rightarrow> ('g, 'l, 'r) net \<Rightarrow> 'a \<times> ('g, 'l, 'r) net" where
  "on_local g w = (case g (nt_local w) of (x, l) \<Rightarrow> (x, w\<lparr>nt_local := l\<rparr>))"

definition local_os :: "('f, 'l) os \<Rightarrow> ('f, ('g, 'l, 'r) net) os" where
  "local_os sys = \<lparr>os_Stat = (\<lambda>p. on_local (os_Stat sys p)),
     os_OpenFile = (\<lambda>p fl pm. on_local (os_OpenFile sys p fl pm)),
     os_FStat = (\<lambda>f. on_local (os_FStat sys f)), os_Close = (\<lambda>f. on_local (os_Close sys f)),
     os_ReadAt = (\<lambda>f n off. on_local (os_ReadAt sys f n off)),
     os_WriteAt = (\<lambda>f b off. on_local (os_WriteAt sys f b off)),
     os_WriteFile = (\<lambda>p b m. on_local (os_WriteFile sys p b m)),
     os_ReadDir = (\<lambda>p. on_local (os_ReadDir sys p)), os_Unlink = (\<lambda>p. on_local (os_Unlink sys p)),
     os_Rmdir = (\<lambda>p. on_local (os_Rmdir sys p)), os_Mkdir = (\<lambda>p m. on_local (os_Mkdir sys p m)),
     os_Rename = (\<lambda>p q. on_local (os_Rename sys p q)), os_Chmod = (\<lambda>p m. on_local (os_Chmod sys p m)),
     os_Truncate = (\<lambda>p n. on_local (os_Truncate sys p n)),
     os_Chtimes = (\<lambda>p a m. on_local (os_Chtimes sys p a m)),
     os_O_CREATE = os_O_CREATE sys, os_GOOS = os_GOOS sys, os_GOARCH = os_GOARCH sys\<rparr>"

subsection \<open>The specification: two hosts\<close>

record ('f, 'g, 'l, 'r) hosts =
  ho_lfs :: "'f fsservice"
  ho_rfs :: "'g fsservice"
  ho_l :: 'l
  ho_r :: 'r
  ho_handles :: "u64 \<Rightarrow> handleRef option"
  ho_next :: u64

definition host_call ::
    "('f, 'l) os \<Rightarrow> ('g, 'r) os \<Rightarrow> bool \<Rightarrow> request \<Rightarrow> ('f, 'g, 'l, 'r) hosts \<Rightarrow> response \<times> ('f, 'g, 'l, 'r) hosts" where
  "host_call lsys rsys remote q st =
     (if remote
      then (case fs_Handle rsys q (ho_rfs st, ho_r st) of (a, fs, w) \<Rightarrow> (a, st\<lparr>ho_rfs := fs, ho_r := w\<rparr>))
      else (case fs_Handle lsys q (ho_lfs st, ho_l st) of (a, fs, w) \<Rightarrow> (a, st\<lparr>ho_lfs := fs, ho_l := w\<rparr>)))"

text \<open>Which host a request goes to, and as which request.\<close>

definition target :: "Table \<Rightarrow> request \<Rightarrow> ('f, 'g, 'l, 'r) hosts \<Rightarrow> (bool \<times> request) option" where
  "target route q st =
     (if is_open q \<or> path_op q then Some (IsRemote route (rq_Path q), q)
      else if by_handle q then
        map_option (\<lambda>ref. (hr_remote ref, q\<lparr>rq_Handle := hr_real ref\<rparr>)) (ho_handles st (rq_Handle q))
      else None)"

definition hosts_handle ::
    "('f, 'l) os \<Rightarrow> ('g, 'r) os \<Rightarrow> Table \<Rightarrow> request \<Rightarrow> ('f, 'g, 'l, 'r) hosts \<Rightarrow> response \<times> ('f, 'g, 'l, 'r) hosts" where
  "hosts_handle lsys rsys route q st =
     (if rq_Op q = OpRename \<and> IsRemote route (rq_Path q) \<noteq> IsRemote route (rq_Path2 q)
      then (response0 (neg_errno EXDEV), st)
      else case target route q st of
        None \<Rightarrow> (response0 (neg_errno (if by_handle q then EBADF else EINVAL)), st)
      | Some (remote, q') \<Rightarrow>
          (let st = (if rq_Op q = OpClose then st\<lparr>ho_handles := (ho_handles st)(rq_Handle q := None)\<rparr> else st);
               (a, st) = host_call lsys rsys remote q' st
           in if is_open q \<and> rs_Err a = 0
              then (a\<lparr>rs_Handle := ho_next st\<rparr>,
                st\<lparr>ho_next := ho_next st + 1,
                  ho_handles := (ho_handles st)(ho_next st := Some \<lparr>hr_remote = remote, hr_real = rs_Handle a\<rparr>)\<rparr>)
              else (a, st)))"

definition hosts0 :: "'l \<Rightarrow> 'r \<Rightarrow> ('f, 'g, 'l, 'r) hosts" where
  "hosts0 l r = \<lparr>ho_lfs = NewFSService, ho_rfs = NewFSService, ho_l = l, ho_r = r,
     ho_handles = (\<lambda>_. None), ho_next = 1\<rparr>"

definition net0 :: "'l \<Rightarrow> 'r \<Rightarrow> ('g, 'l, 'r) net" where
  "net0 l r = \<lparr>nt_local = l, nt_remote = r, nt_streams = []\<rparr>"

text \<open>A request for the executor fits when it and its answer are at most one frame.\<close>

definition fits :: "('g, 'r) os \<Rightarrow> Table \<Rightarrow> request \<Rightarrow> ('f, 'g, 'l, 'r) hosts \<Rightarrow> bool" where
  "fits rsys route q st =
     (case target route q st of
        Some (True, q') \<Rightarrow>
          (case encodeRequest q' of Inl _ \<Rightarrow> False | Inr b \<Rightarrow> length b \<le> MaxFrame) \<and>
          length (encodeResponse (rq_Op q') (fst (fs_Handle rsys q' (ho_rfs st, ho_r st)))) \<le> MaxFrame
      | _ \<Rightarrow> True)"

fun run_fits ::
    "('f, 'l) os \<Rightarrow> ('g, 'r) os \<Rightarrow> Table \<Rightarrow> request list \<Rightarrow> ('f, 'g, 'l, 'r) hosts \<Rightarrow> bool" where
  "run_fits lsys rsys route [] st = True"
| "run_fits lsys rsys route (q # qs) st =
     (fits rsys route q st \<and> run_fits lsys rsys route qs (snd (hosts_handle lsys rsys route q st)))"

subsection \<open>The local host\<close>

lemma on_local_simps:
  "nt_local (snd (on_local g w)) = snd (g (nt_local w))"
  "fst (on_local g w) = fst (g (nt_local w))"
  by (simp_all add: on_local_def case_prod_beta)

text \<open>Running a step of the local service inside the network's world.\<close>

definition in_net :: "('f, 'l) fsstep \<Rightarrow> ('f, ('g, 'l, 'r) net) fsstep" where
  "in_net step = (\<lambda>(s, w). (case step (s, nt_local w) of (a, s', l) \<Rightarrow> (a, s', w\<lparr>nt_local := l\<rparr>)))"

lemma local_setattr_parts:
  "setattr_mode (local_os sys) q = on_local (setattr_mode sys q)"
  "setattr_size (local_os sys) q = on_local (setattr_size sys q)"
  "setattr_times (local_os sys) q = on_local (setattr_times sys q)"
  by (rule ext, simp add: setattr_mode_def setattr_size_def setattr_times_def local_os_def on_local_def)+

lemma local_handlers:
  "fs_stat (local_os sys) q = in_net (fs_stat sys q)"
  "openWithMode (local_os sys) q fl pm = in_net (openWithMode sys q fl pm)"
  "fs_pread (local_os sys) q = in_net (fs_pread sys q)"
  "fs_writeFile (local_os sys) q = in_net (fs_writeFile sys q)"
  "fs_close (local_os sys) q = in_net (fs_close sys q)"
  "fs_readdir (local_os sys) q = in_net (fs_readdir sys q)"
  "fs_pwrite (local_os sys) q = in_net (fs_pwrite sys q)"
  "fs_mkdir (local_os sys) q = in_net (fs_mkdir sys q)"
  "fs_rename (local_os sys) q = in_net (fs_rename sys q)"
  by (rule ext, simp add: fs_defs in_net_def local_os_def on_local_def Let_def
      split: prod.split sum.split option.split)+

lemma local_unlink: "fs_unlink (local_os sys) q = in_net (fs_unlink sys q)"
  by (rule ext) (simp add: fs_unlink_def in_net_def local_os_def on_local_def split: prod.split)

lemma local_setattr: "fs_setattr (local_os sys) q = in_net (fs_setattr sys q)"
  by (rule ext) (simp add: fs_setattr_def local_setattr_parts in_net_def on_local_def
      split: prod.split option.split)

lemma local_os_Handle: "fs_Handle (local_os sys) q = in_net (fs_Handle sys q)"
  unfolding fs_Handle_def Let_def
  by (simp add: local_handlers local_unlink local_setattr fs_openFile_def fs_create_def)
    (simp add: in_net_def local_os_def fun_eq_iff)

definition net_app :: "nat \<Rightarrow> bytes \<Rightarrow> ('g, 'l, 'r) net \<Rightarrow> ('g, 'l, 'r) net" where
  "net_app c bs w =
     (if st_ended (nt_streams w ! c) then w
      else w\<lparr>nt_streams := (nt_streams w)[c := (nt_streams w ! c)\<lparr>st_in := st_in (nt_streams w ! c) @ bs\<rparr>]\<rparr>)"

lemma net_write_app: "net_write c bs w = (None, net_app c bs w)"
  by (simp add: net_write_def net_app_def Let_def)

lemma net_app_app: "net_app c ys (net_app c xs w) = net_app c (xs @ ys) w"
  by (cases "c < length (nt_streams w)") (simp_all add: net_app_def not_less list_update_beyond)

subsection \<open>One remote call\<close>

text \<open>An idle stream: its kind is known, nothing waits on either side.\<close>

definition idle :: "'g fsservice \<Rightarrow> bytes \<Rightarrow> 'g stream" where
  "idle fs out = \<lparr>st_kind = True, st_in = [], st_out = out, st_fs = fs, st_ended = False\<rparr>"

lemma idle_turn: "executor_turn rsys order (idle fs out) r = (idle fs out, r)"
  by (simp add: executor_turn_def idle_def serve_loop.simps serve_ends.simps ConnReadRequest_def ReadRequest_def
      readFrame_def buf_read_def)

text \<open>The loop ends on a request exactly when its answer does not fit in a frame.\<close>

lemma serve_ends_request:
  assumes "encodeRequest q = Inr b" and "length b \<le> MaxFrame" and "fs_Handle rsys q (fs, r) = (a, fs', r')"
    and "sk_room out = None"
  shows "serve_ends (fs_Handle rsys) (frame b) (NewConn, out) (fs, r) \<longleftrightarrow> MaxFrame < length (encodeResponse (rq_Op q) a)"
proof -
  have read: "ConnReadRequest buf_read (frame b) = (Inr (relevant q), [])"
    using ReadRequest_wire [OF assms(1,2), of "[]"] by (simp add: ConnReadRequest_def)
  have "\<not> serve_ends (fs_Handle rsys) [] c st" for c :: "bufw \<times> sink" and st
    by (simp add: serve_ends.simps ConnReadRequest_def ReadRequest_def readFrame_def buf_read_def)
  moreover obtain e c where send: "SendResponse sink_write (rq_Op q) a (NewConn, out) = (e, c)"
    by (cases "SendResponse sink_write (rq_Op q) a (NewConn, out)")
  moreover have "e = None \<longleftrightarrow> length (encodeResponse (rq_Op q) a) \<le> MaxFrame"
    using open_SendResponse [OF assms(4), of "rq_Op q" a] send
    by (cases "length (encodeResponse (rq_Op q) a) \<le> MaxFrame") (auto simp: SendResponse_def WriteResponse_def writeFrame_def)
  ultimately show ?thesis
    using assms(3) by (subst serve_ends.simps) (auto simp: read fs_Handle_relevant not_le split: option.split)
qed

lemma request_turn:
  assumes "encodeRequest q = Inr b" and "length b \<le> MaxFrame"
    and "fs_Handle rsys q (fs, r) = (a, fs', r')"
    and "length (encodeResponse (rq_Op q) a) \<le> MaxFrame"
    and "p = (idle fs [])\<lparr>st_in := frame b\<rparr> \<or>
      p = \<lparr>st_kind = False, st_in = StreamKindFS # frame b, st_out = [], st_fs = fs, st_ended = False\<rparr>"
  shows "executor_turn rsys order p r = (idle fs' (frame (encodeResponse (rq_Op q) a)), r')"
proof -
  have "requests_wire [q] = Some (frame b)"
    using assms(1,2) by (simp add: requests_wire_def)
  moreover have "run (fs_Handle rsys) (map relevant [q]) (fs, r) = ([a], fs', r')"
    using assms(3) by (simp add: fs_Handle_relevant)
  moreover have "responses_fit [q] [a]"
    using assms(4) by (simp add: responses_fit_def)
  ultimately have "serve_loop (fs_Handle rsys) (frame b) (NewConn, \<lparr>sk_out = [], sk_room = None\<rparr>) (fs, r) =
      ((NewConn, \<lparr>sk_out = frame (encodeResponse (rq_Op q) a), sk_room = None\<rparr>), fs', r')"
    using serve_loop_requests [of "[q]" "frame b" "fs_Handle rsys" "(fs, r)" "[a]" "(fs', r')"
        "\<lparr>sk_out = [], sk_room = None\<rparr>"] by (simp add: responses_wire_def)
  moreover have "\<not> serve_ends (fs_Handle rsys) (frame b) (NewConn, \<lparr>sk_out = [], sk_room = None\<rparr>) (fs, r)"
    using assms(4) by (simp add: serve_ends_request [OF assms(1-3)])
  ultimately show ?thesis
    using assms(5) by (auto simp: executor_turn_def idle_def)
qed

text \<open>Reading a whole frame, the first read making the executor answer.\<close>

lemma net_read_idle:
  assumes "c < length (nt_streams w)"
    and "executor_turn rsys order (nt_streams w ! c) (nt_remote w) = (idle fs (xs @ ys), r)" and "length xs = n"
  shows "net_read rsys order c n w =
    (Inr xs, w\<lparr>nt_remote := r, nt_streams := (nt_streams w)[c := idle fs ys]\<rparr>)"
  using assms by (simp add: net_read_def buf_read_def idle_def)

lemma net_ReadResponse:
  assumes c: "c < length (nt_streams w)"
    and turn: "executor_turn rsys order (nt_streams w ! c) (nt_remote w) = (idle fs (frame (encodeResponse opc a)), r)"
    and len: "length (encodeResponse opc a) \<le> MaxFrame"
  shows "ConnReadResponse (net_read rsys order c) opc w =
    (Inr (relevant_response opc a), w\<lparr>nt_remote := r, nt_streams := (nt_streams w)[c := idle fs []]\<rparr>)"
proof -
  let ?body = "encodeResponse opc a"
  let ?w1 = "w\<lparr>nt_remote := r, nt_streams := (nt_streams w)[c := idle fs ?body]\<rparr>"
  have r1: "net_read rsys order c 4 w = (Inr (be32 (word_of_nat (length ?body))), ?w1)"
    using net_read_idle [OF c, of rsys order fs "be32 (word_of_nat (length ?body))" ?body r 4] turn
    by (simp add: frame_def)
  have r2: "net_read rsys order c (length ?body) ?w1 =
      (Inr ?body, w\<lparr>nt_remote := r, nt_streams := (nt_streams w)[c := idle fs []]\<rparr>)"
    using net_read_idle [of c ?w1 rsys order fs ?body "[]" r "length ?body"] c by (simp add: idle_turn)
  have "readFrame (net_read rsys order c) w =
      (Inr ?body, w\<lparr>nt_remote := r, nt_streams := (nt_streams w)[c := idle fs []]\<rparr>)"
    using r2 by (simp add: readFrame_def r1 frame_length_header [OF len] len not_less [THEN iffD2])
  then show ?thesis
    using decodeResponse_encodeResponse [of opc a "[]"] MaxFrame_lt [OF len]
    by (simp add: ConnReadResponse_def ReadResponse_def)
qed

text \<open>
  The session's connection: none yet, or one idle stream whose service is \<open>rfs\<close>; or one just dialed, on which no request
  was sent, because the first one was too large.
\<close>

definition dialed :: "'g fsservice \<Rightarrow> 'g stream" where
  "dialed fs = \<lparr>st_kind = False, st_in = [StreamKindFS], st_out = [], st_fs = fs, st_ended = False\<rparr>"

definition linked :: "('f, nat) session \<Rightarrow> ('g, 'l, 'r) net \<Rightarrow> 'g fsservice \<Rightarrow> bool" where
  "linked s w rfs \<longleftrightarrow> (se_remote s = None \<and> rfs = NewFSService) \<or>
     (\<exists>c. se_remote s = Some (c, NewConn) \<and> c < length (nt_streams w) \<and>
        (nt_streams w ! c = idle rfs [] \<or> nt_streams w ! c = dialed rfs))"

text \<open>A stream is dialed when there is none.\<close>

lemma net_conn:
  assumes "linked s w fs"
  obtains c w1 where
    "remote_conn (net_link rsys order) (s, w) = (Some (c, NewConn), s\<lparr>se_remote := Some (c, NewConn)\<rparr>, w1)"
    "c < length (nt_streams w1)" "nt_remote w1 = nt_remote w" "nt_local w1 = nt_local w"
    "nt_streams w1 ! c = idle fs [] \<or> nt_streams w1 ! c = dialed fs"
  using assms that
  by (auto simp: linked_def remote_conn_def net_link_def net_dial_def net_write_def Let_def dialed_def)

text \<open>A request that is too large is not sent, and a stream dialed for it stays.\<close>

lemma net_unsent:
  assumes "linked s w fs" and "case encodeRequest q of Inl _ \<Rightarrow> True | Inr b \<Rightarrow> MaxFrame < length b"
  shows "\<exists>c w'. remoteRPC (net_link rsys order) q (s, w) = (io_failure, s\<lparr>se_remote := Some (c, NewConn)\<rparr>, w') \<and>
    linked (s\<lparr>se_remote := Some (c, NewConn)\<rparr>) w' fs \<and> nt_remote w' = nt_remote w \<and> nt_local w' = nt_local w"
proof -
  obtain c w1 where c: "remote_conn (net_link rsys order) (s, w) =
        (Some (c, NewConn), s\<lparr>se_remote := Some (c, NewConn)\<rparr>, w1)"
      "c < length (nt_streams w1)" "nt_remote w1 = nt_remote w" "nt_local w1 = nt_local w"
      "nt_streams w1 ! c = idle fs [] \<or> nt_streams w1 ! c = dialed fs"
    by (rule net_conn [OF assms(1)])
  have "\<exists>e. SendRequest (net_write c) q (NewConn, w1) = (Some e, NewConn, w1)"
    using assms(2) by (auto simp: SendRequest_def WriteRequest_def writeFrame_def split: sum.splits)
  with c show ?thesis
    by (auto simp: remoteRPC_def net_link_def linked_def)
qed

text \<open>A request that fits is sent and lies in the stream.\<close>

lemma net_send:
  assumes "linked s w fs" and "encodeRequest q = Inr b" and "length b \<le> MaxFrame"
  obtains c w1 w2 where
    "remote_conn (net_link rsys order) (s, w) = (Some (c, NewConn), s\<lparr>se_remote := Some (c, NewConn)\<rparr>, w1)"
    "SendRequest (net_write c) q (NewConn, w1) = (None, NewConn, w2)"
    "c < length (nt_streams w2)" "nt_remote w2 = nt_remote w" "nt_local w2 = nt_local w"
    "nt_streams w2 ! c = (idle fs [])\<lparr>st_in := frame b\<rparr> \<or>
      nt_streams w2 ! c = \<lparr>st_kind = False, st_in = StreamKindFS # frame b, st_out = [], st_fs = fs, st_ended = False\<rparr>"
proof -
  obtain c w1 where conn: "remote_conn (net_link rsys order) (s, w) =
        (Some (c, NewConn), s\<lparr>se_remote := Some (c, NewConn)\<rparr>, w1)"
      and w1: "c < length (nt_streams w1)" "nt_remote w1 = nt_remote w" "nt_local w1 = nt_local w"
      "nt_streams w1 ! c = idle fs [] \<or> nt_streams w1 ! c = dialed fs"
    by (rule net_conn [OF assms(1)])
  let ?w2 = "net_app c (frame b) w1"
  have "SendRequest (net_write c) q (NewConn, w1) = (None, NewConn, ?w2)"
    by (rule appending_SendRequest [where app = "net_app c"])
      (simp_all add: net_write_app net_app_app assms(2,3))
  moreover have "c < length (nt_streams ?w2)" "nt_remote ?w2 = nt_remote w" "nt_local ?w2 = nt_local w"
      "nt_streams ?w2 ! c = (nt_streams w1 ! c)\<lparr>st_in := st_in (nt_streams w1 ! c) @ frame b\<rparr>"
    using w1 by (auto simp: net_app_def idle_def dialed_def)
  ultimately show thesis
    using that [OF conn] w1(4) by (auto simp: idle_def dialed_def)
qed

lemma net_remoteRPC:
  assumes "linked s w fs" and "encodeRequest q = Inr b" and "length b \<le> MaxFrame"
    and "fs_Handle rsys q (fs, nt_remote w) = (a, fs', r')"
    and "length (encodeResponse (rq_Op q) a) \<le> MaxFrame"
  shows "\<exists>s' w'. remoteRPC (net_link rsys order) q (s, w) = (a, s', w') \<and> linked s' w' fs' \<and>
    nt_remote w' = r' \<and> nt_local w' = nt_local w \<and> se_localFS s' = se_localFS s \<and>
    se_handles s' = se_handles s \<and> se_next s' = se_next s"
proof -
  obtain c w1 w2 where conn: "remote_conn (net_link rsys order) (s, w) =
        (Some (c, NewConn), s\<lparr>se_remote := Some (c, NewConn)\<rparr>, w1)"
      and send: "SendRequest (net_write c) q (NewConn, w1) = (None, NewConn, w2)"
      and w2: "c < length (nt_streams w2)" "nt_remote w2 = nt_remote w" "nt_local w2 = nt_local w"
      and shape: "nt_streams w2 ! c = (idle fs [])\<lparr>st_in := frame b\<rparr> \<or>
        nt_streams w2 ! c = \<lparr>st_kind = False, st_in = StreamKindFS # frame b, st_out = [], st_fs = fs, st_ended = False\<rparr>"
    by (rule net_send [OF assms(1-3)])
  have "executor_turn rsys order (nt_streams w2 ! c) (nt_remote w2) = (idle fs' (frame (encodeResponse (rq_Op q) a)), r')"
    unfolding w2(2) by (rule request_turn [OF assms(2,3,4,5) shape])
  from net_ReadResponse [OF w2(1) this assms(5)] fs_response_relevant [OF assms(4)]
  have "ConnReadResponse (net_read rsys order c) (rq_Op q) w2 =
      (Inr a, w2\<lparr>nt_remote := r', nt_streams := (nt_streams w2)[c := idle fs' []]\<rparr>)"
    by simp
  with conn send w2 show ?thesis
    by (simp add: remoteRPC_def net_link_def linked_def)
qed

subsection \<open>The simulation\<close>

definition simulates :: "('f, nat) session \<times> ('g, 'l, 'r) net \<Rightarrow> ('f, 'g, 'l, 'r) hosts \<Rightarrow> bool" where
  "simulates = (\<lambda>(s, w) st.
     se_localFS s = ho_lfs st \<and> se_handles s = ho_handles st \<and> se_next s = ho_next st \<and>
     nt_local w = ho_l st \<and> nt_remote w = ho_r st \<and> linked s w (ho_rfs st))"

lemma simulates0: "simulates (new_session, net0 l r) (hosts0 l r)"
  by (simp add: simulates_def hosts0_def net0_def linked_def)

text \<open>A call on one side, local or remote.\<close>

lemma simulates_call:
  assumes "simulates (s, w) st"
    and "remote \<Longrightarrow> (case encodeRequest q of Inl _ \<Rightarrow> False | Inr b \<Rightarrow> length b \<le> MaxFrame) \<and>
      length (encodeResponse (rq_Op q) (fst (fs_Handle rsys q (ho_rfs st, ho_r st)))) \<le> MaxFrame"
    and "host_call lsys rsys remote q st = (a, st')"
  shows "\<exists>s' w'. (if remote then remoteRPC (net_link rsys order) q (s, w)
      else localRPC (local_os lsys) q (s, w)) = (a, s', w') \<and> simulates (s', w') st' \<and>
    ho_handles st' = ho_handles st \<and> ho_next st' = ho_next st"
proof (cases remote)
  case True
  obtain fs' r' where h: "fs_Handle rsys q (ho_rfs st, ho_r st) = (a, fs', r')"
      and st': "st' = st\<lparr>ho_rfs := fs', ho_r := r'\<rparr>"
    using assms(3) True by (auto simp: host_call_def split: prod.splits)
  obtain b where b: "encodeRequest q = Inr b" "length b \<le> MaxFrame"
      "length (encodeResponse (rq_Op q) a) \<le> MaxFrame"
    using assms(2) [OF True] h by (auto split: sum.splits)
  have "linked s w (ho_rfs st)" "fs_Handle rsys q (ho_rfs st, nt_remote w) = (a, fs', r')"
    using assms(1) h by (simp_all add: simulates_def)
  from net_remoteRPC [OF this(1) b(1,2) this(2) b(3), of order] assms(1) True st' show ?thesis
    by (auto simp: simulates_def)
next
  case False
  obtain fs' l' where h: "fs_Handle lsys q (ho_lfs st, ho_l st) = (a, fs', l')"
      and st': "st' = st\<lparr>ho_lfs := fs', ho_l := l'\<rparr>"
    using assms(3) False by (auto simp: host_call_def split: prod.splits)
  then have "localRPC (local_os lsys) q (s, w) = (a, s\<lparr>se_localFS := fs'\<rparr>, w\<lparr>nt_local := l'\<rparr>)"
    using assms(1) by (simp add: localRPC_def local_os_Handle in_net_def simulates_def)
  with assms(1) False st' show ?thesis
    by (auto simp: simulates_def linked_def)
qed

lemma simulates_open:
  assumes "simulates (s, w) st" and "is_open q" and "fits rsys route q st"
    and "hosts_handle lsys rsys route q st = (a, st')"
  shows "\<exists>s' w'. session_handle (local_os lsys) (net_link rsys order) route q (s, w) = (a, s', w') \<and>
    simulates (s', w') st'"
proof -
  let ?remote = "IsRemote route (rq_Path q)"
  have op: "rq_Op q \<noteq> OpRename" "rq_Op q \<noteq> OpClose" using assms(2) by (auto simp: is_open_def)
  have tgt: "target route q st = Some (?remote, q)" using assms(2) by (simp add: target_def)
  obtain a1 st1 where call: "host_call lsys rsys ?remote q st = (a1, st1)" by fastforce
  obtain s1 w1 where rpc: "(if ?remote then remoteRPC (net_link rsys order) q (s, w)
        else localRPC (local_os lsys) q (s, w)) = (a1, s1, w1)"
      and sim: "simulates (s1, w1) st1" and tab: "ho_handles st1 = ho_handles st" "ho_next st1 = ho_next st"
    using simulates_call [OF assms(1) _ call, of order] assms(3) tgt
    by (auto simp: fits_def split: bool.splits)
  show ?thesis
  proof (cases "rs_Err a1 = 0")
    case True
    then have a: "a = a1\<lparr>rs_Handle := ho_next st1\<rparr>"
      and st': "st' = st1\<lparr>ho_next := ho_next st1 + 1, ho_handles := (ho_handles st1)(ho_next st1 :=
        Some \<lparr>hr_remote = ?remote, hr_real = rs_Handle a1\<rparr>)\<rparr>"
      using assms(2,4) op tgt call by (simp_all add: hosts_handle_def)
    have "session_handle (local_os lsys) (net_link rsys order) route q (s, w) =
        (a, s1\<lparr>se_next := se_next s1 + 1, se_handles := (se_handles s1)(se_next s1 :=
          Some \<lparr>hr_remote = ?remote, hr_real = rs_Handle a1\<rparr>)\<rparr>, w1)"
      using True assms(2) rpc sim a by (simp add: session_handle_open se_open_def Let_def simulates_def)
    moreover have "simulates (s1\<lparr>se_next := se_next s1 + 1, se_handles := (se_handles s1)(se_next s1 :=
          Some \<lparr>hr_remote = ?remote, hr_real = rs_Handle a1\<rparr>)\<rparr>, w1) st'"
      using sim st' by (simp add: simulates_def linked_def)
    ultimately show ?thesis by blast
  next
    case False
    then have "a = a1" "st' = st1"
      using assms(2,4) op tgt call by (simp_all add: hosts_handle_def)
    with False assms(2) rpc sim show ?thesis
      by (simp add: session_handle_open se_open_def Let_def)
  qed
qed

lemma simulates_by_handle:
  assumes "simulates (s, w) st" and "by_handle q" and "fits rsys route q st"
    and "hosts_handle lsys rsys route q st = (a, st')"
  shows "\<exists>s' w'. session_handle (local_os lsys) (net_link rsys order) route q (s, w) = (a, s', w') \<and>
    simulates (s', w') st'"
proof -
  have op: "rq_Op q \<noteq> OpRename" "\<not> is_open q" "\<not> path_op q"
    using assms(2) by (auto simp: is_open_def by_handle_def path_op_def Let_def)
  show ?thesis
  proof (cases "ho_handles st (rq_Handle q)")
    case None
    then have "a = response0 (neg_errno EBADF)" "st' = st"
      using assms(2,4) op by (simp_all add: hosts_handle_def target_def)
    with None assms(1,2) show ?thesis
      by (simp add: session_handle_by_handle byHandle_def simulates_def)
  next
    case (Some ref)
    let ?q = "q\<lparr>rq_Handle := hr_real ref\<rparr>"
    let ?st = "if rq_Op q = OpClose then st\<lparr>ho_handles := (ho_handles st)(rq_Handle q := None)\<rparr> else st"
    let ?s = "if rq_Op q = OpClose then s\<lparr>se_handles := (se_handles s)(rq_Handle q := None)\<rparr> else s"
    have tgt: "target route q st = Some (hr_remote ref, ?q)"
      using assms(2) op Some by (simp add: target_def)
    define st0 where "st0 = ?st"
    have st0: "ho_rfs st0 = ho_rfs st" "ho_r st0 = ho_r st"
      by (simp_all add: st0_def)
    have call: "host_call lsys rsys (hr_remote ref) ?q st0 = (a, st')"
      using assms(4) op tgt by (simp add: hosts_handle_def case_prod_beta st0_def)
    have sim: "simulates (?s, w) st0"
      using assms(1) by (simp add: simulates_def linked_def st0_def)
    obtain s1 w1 where "(if hr_remote ref then remoteRPC (net_link rsys order) ?q (?s, w)
        else localRPC (local_os lsys) ?q (?s, w)) = (a, s1, w1)" "simulates (s1, w1) st'"
      using simulates_call [OF sim _ call, of order] assms(3) tgt
      by (auto simp: fits_def st0 split: bool.splits)
    moreover have "se_handles s (rq_Handle q) = Some ref"
      using Some assms(1) by (simp add: simulates_def)
    ultimately show ?thesis
      using assms(2) by (auto simp: session_handle_by_handle byHandle_def Let_def)
  qed
qed

lemma simulates_path:
  assumes "simulates (s, w) st" and "\<not> is_open q" and "\<not> by_handle q" and "fits rsys route q st"
    and "hosts_handle lsys rsys route q st = (a, st')"
  shows "\<exists>s' w'. session_handle (local_os lsys) (net_link rsys order) route q (s, w) = (a, s', w') \<and>
    simulates (s', w') st'"
proof (cases "path_op q")
  case False
  then have "a = response0 (neg_errno EINVAL)" "st' = st"
    using assms(2,3,5) by (auto simp: hosts_handle_def target_def path_op_def Let_def)
  with False assms show ?thesis
    by (auto simp: session_handle_def path_op_def is_open_def by_handle_def Let_def)
next
  case True
  then have not_close: "rq_Op q \<noteq> OpClose" by (auto simp: path_op_def Let_def)
  let ?remote = "IsRemote route (rq_Path q)"
  have tgt: "target route q st = Some (?remote, q)" using True by (simp add: target_def)
  show ?thesis
  proof (cases "rq_Op q = OpRename \<and> ?remote \<noteq> IsRemote route (rq_Path2 q)")
    case True
    with assms(1,5) show ?thesis
      by (auto simp: hosts_handle_def session_handle_def se_rename_def)
  next
    case False
    then have call: "host_call lsys rsys ?remote q st = (a, st')"
      using assms(2,5) tgt not_close by (auto simp: hosts_handle_def case_prod_beta)
    obtain s1 w1 where "(if ?remote then remoteRPC (net_link rsys order) q (s, w)
        else localRPC (local_os lsys) q (s, w)) = (a, s1, w1)" "simulates (s1, w1) st'"
      using simulates_call [OF assms(1) _ call, of order] assms(4) tgt
      by (auto simp: fits_def split: bool.splits)
    with False True show ?thesis
      by (auto simp: session_handle_def forwardByPath_def se_rename_def path_op_def Let_def)
  qed
qed

lemma simulates_step:
  assumes "simulates sw st" and "fits rsys route q st"
    and "hosts_handle lsys rsys route q st = (a, st')"
  shows "\<exists>sw'. session_handle (local_os lsys) (net_link rsys order) route q sw = (a, sw') \<and> simulates sw' st'"
proof -
  obtain s w where sw: "sw = (s, w)" by fastforce
  note sim = assms(1) [unfolded sw]
  consider (op) "is_open q" | (hd) "by_handle q" | (other) "\<not> is_open q" "\<not> by_handle q" by blast
  then show ?thesis
  proof cases
    case op
    from simulates_open [OF sim op assms(2,3), of order] show ?thesis by (auto simp: sw)
  next
    case hd
    from simulates_by_handle [OF sim hd assms(2,3), of order] show ?thesis by (auto simp: sw)
  next
    case other
    from simulates_path [OF sim other assms(2,3), of order] show ?thesis by (auto simp: sw)
  qed
qed

lemma simulates_run:
  "simulates sw st \<Longrightarrow> run_fits lsys rsys route qs st \<Longrightarrow>
   run (hosts_handle lsys rsys route) qs st = (rs, st') \<Longrightarrow>
   \<exists>sw'. run (session_handle (local_os lsys) (net_link rsys order) route) qs sw = (rs, sw') \<and> simulates sw' st'"
proof (induction qs arbitrary: sw st rs)
  case (Cons q qs)
  obtain a st1 where q: "hosts_handle lsys rsys route q st = (a, st1)" by fastforce
  obtain rs1 where rs: "run (hosts_handle lsys rsys route) qs st1 = (rs1, st')" "rs = a # rs1"
    using Cons.prems(3) q by (auto simp: Let_def split: prod.splits)
  have fit: "fits rsys route q st" "run_fits lsys rsys route qs st1"
    using Cons.prems(2) q by simp_all
  then obtain sw1 where sw1:
      "session_handle (local_os lsys) (net_link rsys order) route q sw = (a, sw1)" "simulates sw1 st1"
    using simulates_step [OF Cons.prems(1) _ q] by blast
  with Cons.IH [OF sw1(2) fit(2) rs(1)] rs(2) show ?case by auto
qed simp

subsection \<open>Handles are never confused\<close>

definition side_fs :: "bool \<Rightarrow> ('f, 'g, 'l, 'r) hosts \<Rightarrow> u64 set \<times> u64" where
  "side_fs remote st =
     (if remote then (dom (fs_open (ho_rfs st)), fs_next (ho_rfs st))
      else (dom (fs_open (ho_lfs st)), fs_next (ho_lfs st)))"

text \<open>
  Every handle of the table stands for an open file of its side's service, no two for the same one,
  and the services' handles are below their counters.
\<close>

definition table_ok :: "('f, 'g, 'l, 'r) hosts \<Rightarrow> bool" where
  "table_ok st \<longleftrightarrow>
     (\<forall>a ref. ho_handles st a = Some ref \<longrightarrow> hr_real ref \<in> fst (side_fs (hr_remote ref) st)) \<and>
     inj_on (ho_handles st) (dom (ho_handles st)) \<and>
     (\<forall>a \<in> dom (ho_handles st). a < ho_next st) \<and>
     (\<forall>side. \<forall>h \<in> fst (side_fs side st). h < snd (side_fs side st))"

text \<open>How many handles can still be given out before a counter wraps.\<close>

definition room :: "('f, 'g, 'l, 'r) hosts \<Rightarrow> nat \<Rightarrow> bool" where
  "room st n \<longleftrightarrow> unat (ho_next st) + n < 2 ^ 64 \<and> (\<forall>side. unat (snd (side_fs side st)) + n < 2 ^ 64)"

lemma host_call_side:
  assumes "host_call lsys rsys remote q st = (a, st')"
  shows "fst (side_fs remote st') = track q a (fst (side_fs remote st)) \<and>
    (if is_open q \<and> rs_Err a = 0
     then rs_Handle a = snd (side_fs remote st) \<and> snd (side_fs remote st') = snd (side_fs remote st) + 1
     else snd (side_fs remote st') = snd (side_fs remote st)) \<and>
    side_fs (\<not> remote) st' = side_fs (\<not> remote) st \<and> ho_handles st' = ho_handles st \<and> ho_next st' = ho_next st"
proof (cases remote)
  case True
  then obtain fs w where h: "fs_Handle rsys q (ho_rfs st, ho_r st) = (a, fs, w)" "st' = st\<lparr>ho_rfs := fs, ho_r := w\<rparr>"
    using assms by (auto simp: host_call_def split: prod.splits)
  with fs.tracks [OF h(1)] fs.opens [OF _ h(1)] fs.keeps_next [OF h(1)] True show ?thesis
    by (simp add: side_fs_def)
next
  case False
  then obtain fs w where h: "fs_Handle lsys q (ho_lfs st, ho_l st) = (a, fs, w)" "st' = st\<lparr>ho_lfs := fs, ho_l := w\<rparr>"
    using assms by (auto simp: host_call_def split: prod.splits)
  with fs.tracks [OF h(1)] fs.opens [OF _ h(1)] fs.keeps_next [OF h(1)] False show ?thesis
    by (simp add: side_fs_def)
qed

lemma less_next: "h < (n :: u64) \<Longrightarrow> unat n + Suc k < 2 ^ 64 \<Longrightarrow> h < n + 1"
  using word_plus_one [of n "Suc k"] by (simp add: word_less_nat_alt)

lemma self_less_next: "unat (n :: u64) + Suc k < 2 ^ 64 \<Longrightarrow> n < n + 1"
  using word_plus_one [of n "Suc k"] by (simp add: word_less_nat_alt)

text \<open>A call that neither opens nor closes keeps both services' tables.\<close>

lemma host_call_neutral:
  assumes "host_call lsys rsys remote q st = (a, st')"
    and "\<not> (is_open q \<and> rs_Err a = 0)" and "rq_Op q \<noteq> OpClose"
  shows "side_fs side st' = side_fs side st \<and> ho_handles st' = ho_handles st \<and> ho_next st' = ho_next st"
  using host_call_side [OF assms(1)] assms(2,3)
  by (cases "side = remote") (auto simp: track_def prod_eq_iff)

lemma table_ok_same:
  assumes "table_ok st" and "\<And>side. side_fs side st' = side_fs side st"
    and "ho_handles st' = ho_handles st" and "ho_next st' = ho_next st"
  shows "table_ok st'"
  using assms by (simp add: table_ok_def)

lemma table_ok_close:
  assumes ok: "table_ok st" and a: "ho_handles st a = Some ref"
    and call: "host_call lsys rsys (hr_remote ref) (q\<lparr>rq_Handle := hr_real ref\<rparr>)
      (st\<lparr>ho_handles := (ho_handles st)(a := None)\<rparr>) = (r, st')"
    and q: "rq_Op q = OpClose"
  shows "table_ok st' \<and> ho_next st' = ho_next st \<and> (\<forall>side. snd (side_fs side st') = snd (side_fs side st))"
proof -
  let ?st = "st\<lparr>ho_handles := (ho_handles st)(a := None)\<rparr>"
  have side: "side_fs side ?st = side_fs side st" for side by (simp add: side_fs_def)
  have notopen: "\<not> is_open (q\<lparr>rq_Handle := hr_real ref\<rparr>)" using q by (simp add: is_open_def)
  note cs = host_call_side [OF call]
  have live: "fst (side_fs (hr_remote ref) st') = fst (side_fs (hr_remote ref) st) - {hr_real ref}"
      "snd (side_fs (hr_remote ref) st') = snd (side_fs (hr_remote ref) st)"
      "side_fs (\<not> hr_remote ref) st' = side_fs (\<not> hr_remote ref) st"
      "ho_handles st' = (ho_handles st)(a := None)" "ho_next st' = ho_next st"
    using cs notopen q by (simp_all add: side track_def)
  have nexts: "snd (side_fs side st') = snd (side_fs side st)" for side
    using live by (cases "side = hr_remote ref") auto
  have inj: "inj_on (ho_handles st) (dom (ho_handles st))" using ok by (simp add: table_ok_def)
  have other: "hr_real x \<in> fst (side_fs (hr_remote x) st')" if x: "ho_handles st' b = Some x" for b x
  proof -
    have b: "ho_handles st b = Some x" "b \<noteq> a" using x live(4) by (auto split: if_splits)
    then have "x \<noteq> ref" using inj a by (auto simp: inj_on_def dom_def)
    moreover have "hr_real x \<in> fst (side_fs (hr_remote x) st)" using ok b by (simp add: table_ok_def)
    moreover have "hr_remote x = hr_remote ref \<Longrightarrow> hr_real x = hr_real ref \<Longrightarrow> x = ref" by simp
    ultimately show ?thesis using live by (cases "hr_remote x = hr_remote ref") auto
  qed
  have sub: "h < snd (side_fs side st)" if "h \<in> fst (side_fs side st')" for h side
    using that live(1,3) ok by (cases "side = hr_remote ref") (auto simp: table_ok_def)
  have "table_ok st'"
    unfolding table_ok_def
  proof (intro conjI allI impI ballI)
    show "inj_on (ho_handles st') (dom (ho_handles st'))"
      unfolding live(4) by (rule inj_map_del [OF inj])
    show "b < ho_next st'" if "b \<in> dom (ho_handles st')" for b
      using that ok by (auto simp: live(4,5) table_ok_def split: if_splits)
  qed (use other sub nexts in auto)
  with live(5) nexts show ?thesis by blast
qed

lemma table_ok_open:
  assumes ok: "table_ok st" and room: "room st (Suc n)" and q: "is_open q" "rs_Err a = 0"
    and call: "host_call lsys rsys remote q st = (a, st1)"
  shows "table_ok (st1\<lparr>ho_next := ho_next st1 + 1,
    ho_handles := (ho_handles st1)(ho_next st1 := Some \<lparr>hr_remote = remote, hr_real = rs_Handle a\<rparr>)\<rparr>)"
proof -
  let ?ref = "\<lparr>hr_remote = remote, hr_real = rs_Handle a\<rparr>"
  let ?st = "st1\<lparr>ho_next := ho_next st1 + 1, ho_handles := (ho_handles st1)(ho_next st1 := Some ?ref)\<rparr>"
  have side: "side_fs side ?st = side_fs side st1" for side by (simp add: side_fs_def)
  have real: "rs_Handle a = snd (side_fs remote st)"
    and live: "fst (side_fs remote st1) = insert (rs_Handle a) (fst (side_fs remote st))"
      "snd (side_fs remote st1) = snd (side_fs remote st) + 1"
      "side_fs (\<not> remote) st1 = side_fs (\<not> remote) st"
      "ho_handles st1 = ho_handles st" "ho_next st1 = ho_next st"
    using host_call_side [OF call] q by (simp_all add: track_def)
  have below: "h < snd (side_fs s st)" if "h \<in> fst (side_fs s st)" for h s
    using ok that by (simp add: table_ok_def)
  have unused: "x \<noteq> ?ref" if "ho_handles st b = Some x" for b x
  proof
    assume "x = ?ref"
    then have "rs_Handle a \<in> fst (side_fs remote st)" using ok that by (force simp: table_ok_def)
    with below real show False by fastforce
  qed
  have "inj_on (ho_handles st) (dom (ho_handles st))" "\<And>b. ho_handles st b \<noteq> Some ?ref"
    using ok unused by (auto simp: table_ok_def)
  note inj_st = inj_map_upd [OF this, of "ho_next st"]
  have tab: "ho_handles ?st = (ho_handles st)(ho_next st := Some ?ref)"
    by (simp add: live(4,5))
  have "inj_on (ho_handles ?st) (dom (ho_handles ?st))"
    unfolding tab by (rule inj_st)
  moreover have "hr_real x \<in> fst (side_fs (hr_remote x) st1)" if "ho_handles ?st b = Some x" for b x
  proof (cases "x = ?ref")
    case False
    then have "hr_real x \<in> fst (side_fs (hr_remote x) st)"
      using that ok by (auto simp: live(4,5) table_ok_def split: if_splits)
    then show ?thesis using live by (cases "hr_remote x = remote") auto
  qed (simp add: live(1))
  moreover have "b < ho_next st + 1" if "b \<in> dom (ho_handles ?st)" for b
  proof -
    have "b \<in> dom (ho_handles st) \<or> b = ho_next st" using that by (auto simp: live(4,5) split: if_splits)
    then show ?thesis
      using ok room less_next [of b "ho_next st" n] self_less_next [of "ho_next st" n]
      unfolding table_ok_def room_def by fastforce
  qed
  moreover have "h < snd (side_fs s st1)" if "h \<in> fst (side_fs s st1)" for h s
  proof (cases "s = remote")
    case True
    then show ?thesis
      using that live real below [of h remote] room less_next [of h "snd (side_fs remote st)" n]
        self_less_next [of "snd (side_fs remote st)" n]
      by (auto simp: room_def)
  next
    case False
    then have "side_fs s st1 = side_fs s st" using live(3) by (cases s; cases remote) auto
    with that below show ?thesis by simp
  qed
  ultimately show ?thesis
    unfolding table_ok_def side by (auto simp: live(5))
qed

lemma room_mono: "room st (Suc n) \<Longrightarrow> room st n"
  unfolding room_def by (metis Suc_lessD add_Suc_right)

lemma room_open:
  assumes "room st (Suc n)" and "ho_next st' = ho_next st + 1"
    and "snd (side_fs remote st') = snd (side_fs remote st) + 1"
    and "side_fs (\<not> remote) st' = side_fs (\<not> remote) st"
  shows "room st' n"
proof -
  have "unat (snd (side_fs side st')) + n < 2 ^ 64" for side
    using assms(1,3,4) word_plus_one [of "snd (side_fs remote st)" "Suc n"] room_mono [OF assms(1)]
    by (cases "side = remote") (auto simp: room_def)
  moreover have "unat (ho_next st') + n < 2 ^ 64"
    using assms(1,2) word_plus_one [of "ho_next st" "Suc n"] by (auto simp: room_def)
  ultimately show ?thesis by (simp add: room_def)
qed

lemma table_ok_step:
  assumes ok: "table_ok st" and room: "room st (Suc n)"
    and q: "hosts_handle lsys rsys route q st = (a, st')"
  shows "table_ok st' \<and> room st' n"
proof (cases "rq_Op q = OpRename \<and> IsRemote route (rq_Path q) \<noteq> IsRemote route (rq_Path2 q) \<or> target route q st = None")
  case True
  then have "st' = st" using q by (auto simp: hosts_handle_def split: if_splits)
  with ok room_mono [OF room] show ?thesis by simp
next
  case False
  then obtain remote q' where tgt: "target route q st = Some (remote, q')" by auto
  have op: "rq_Op q' = rq_Op q" "is_open q' = is_open q"
    using tgt by (auto simp: target_def is_open_def split: if_splits)
  define st0 where "st0 = (if rq_Op q = OpClose then st\<lparr>ho_handles := (ho_handles st)(rq_Handle q := None)\<rparr> else st)"
  obtain b st1 where call: "host_call lsys rsys remote q' st0 = (b, st1)" by fastforce
  have res: "(a, st') = (if is_open q \<and> rs_Err b = 0
      then (b\<lparr>rs_Handle := ho_next st1\<rparr>, st1\<lparr>ho_next := ho_next st1 + 1,
        ho_handles := (ho_handles st1)(ho_next st1 := Some \<lparr>hr_remote = remote, hr_real = rs_Handle b\<rparr>)\<rparr>)
      else (b, st1))"
    using q False unfolding hosts_handle_def by (auto simp: tgt call [unfolded st0_def] split: if_splits)
  consider (op) "is_open q" "rs_Err b = 0" | (close) "rq_Op q = OpClose" | (same) "\<not> (is_open q \<and> rs_Err b = 0)" "rq_Op q \<noteq> OpClose"
    by blast
  then show ?thesis
  proof cases
    case op: op
    then have [simp]: "st0 = st" by (auto simp: st0_def is_open_def)
    have st': "st' = st1\<lparr>ho_next := ho_next st1 + 1,
        ho_handles := (ho_handles st1)(ho_next st1 := Some \<lparr>hr_remote = remote, hr_real = rs_Handle b\<rparr>)\<rparr>"
      using res op by simp
    have side: "side_fs s st' = side_fs s st1" for s by (simp add: st' side_fs_def)
    have "table_ok st'"
      using table_ok_open [OF ok room _ op(2)] call op \<open>is_open q' = is_open q\<close> st' by simp
    moreover have "room st' n"
      using host_call_side [OF call] op \<open>is_open q' = is_open q\<close>
      by (intro room_open [OF room, of _ remote]) (simp_all add: side, simp_all add: st')
    ultimately show ?thesis ..
  next
    case close
    then have "by_handle q" "\<not> is_open q" "\<not> path_op q"
      by (auto simp: by_handle_def is_open_def path_op_def Let_def)
    then obtain ref where ref: "ho_handles st (rq_Handle q) = Some ref" "remote = hr_remote ref" "q' = q\<lparr>rq_Handle := hr_real ref\<rparr>"
      using tgt by (auto simp: target_def)
    from table_ok_close [OF ok ref(1) _ close, of lsys rsys b st1] call close res \<open>\<not> is_open q\<close>
    have "table_ok st'" "ho_next st' = ho_next st" "\<And>side. snd (side_fs side st') = snd (side_fs side st)"
      by (simp_all add: st0_def ref)
    with room_mono [OF room] show ?thesis by (simp add: room_def)
  next
    case same
    then have "st0 = st" "st' = st1" using res by (simp_all add: st0_def split: if_splits)
    with host_call_neutral [OF call] same op have
      keep: "side_fs side st' = side_fs side st" "ho_handles st' = ho_handles st" "ho_next st' = ho_next st" for side
      by simp_all
    from table_ok_same [OF ok keep] room_mono [OF room] keep show ?thesis by (simp add: room_def)
  qed
qed

lemma table_ok_run:
  "table_ok st \<Longrightarrow> room st (length qs) \<Longrightarrow> run (hosts_handle lsys rsys route) qs st = (rs, st') \<Longrightarrow> table_ok st'"
proof (induction qs arbitrary: st rs)
  case (Cons q qs)
  obtain a st1 where q: "hosts_handle lsys rsys route q st = (a, st1)" by fastforce
  obtain rs1 where rs: "run (hosts_handle lsys rsys route) qs st1 = (rs1, st')"
    using Cons.prems(3) q by (auto simp: Let_def split: prod.splits)
  from table_ok_step [OF Cons.prems(1) _ q] Cons.prems(2) have "table_ok st1 \<and> room st1 (length qs)" by simp
  with Cons.IH rs show ?case by blast
qed simp

lemma table_ok0: "table_ok (hosts0 l r)"
  by (simp add: table_ok_def hosts0_def side_fs_def NewFSService_def)

lemma room0: "n < 2 ^ 64 - 1 \<Longrightarrow> room (hosts0 l r) n"
  by (simp add: room_def hosts0_def side_fs_def NewFSService_def)

subsection \<open>Only the encoded fields matter\<close>

lemma relevant_simps [simp]:
  "rq_Op (relevant q) = rq_Op q" "is_open (relevant q) = is_open q" "by_handle (relevant q) = by_handle q"
  "path_op (relevant q) = path_op q"
  by (simp_all add: relevant_def request0_def is_open_def by_handle_def path_op_def Let_def)

lemma relevant_path: "is_open q \<or> path_op q \<Longrightarrow> rq_Path (relevant q) = rq_Path q"
  by (auto simp: relevant_def request0_def is_open_def path_op_def Let_def)

lemma relevant_path2: "rq_Op q = OpRename \<Longrightarrow> rq_Path (relevant q) = rq_Path q \<and> rq_Path2 (relevant q) = rq_Path2 q"
  by (simp add: relevant_def request0_def Let_def)

lemma relevant_handle: "by_handle q \<Longrightarrow> rq_Handle (relevant q) = rq_Handle q"
  by (auto simp: relevant_def request0_def by_handle_def Let_def)

lemma relevant_with_handle:
  assumes "by_handle q"
  shows "relevant ((relevant q)\<lparr>rq_Handle := h\<rparr>) = relevant (q\<lparr>rq_Handle := h\<rparr>)"
proof -
  from assms consider "rq_Op q = OpPread" | "rq_Op q = OpPwrite" | "rq_Op q = OpClose"
    by (auto simp: by_handle_def)
  then show ?thesis
    by cases (simp_all add: relevant_def request0_def)
qed

lemma host_call_cong: "relevant q = relevant q' \<Longrightarrow> host_call lsys rsys remote q st = host_call lsys rsys remote q' st"
  unfolding host_call_def by (metis fs_Handle_relevant)

lemma host_call_relevant: "host_call lsys rsys remote (relevant q) st = host_call lsys rsys remote q st"
  by (simp add: host_call_def fs_Handle_relevant)

lemma hosts_handle_relevant:
  "hosts_handle lsys rsys route (relevant q) st = hosts_handle lsys rsys route q st"
proof (cases "by_handle q")
  case True
  then have "\<not> is_open q" "\<not> path_op q" "rq_Op q \<noteq> OpRename"
    by (auto simp: by_handle_def is_open_def path_op_def Let_def)
  with True show ?thesis
    by (simp add: hosts_handle_def target_def relevant_handle
        host_call_cong [OF relevant_with_handle [OF True]] split: option.split)
next
  case False
  show ?thesis
  proof (cases "is_open q \<or> path_op q")
    case True
    then have "rq_Op q \<noteq> OpClose" by (auto simp: is_open_def path_op_def Let_def)
    with True False show ?thesis
      by (simp add: hosts_handle_def target_def relevant_path relevant_path2 host_call_relevant cong: conj_cong)
  next
    case other: False
    then have "rq_Op q \<noteq> OpRename" by (auto simp: path_op_def Let_def)
    with False other show ?thesis by (simp add: hosts_handle_def target_def)
  qed
qed

lemma run_hosts_relevant:
  "run (hosts_handle lsys rsys route) (map relevant qs) st = run (hosts_handle lsys rsys route) qs st"
  by (induction qs arbitrary: st) (simp_all add: hosts_handle_relevant)

lemma host_call_response:
  "host_call lsys rsys remote q st = (a, st') \<Longrightarrow> relevant_response (rq_Op q) a = a"
  by (auto simp: host_call_def fs_response_relevant split: if_splits prod.splits)

lemma relevant_response_handle:
  "is_open q \<Longrightarrow> rs_Err a = 0 \<Longrightarrow> relevant_response (rq_Op q) a = a \<Longrightarrow>
   relevant_response (rq_Op q) (a\<lparr>rs_Handle := h\<rparr>) = a\<lparr>rs_Handle := h\<rparr>"
  by (cases a) (auto simp: relevant_response_def is_open_def response0_def Let_def)

lemma hosts_response_relevant:
  assumes "hosts_handle lsys rsys route q st = (a, st')"
  shows "relevant_response (rq_Op q) a = a"
proof (cases "rq_Op q = OpRename \<and> IsRemote route (rq_Path q) \<noteq> IsRemote route (rq_Path2 q) \<or> target route q st = None")
  case True
  then have "\<exists>e. a = response0 e" using assms by (auto simp: hosts_handle_def split: if_splits)
  then show ?thesis by (auto simp: relevant_response_errno)
next
  case False
  then obtain remote q' where tgt: "target route q st = Some (remote, q')" by auto
  have op: "rq_Op q' = rq_Op q" using tgt by (auto simp: target_def split: if_splits)
  let ?st = "if rq_Op q = OpClose then st\<lparr>ho_handles := (ho_handles st)(rq_Handle q := None)\<rparr> else st"
  obtain b st1 where call: "host_call lsys rsys remote q' ?st = (b, st1)" by fastforce
  note rel = host_call_response [OF call, unfolded op]
  have "a = b \<or> is_open q \<and> rs_Err b = 0 \<and> (\<exists>h. a = b\<lparr>rs_Handle := h\<rparr>)"
    using assms False unfolding hosts_handle_def by (auto simp: tgt call split: if_splits)
  with rel relevant_response_handle show ?thesis by blast
qed

lemma run_hosts_responses:
  "run (hosts_handle lsys rsys route) qs st = (rs, st') \<Longrightarrow> map2 (\<lambda>q r. relevant_response (rq_Op q) r) qs rs = rs"
  by (induction qs arbitrary: st rs) (auto simp: Let_def hosts_response_relevant split: prod.splits)

subsection \<open>The end of a session\<close>

lemma CloseAll_local_os:
  "CloseAll (local_os sys) hs (fs, w) =
     (case CloseAll sys hs (fs, nt_local w) of (fs', l) \<Rightarrow> (fs', w\<lparr>nt_local := l\<rparr>))"
  by (induction hs arbitrary: fs w)
    (simp_all add: local_os_def on_local_def Let_def split: option.split prod.split)

end
