(* ===== verification/LinuxFuse.thy ===== *)
theory LinuxFuse
  imports Adapter
begin

unbundle bit_operations_syntax

section \<open>The FUSE filesystem of Linux targets (internal/linuxfuse/fs_linux.go)\<close>

text \<open>
  The client of the adapter that reconnects after an error, and the operations of routed directories
  and files as go-fuse calls them. The operations use the client only through \<open>call\<close>, which is
  their argument: a function from a request and the state to a response and the state. What go-fuse
  keeps of a node is the record \<open>inode\<close>; an error is the \<open>syscall.Errno\<close> returned, 0 for none.
\<close>

subsection \<open>The client\<close>

type_synonym 'c client = "('c \<times> bufw) option"

text \<open>The connection of the client, dialed when there is none; no stream kind is sent.\<close>

definition client_conn :: "('c, 'w) link \<Rightarrow> 'c client \<times> 'w \<Rightarrow> 'c client \<times> 'w" where
  "client_conn lk = (\<lambda>(c, w).
     (case c of
        Some cb \<Rightarrow> (Some cb, w)
      | None \<Rightarrow> (case lk_dial lk w of (None, w) \<Rightarrow> (None, w) | (Some s, w) \<Rightarrow> (Some (s, NewConn), w))))"

definition client_reset :: "('c, 'w) link \<Rightarrow> 'c client \<times> 'w \<Rightarrow> 'c client \<times> 'w" where
  "client_reset lk = (\<lambda>(c, w).
     (case c of None \<Rightarrow> (None, w) | Some (s, b) \<Rightarrow> (None, lk_close lk s w)))"

definition client_call :: "('c, 'w) link \<Rightarrow> request \<Rightarrow> 'c client \<times> 'w \<Rightarrow> response \<times> 'c client \<times> 'w" where
  "client_call lk req cw =
     (case client_conn lk cw of
        (None, w) \<Rightarrow> (io_failure, None, w)
      | (Some (s, b), w) \<Rightarrow>
          (case SendRequest (lk_write lk s) req (b, w) of
             (Some e, b, w) \<Rightarrow> (io_failure, client_reset lk (Some (s, b), w))
           | (None, b, w) \<Rightarrow>
               (case ConnReadResponse (lk_read lk s) (rq_Op req) w of
                  (Inl e, w) \<Rightarrow> (io_failure, client_reset lk (Some (s, b), w))
                | (Inr resp, w) \<Rightarrow> (resp, Some (s, b), w))))"

subsection \<open>Attributes\<close>

type_synonym fuse_errno = u64

definition fuse_EBADF :: fuse_errno where "fuse_EBADF = 9"
definition fuse_EINVAL :: fuse_errno where "fuse_EINVAL = 22"
definition fuse_EXDEV :: fuse_errno where "fuse_EXDEV = 18"

text \<open>\<open>syscall.Errno(-resp.Err)\<close>: the negation wraps at 32 bits, the conversion extends the sign.\<close>

definition resp_errno :: "response \<Rightarrow> fuse_errno" where
  "resp_errno resp = scast (- rs_Err resp)"

abbreviation S_IFDIR :: u32 where "S_IFDIR \<equiv> 0x4000"
abbreviation S_IFREG :: u32 where "S_IFREG \<equiv> 0x8000"
abbreviation S_IFLNK :: u32 where "S_IFLNK \<equiv> 0xA000"

record Attr =
  at_Mode :: u32
  at_Size :: u64
  at_Mtime :: u64
  at_Mtimensec :: u32
  at_Atime :: u64
  at_Atimensec :: u32
  at_Ctime :: u64
  at_Ctimensec :: u32

text \<open>For a positive time Go's truncated division is \<open>div\<close>.\<close>

definition fillAttr :: "response \<Rightarrow> Attr \<Rightarrow> Attr" where
  "fillAttr resp a =
     (let a = a\<lparr>at_Mode := rs_Mode resp, at_Size := rs_Size resp\<rparr> in
      if sint (rs_Mtime resp) > 0 then
        (let sec = word_of_int (sint (rs_Mtime resp) div 1000000000);
             nsec = word_of_int (sint (rs_Mtime resp) mod 1000000000)
         in a\<lparr>at_Mtime := sec, at_Mtimensec := nsec, at_Atime := sec, at_Atimensec := nsec,
              at_Ctime := sec, at_Ctimensec := nsec\<rparr>)
      else a)"

text \<open>FNV-1a of \<open>hash/fnv\<close>, 64 bits.\<close>

definition fnv64a :: "bytes \<Rightarrow> u64" where
  "fnv64a bs = foldl (\<lambda>h b. (h XOR ucast b) * 1099511628211) 14695981039346656037 bs"

record StableAttr =
  sa_Mode :: u32
  sa_Ino :: u64
  sa_Gen :: u64

definition stableAttr :: "string \<Rightarrow> u32 \<Rightarrow> StableAttr" where
  "stableAttr path mode =
     (let ino = fnv64a (bytes_of_str path);
          ino = (if ino \<le> 1 \<or> ino = NOT 0 then 2 else ino)
      in \<lparr>sa_Mode = mode, sa_Ino = ino, sa_Gen = 1\<rparr>)"

text \<open>A node, a \<open>dirNode\<close> or a \<open>fileNode\<close> with its remote path, and its identity for go-fuse.\<close>

record inode =
  in_dir :: bool
  in_path :: string
  in_attr :: StableAttr

type_synonym 's caller = "request \<Rightarrow> 's \<Rightarrow> response \<times> 's"

definition newNode :: "'s caller \<Rightarrow> string \<Rightarrow> Attr \<Rightarrow> 's \<Rightarrow> (fuse_errno + inode \<times> Attr) \<times> 's" where
  "newNode call path out st =
     (let (resp, st) = call ((request0 OpStat)\<lparr>rq_Path := path\<rparr>) st in
      if rs_Err resp \<noteq> 0 then (Inl (resp_errno resp), st)
      else if IsDir resp then
        (Inr (\<lparr>in_dir = True, in_path = path, in_attr = stableAttr path S_IFDIR\<rparr>, fillAttr resp out), st)
      else (Inr (\<lparr>in_dir = False, in_path = path, in_attr = stableAttr path S_IFREG\<rparr>, fillAttr resp out), st))"

definition fuse_getattr :: "'s caller \<Rightarrow> string \<Rightarrow> Attr \<Rightarrow> 's \<Rightarrow> (fuse_errno + Attr) \<times> 's" where
  "fuse_getattr call path out st =
     (let (resp, st) = call ((request0 OpStat)\<lparr>rq_Path := path\<rparr>) st in
      if rs_Err resp \<noteq> 0 then (Inl (resp_errno resp), st) else (Inr (fillAttr resp out), st))"

text \<open>
  What go-fuse's accessors give of the kernel's request: mode, size, and the times as \<open>UnixNano\<close>;
  \<open>None\<close> for a field the request does not set.
\<close>

record SetAttrIn =
  si_Mode :: "u32 option"
  si_Size :: "u64 option"
  si_ATime :: "i64 option"
  si_MTime :: "i64 option"

definition setattr_request :: "string \<Rightarrow> SetAttrIn \<Rightarrow> request" where
  "setattr_request path inp =
     (let req = (request0 OpSetattr)\<lparr>rq_Path := path\<rparr>;
          req = (case si_Mode inp of None \<Rightarrow> req | Some m \<Rightarrow> req\<lparr>rq_Mask := rq_Mask req OR SetMode, rq_Mode := m\<rparr>);
          req = (case si_Size inp of None \<Rightarrow> req | Some sz \<Rightarrow> req\<lparr>rq_Mask := rq_Mask req OR SetSize, rq_Size := sz\<rparr>);
          req = (case si_ATime inp of None \<Rightarrow> req | Some t \<Rightarrow> req\<lparr>rq_Mask := rq_Mask req OR SetAtime, rq_Atime := t\<rparr>)
      in (case si_MTime inp of None \<Rightarrow> req | Some t \<Rightarrow> req\<lparr>rq_Mask := rq_Mask req OR SetMtime, rq_Mtime := t\<rparr>))"

definition fuse_setattr :: "'s caller \<Rightarrow> string \<Rightarrow> SetAttrIn \<Rightarrow> Attr \<Rightarrow> 's \<Rightarrow> (fuse_errno + Attr) \<times> 's" where
  "fuse_setattr call path inp out st =
     (let req = setattr_request path inp in
      if rq_Mask req \<noteq> 0 then
        (let (resp, st) = call req st in
         if rs_Err resp \<noteq> 0 then (Inl (resp_errno resp), st) else fuse_getattr call path out st)
      else fuse_getattr call path out st)"

subsection \<open>Directories\<close>

definition direntMode :: "byte \<Rightarrow> u32" where
  "direntMode t =
     (if t = DTDir then S_IFDIR else if t = DTLnk then S_IFLNK else if t = DTReg then S_IFREG else 0)"

text \<open>The loop of \<open>Readdir\<close>; a name without a type is of unknown type.\<close>

fun dir_entries :: "string list \<Rightarrow> byte list \<Rightarrow> (string \<times> u32) list" where
  "dir_entries [] ts = []"
| "dir_entries (n # ns) [] = (n, direntMode DTUnknown) # dir_entries ns []"
| "dir_entries (n # ns) (t # ts) = (n, direntMode t) # dir_entries ns ts"

definition dir_Getattr :: "'s caller \<Rightarrow> string \<Rightarrow> Attr \<Rightarrow> 's \<Rightarrow> (fuse_errno + Attr) \<times> 's" where
  "dir_Getattr call d out st = fuse_getattr call d out st"

definition dir_Setattr :: "'s caller \<Rightarrow> string \<Rightarrow> SetAttrIn \<Rightarrow> Attr \<Rightarrow> 's \<Rightarrow> (fuse_errno + Attr) \<times> 's" where
  "dir_Setattr call d inp out st = fuse_setattr call d inp out st"

definition dir_Readdir :: "'s caller \<Rightarrow> string \<Rightarrow> 's \<Rightarrow> (fuse_errno + (string \<times> u32) list) \<times> 's" where
  "dir_Readdir call d st =
     (let (resp, st) = call ((request0 OpReaddir)\<lparr>rq_Path := d\<rparr>) st in
      if rs_Err resp \<noteq> 0 then (Inl (resp_errno resp), st)
      else (Inr (dir_entries (rs_Names resp) (rs_Types resp)), st))"

definition dir_Lookup :: "'s caller \<Rightarrow> string \<Rightarrow> string \<Rightarrow> Attr \<Rightarrow> 's \<Rightarrow> (fuse_errno + inode \<times> Attr) \<times> 's" where
  "dir_Lookup call d name out st = newNode call (JoinPath [d, name]) out st"

definition dir_Create ::
    "'s caller \<Rightarrow> string \<Rightarrow> string \<Rightarrow> u32 \<Rightarrow> u32 \<Rightarrow> Attr \<Rightarrow> 's \<Rightarrow> (fuse_errno + inode \<times> u64 \<times> Attr) \<times> 's" where
  "dir_Create call d name flags mode out st =
     (let path = JoinPath [d, name];
          (resp, st) = call ((request0 OpCreate)\<lparr>rq_Path := path, rq_Flags := flags, rq_Mode := mode\<rparr>) st in
      if rs_Err resp \<noteq> 0 then (Inl (resp_errno resp), st)
      else (Inr (\<lparr>in_dir = False, in_path = path, in_attr = stableAttr path S_IFREG\<rparr>, rs_Handle resp, fillAttr resp out), st))"

definition dir_Mkdir :: "'s caller \<Rightarrow> string \<Rightarrow> string \<Rightarrow> u32 \<Rightarrow> Attr \<Rightarrow> 's \<Rightarrow> (fuse_errno + inode \<times> Attr) \<times> 's" where
  "dir_Mkdir call d name mode out st =
     (let path = JoinPath [d, name];
          (resp, st) = call ((request0 OpMkdir)\<lparr>rq_Path := path, rq_Mode := mode\<rparr>) st in
      if rs_Err resp \<noteq> 0 then (Inl (resp_errno resp), st) else newNode call path out st)"

definition dir_remove :: "'s caller \<Rightarrow> string \<Rightarrow> string \<Rightarrow> u32 \<Rightarrow> 's \<Rightarrow> fuse_errno \<times> 's" where
  "dir_remove call d name flags st =
     (let (resp, st) = call ((request0 OpUnlink)\<lparr>rq_Path := JoinPath [d, name], rq_Flags := flags\<rparr>) st in
      (resp_errno resp, st))"

definition dir_Unlink :: "'s caller \<Rightarrow> string \<Rightarrow> string \<Rightarrow> 's \<Rightarrow> fuse_errno \<times> 's" where
  "dir_Unlink call d name st = dir_remove call d name 0 st"

definition dir_Rmdir :: "'s caller \<Rightarrow> string \<Rightarrow> string \<Rightarrow> 's \<Rightarrow> fuse_errno \<times> 's" where
  "dir_Rmdir call d name st = dir_remove call d name UnlinkRmdir st"

text \<open>The new parent is a node of go-fuse: \<open>None\<close> when it is no \<open>dirNode\<close>.\<close>

definition dir_Rename ::
    "'s caller \<Rightarrow> string \<Rightarrow> string \<Rightarrow> string option \<Rightarrow> string \<Rightarrow> u32 \<Rightarrow> 's \<Rightarrow> fuse_errno \<times> 's" where
  "dir_Rename call d name newParent newName flags st =
     (if flags \<noteq> 0 then (fuse_EINVAL, st)
      else case newParent of
        None \<Rightarrow> (fuse_EXDEV, st)
      | Some np \<Rightarrow>
          (let (resp, st) = call ((request0 OpRename)\<lparr>rq_Path := JoinPath [d, name], rq_Path2 := JoinPath [np, newName]\<rparr>) st in
           (resp_errno resp, st)))"

subsection \<open>Files\<close>

abbreviation O_ACCMODE :: u32 where "O_ACCMODE \<equiv> 3"
abbreviation O_RDONLY :: u32 where "O_RDONLY \<equiv> 0"
abbreviation FOPEN_KEEP_CACHE :: u32 where "FOPEN_KEEP_CACHE \<equiv> 2"

definition file_Getattr :: "'s caller \<Rightarrow> string \<Rightarrow> Attr \<Rightarrow> 's \<Rightarrow> (fuse_errno + Attr) \<times> 's" where
  "file_Getattr call f out st = fuse_getattr call f out st"

definition file_Setattr :: "'s caller \<Rightarrow> string \<Rightarrow> SetAttrIn \<Rightarrow> Attr \<Rightarrow> 's \<Rightarrow> (fuse_errno + Attr) \<times> 's" where
  "file_Setattr call f inp out st = fuse_setattr call f inp out st"

definition file_Open :: "'s caller \<Rightarrow> string \<Rightarrow> u32 \<Rightarrow> 's \<Rightarrow> (fuse_errno + u64 \<times> u32) \<times> 's" where
  "file_Open call f flags st =
     (let (resp, st) = call ((request0 OpOpen)\<lparr>rq_Flags := flags, rq_Path := f\<rparr>) st in
      if rs_Err resp \<noteq> 0 then (Inl (resp_errno resp), st)
      else (Inr (rs_Handle resp, if flags AND O_ACCMODE = O_RDONLY then FOPEN_KEEP_CACHE else 0), st))"

text \<open>The handle is \<open>None\<close> when go-fuse passes one that is not a \<open>fileHandle\<close>; \<open>n\<close> is \<open>len(dest)\<close>.\<close>

definition file_Read :: "'s caller \<Rightarrow> u64 option \<Rightarrow> nat \<Rightarrow> i64 \<Rightarrow> 's \<Rightarrow> (fuse_errno + bytes) \<times> 's" where
  "file_Read call fh n off st =
     (case fh of
        None \<Rightarrow> (Inl fuse_EBADF, st)
      | Some h \<Rightarrow>
          (let (resp, st) = call ((request0 OpPread)\<lparr>rq_Handle := h, rq_Off := off, rq_Len := word_of_nat n\<rparr>) st in
           if rs_Err resp \<noteq> 0 then (Inl (resp_errno resp), st) else (Inr (rs_Data resp), st)))"

definition file_Write :: "'s caller \<Rightarrow> u64 option \<Rightarrow> bytes \<Rightarrow> i64 \<Rightarrow> 's \<Rightarrow> (fuse_errno + u32) \<times> 's" where
  "file_Write call fh data off st =
     (case fh of
        None \<Rightarrow> (Inl fuse_EBADF, st)
      | Some h \<Rightarrow>
          (let (resp, st) = call ((request0 OpPwrite)\<lparr>rq_Handle := h, rq_Off := off, rq_Data := data\<rparr>) st in
           if rs_Err resp \<noteq> 0 then (Inl (resp_errno resp), st) else (Inr (ucast (rs_Size resp)), st)))"

definition file_Fsync :: "'s \<Rightarrow> fuse_errno \<times> 's" where
  "file_Fsync st = (0, st)"

definition handle_Release :: "'s caller \<Rightarrow> u64 \<Rightarrow> 's \<Rightarrow> fuse_errno \<times> 's" where
  "handle_Release call h st = (let (resp, st) = call ((request0 OpClose)\<lparr>rq_Handle := h\<rparr>) st in (0, st))"

subsection \<open>The client keeps no broken connection\<close>

lemma Flush_NewConn:
  "bw_err b = None \<Longrightarrow> bufio_Flush wr (b, s) = (None, b', s') \<Longrightarrow> b' = NewConn"
  by (auto simp: bufio_Flush_def NewConn_def split: if_splits prod.splits option.splits)

lemma Flush_no_err: "bufio_Flush wr (b, s) = (None, b', s') \<Longrightarrow> b' = NewConn"
  by (cases "bw_err b") (auto simp: Flush_NewConn bufio_Flush_def)

lemma SendRequest_NewConn: "SendRequest wr req (b, s) = (None, b', s') \<Longrightarrow> b' = NewConn"
  by (auto simp: SendRequest_def split: prod.splits option.splits dest: Flush_no_err)

definition client_ok :: "'c client \<Rightarrow> bool" where
  "client_ok c \<longleftrightarrow> (case c of None \<Rightarrow> True | Some (s, b) \<Rightarrow> b = NewConn)"

lemma client_call_ok: "client_call lk req cw = (r, c, w) \<Longrightarrow> client_ok c"
  by (auto simp: client_call_def client_ok_def client_reset_def dest!: SendRequest_NewConn
      split: prod.splits option.splits sum.splits)

lemma client_run_ok: "client_ok c \<Longrightarrow> run (client_call lk) qs (c, w) = (rs, c', w') \<Longrightarrow> client_ok c'"
proof (induction qs arbitrary: c w rs)
  case (Cons q qs)
  obtain r c1 w1 where q: "client_call lk q (c, w) = (r, c1, w1)" by (metis prod_cases3)
  then obtain rs1 where "run (client_call lk) qs (c1, w1) = (rs1, c', w')"
    using Cons.prems(2) by (auto simp: Let_def split: prod.splits)
  with Cons.IH client_call_ok [OF q] show ?case by blast
qed simp

subsection \<open>Handles of the kernel\<close>

text \<open>The operations the kernel makes on a mount, and what each does to the set of handles it holds.\<close>

datatype fuse_op =
    FLookup string string
  | FGetattr string
  | FSetattr string SetAttrIn
  | FReaddir string
  | FCreate string string u32 u32
  | FMkdir string string u32
  | FUnlink string string
  | FRmdir string string
  | FRename string string "string option" string u32
  | FOpen string u32
  | FRead u64 nat i64
  | FWrite u64 bytes i64
  | FFsync
  | FRelease u64

definition no_attr :: Attr where
  "no_attr = \<lparr>at_Mode = 0, at_Size = 0, at_Mtime = 0, at_Mtimensec = 0, at_Atime = 0, at_Atimensec = 0,
     at_Ctime = 0, at_Ctimensec = 0\<rparr>"

fun fuse_do :: "'s caller \<Rightarrow> fuse_op \<Rightarrow> u64 set \<times> 's \<Rightarrow> u64 set \<times> 's" where
  "fuse_do call (FLookup d n) (H, st) = (H, snd (dir_Lookup call d n no_attr st))"
| "fuse_do call (FGetattr p) (H, st) = (H, snd (file_Getattr call p no_attr st))"
| "fuse_do call (FSetattr p inp) (H, st) = (H, snd (file_Setattr call p inp no_attr st))"
| "fuse_do call (FReaddir d) (H, st) = (H, snd (dir_Readdir call d st))"
| "fuse_do call (FCreate d n fl m) (H, st) =
     (case dir_Create call d n fl m no_attr st of
        (Inl e, st) \<Rightarrow> (H, st)
      | (Inr (i, h, a), st) \<Rightarrow> (insert h H, st))"
| "fuse_do call (FMkdir d n m) (H, st) = (H, snd (dir_Mkdir call d n m no_attr st))"
| "fuse_do call (FUnlink d n) (H, st) = (H, snd (dir_Unlink call d n st))"
| "fuse_do call (FRmdir d n) (H, st) = (H, snd (dir_Rmdir call d n st))"
| "fuse_do call (FRename d n np nn fl) (H, st) = (H, snd (dir_Rename call d n np nn fl st))"
| "fuse_do call (FOpen p fl) (H, st) =
     (case file_Open call p fl st of
        (Inl e, st) \<Rightarrow> (H, st)
      | (Inr (h, ff), st) \<Rightarrow> (insert h H, st))"
| "fuse_do call (FRead h n off) (H, st) = (H, snd (file_Read call (Some h) n off st))"
| "fuse_do call (FWrite h d off) (H, st) = (H, snd (file_Write call (Some h) d off st))"
| "fuse_do call FFsync (H, st) = (H, snd (file_Fsync st))"
| "fuse_do call (FRelease h) (H, st) = (H - {h}, snd (handle_Release call h st))"

lemmas fuse_defs = dir_Lookup_def newNode_def file_Getattr_def fuse_getattr_def file_Setattr_def fuse_setattr_def
  dir_Readdir_def dir_Create_def dir_Mkdir_def dir_Unlink_def dir_Rmdir_def dir_remove_def dir_Rename_def
  file_Open_def file_Read_def file_Write_def file_Fsync_def handle_Release_def

context handle_server
begin

lemma live_plain:
  "\<not> is_open q \<Longrightarrow> rq_Op q \<noteq> OpClose \<Longrightarrow> live (snd (serve q s)) = live s"
  using tracks [of q s "fst (serve q s)" "snd (serve q s)"] by (simp add: track_def)

lemma live_opened:
  "is_open q \<Longrightarrow> rs_Err (fst (serve q s)) = 0 \<Longrightarrow> live (snd (serve q s)) = insert (rs_Handle (fst (serve q s))) (live s)"
  "is_open q \<Longrightarrow> rs_Err (fst (serve q s)) \<noteq> 0 \<Longrightarrow> live (snd (serve q s)) = live s"
  using tracks [of q s "fst (serve q s)" "snd (serve q s)"] by (auto simp: track_def is_open_def)

lemma live_closed: "rq_Op q = OpClose \<Longrightarrow> live (snd (serve q s)) = live s - {rq_Handle q}"
  using tracks [of q s "fst (serve q s)" "snd (serve q s)"] by (auto simp: track_def is_open_def)

lemma setattr_request_op: "rq_Op (setattr_request p inp) = OpSetattr"
  by (simp add: setattr_request_def request0_def Let_def split: option.split)

text \<open>Over such a server, the live handles stay those the kernel holds.\<close>

lemma fuse_do_balanced:
  assumes "live st = H" and "fuse_do serve x (H, st) = (H', st')"
  shows "live st' = H'"
  using assms
  by (cases x)
    (auto simp: fuse_defs Let_def case_prod_beta live_plain live_opened live_closed is_open_def request0_def
      setattr_request_op split: if_splits option.splits)

lemma fuse_run_balanced: "live st = H \<Longrightarrow> fold (fuse_do serve) xs (H, st) = (H', st') \<Longrightarrow> live st' = H'"
proof (induction xs arbitrary: H st)
  case (Cons x xs)
  obtain H1 st1 where x: "fuse_do serve x (H, st) = (H1, st1)" by fastforce
  show ?case
    by (rule Cons.IH [OF fuse_do_balanced [OF Cons.prems(1) x]]) (use Cons.prems(2) x in simp)
qed simp

end

subsection \<open>Attributes\<close>

text \<open>The number of an error comes back as it was sent.\<close>

lemma resp_errno_neg: "rs_Err r = neg_errno e \<Longrightarrow> resp_errno r = errno_num e"
proof -
  assume r: "rs_Err r = neg_errno e"
  have "- rs_Err r = (ucast (errno_num e) :: u32)" by (simp add: r neg_errno_def)
  moreover have "sint (ucast (errno_num e) :: u32) = uint (errno_num e)"
  proof -
    have "uint (errno_num e) < 2 ^ 31"
      using errno_num [of e] by (simp add: word_less_def)
    moreover from this have "signed_take_bit 31 (uint (errno_num e)) = uint (errno_num e)"
      by (intro signed_take_bit_int_eq_self) (auto intro: order_trans [of _ 0])
    ultimately show ?thesis
      by (simp add: sint_uint unsigned_ucast_eq take_bit_int_eq_self)
  qed
  ultimately show ?thesis
    unfolding resp_errno_def scast_eq by (simp only: word_of_int_uint)
qed

lemma fillAttr_time:
  assumes "sint (rs_Mtime r) > 0"
  shows "uint (at_Mtime (fillAttr r a)) * 1000000000 + uint (at_Mtimensec (fillAttr r a)) = sint (rs_Mtime r)"
    and "uint (at_Mtimensec (fillAttr r a)) < 1000000000"
proof -
  let ?t = "sint (rs_Mtime r)"
  have "?t < 2 ^ 63" using sint_lt [of "rs_Mtime r"] by simp
  then have "?t div 1000000000 < 2 ^ 64" "0 \<le> ?t div 1000000000"
    using assms by (auto simp: div_less_iff_less_mult pos_imp_zdiv_nonneg_iff)
  moreover have "0 \<le> ?t mod 1000000000" "?t mod 1000000000 < 1000000000" by simp_all
  ultimately have "uint (at_Mtime (fillAttr r a)) = ?t div 1000000000"
    "uint (at_Mtimensec (fillAttr r a)) = ?t mod 1000000000"
    using assms by (simp_all add: fillAttr_def Let_def uint_word_of_int take_bit_int_eq_self)
  then show "uint (at_Mtime (fillAttr r a)) * 1000000000 + uint (at_Mtimensec (fillAttr r a)) = ?t"
    and "uint (at_Mtimensec (fillAttr r a)) < 1000000000"
    by simp_all
qed

lemma stableAttr_ino: "sa_Ino (stableAttr p m) \<notin> {0, 1, NOT 0}"
  by (auto simp: stableAttr_def Let_def word_le_nat_alt unat_eq_0 split: if_splits)

lemma dir_entries_padded: "dir_entries ns ts = zip ns (map direntMode (pad_types ns ts))"
  by (induction ns ts rule: dir_entries.induct) simp_all

subsection \<open>The client over a connection to a server\<close>

text \<open>
  A connection whose other end is the request loop of the adapter: what is written waits until the
  client reads, then \<open>serve_loop\<close> runs on it. \<open>start\<close> is what the server does for a new connection,
  \<open>stop\<close> what it does when it ends.
\<close>

record 's served_conn =
  sv_in :: bytes
  sv_out :: bytes
  sv_state :: 's

definition served_turn :: "(request \<Rightarrow> 's \<Rightarrow> response \<times> 's) \<Rightarrow> 's served_conn \<Rightarrow> 's served_conn" where
  "served_turn h p =
     (let ((b, out), st) = serve_loop h (sv_in p) (NewConn, \<lparr>sk_out = sv_out p, sk_room = None\<rparr>) (sv_state p)
      in \<lparr>sv_in = [], sv_out = sk_out out, sv_state = st\<rparr>)"

definition served_link ::
    "(request \<Rightarrow> 's \<Rightarrow> response \<times> 's) \<Rightarrow> ('s \<Rightarrow> 's) \<Rightarrow> ('s \<Rightarrow> 's) \<Rightarrow> (unit, 's served_conn) link" where
  "served_link h start stop = \<lparr>
     lk_dial = (\<lambda>p. (Some (), \<lparr>sv_in = [], sv_out = [], sv_state = start (sv_state p)\<rparr>)),
     lk_write = (\<lambda>c bs p. (None, p\<lparr>sv_in := sv_in p @ bs\<rparr>)),
     lk_read = (\<lambda>c n p. let p = served_turn h p; (res, out) = buf_read n (sv_out p) in (res, p\<lparr>sv_out := out\<rparr>)),
     lk_close = (\<lambda>c p. p\<lparr>sv_state := stop (sv_state p)\<rparr>)\<rparr>"

definition quiet :: "'s \<Rightarrow> bytes \<Rightarrow> 's served_conn" where
  "quiet st out = \<lparr>sv_in = [], sv_out = out, sv_state = st\<rparr>"

lemma quiet_turn: "served_turn h (quiet st out) = quiet st out"
  by (simp add: served_turn_def quiet_def serve_loop.simps ConnReadRequest_def ReadRequest_def readFrame_def
      buf_read_def)

lemma served_answer:
  assumes "encodeRequest q = Inr b" and "length b \<le> MaxFrame" and "h (relevant q) st = (a, st')"
    and "length (encodeResponse (rq_Op q) a) \<le> MaxFrame"
  shows "served_turn h \<lparr>sv_in = frame b, sv_out = [], sv_state = st\<rparr> = quiet st' (frame (encodeResponse (rq_Op q) a))"
proof -
  have "requests_wire [q] = Some (frame b)"
    using assms(1,2) by (simp add: requests_wire_def)
  moreover have "run h (map relevant [q]) st = ([a], st')"
    using assms(3) by simp
  moreover have "responses_fit [q] [a]"
    using assms(4) by (simp add: responses_fit_def)
  ultimately show ?thesis
    using serve_loop_requests [of "[q]" "frame b" h st "[a]" st' "\<lparr>sk_out = [], sk_room = None\<rparr>"]
    by (simp add: served_turn_def quiet_def responses_wire_def)
qed

lemma served_read:
  assumes "served_turn h p = quiet st (xs @ ys)"
  shows "lk_read (served_link h start stop) () (length xs) p = (Inr xs, quiet st ys)"
  using assms by (simp add: served_link_def buf_read_def quiet_def)

lemma served_ReadResponse:
  assumes turn: "served_turn h p = quiet st (frame (encodeResponse opc a))"
    and len: "length (encodeResponse opc a) \<le> MaxFrame"
  shows "ConnReadResponse (lk_read (served_link h start stop) ()) opc p = (Inr (relevant_response opc a), quiet st [])"
proof -
  let ?rd = "lk_read (served_link h start stop) ()" and ?body = "encodeResponse opc a"
  have r1: "?rd 4 p = (Inr (be32 (word_of_nat (length ?body))), quiet st ?body)"
    using served_read [of h p st "be32 (word_of_nat (length ?body))" ?body start stop] turn
    by (simp add: frame_def)
  have r2: "?rd (length ?body) (quiet st ?body) = (Inr ?body, quiet st [])"
    using served_read [of h "quiet st ?body" st ?body "[]" start stop] by (simp add: quiet_turn)
  have "readFrame ?rd p = (Inr ?body, quiet st [])"
    using r2 by (simp add: readFrame_def r1 frame_length_header [OF len] len not_less [THEN iffD2])
  then show ?thesis
    using decodeResponse_encodeResponse [of opc a "[]"] MaxFrame_lt [OF len]
    by (simp add: ConnReadResponse_def ReadResponse_def)
qed

text \<open>A client with its connection: none yet, at a server about to start in \<open>st\<close>, or a quiet one.\<close>

definition connected :: "('s \<Rightarrow> 's) \<Rightarrow> unit client \<times> 's served_conn \<Rightarrow> 's \<Rightarrow> bool" where
  "connected start = (\<lambda>(c, p) st.
     (c = None \<and> start (sv_state p) = st) \<or> (c = Some ((), NewConn) \<and> p = quiet st []))"

lemma client_answer:
  assumes "connected start cp st" and "encodeRequest q = Inr b" and "length b \<le> MaxFrame"
    and "h (relevant q) st = (a, st')" and "length (encodeResponse (rq_Op q) a) \<le> MaxFrame"
  shows "client_call (served_link h start stop) q cp =
    (relevant_response (rq_Op q) a, Some ((), NewConn), quiet st' [])"
proof -
  let ?lk = "served_link h start stop"
  have conn: "client_conn ?lk cp = (Some ((), NewConn), quiet st [])"
    using assms(1) by (auto simp: connected_def client_conn_def served_link_def quiet_def split: prod.splits)
  have send: "SendRequest (lk_write ?lk ()) q (NewConn, quiet st []) =
      (None, NewConn, \<lparr>sv_in = frame b, sv_out = [], sv_state = st\<rparr>)"
    using appending_SendRequest [of "lk_write ?lk ()" "\<lambda>bs p. p\<lparr>sv_in := sv_in p @ bs\<rparr>" q b "quiet st []"] assms(2,3)
    by (simp add: served_link_def quiet_def)
  have "ConnReadResponse (lk_read ?lk ()) (rq_Op q) \<lparr>sv_in = frame b, sv_out = [], sv_state = st\<rparr> =
      (Inr (relevant_response (rq_Op q) a), quiet st' [])"
    by (rule served_ReadResponse [OF served_answer [where h = h and st = st, OF assms(2-5)] assms(5)])
  with conn send show ?thesis
    by (simp add: client_call_def)
qed

lemma connected_call:
  assumes "connected start cp st" and "encodeRequest q = Inr b" and "length b \<le> MaxFrame"
    and "h (relevant q) st = (a, st')" and "length (encodeResponse (rq_Op q) a) \<le> MaxFrame"
  shows "\<exists>cp'. client_call (served_link h start stop) q cp = (relevant_response (rq_Op q) a, cp') \<and>
    connected start cp' st'"
  using client_answer [where h = h and stop = stop, OF assms] by (simp add: connected_def)

lemma connected_run:
  "connected start cp st \<Longrightarrow> requests_wire qs = Some s \<Longrightarrow> run h (map relevant qs) st = (rs, st') \<Longrightarrow>
   responses_fit qs rs \<Longrightarrow>
   \<exists>cp'. run (client_call (served_link h start stop)) qs cp = (map2 (\<lambda>q r. relevant_response (rq_Op q) r) qs rs, cp') \<and>
     connected start cp' st'"
proof (induction qs arbitrary: cp st s rs)
  case (Cons q qs)
  obtain b s1 where b: "encodeRequest q = Inr b" "length b \<le> MaxFrame" "requests_wire qs = Some s1"
    using Cons.prems(2) by (auto simp: requests_wire_Cons)
  obtain a st1 where a: "h (relevant q) st = (a, st1)" by fastforce
  obtain rs1 where rs: "run h (map relevant qs) st1 = (rs1, st')" "rs = a # rs1"
    using Cons.prems(3) a by (auto simp: Let_def split: prod.splits)
  have fit: "length (encodeResponse (rq_Op q) a) \<le> MaxFrame" "responses_fit qs rs1"
    using Cons.prems(4) by (auto simp: rs(2) responses_fit_def)
  obtain cp1 where cp1: "client_call (served_link h start stop) q cp = (relevant_response (rq_Op q) a, cp1)"
      "connected start cp1 st1"
    using connected_call [where h = h and stop = stop, OF Cons.prems(1) b(1,2) a fit(1)] by blast
  with Cons.IH [OF cp1(2) b(3) rs(1) fit(2)] show ?case by (auto simp: rs(2))
qed simp








text \<open>The error number the mount shows for a failed call of the host.\<close>

definition host_errno :: "goerr \<Rightarrow> fuse_errno" where
  "host_errno e = errno_num (case as_errno e of
     Some n \<Rightarrow> n
   | None \<Rightarrow> if IsNotExist e then ENOENT else if IsPermission e then EACCES else EIO)"

subsection \<open>Properties\<close>

text \<open>
  C26: The FUSE client never sits on a broken connection: after any calls over any transport it holds
  no connection, or one whose writer has an empty buffer and no error, so that the next call dials or
  goes out on a connection that has not failed (an error resets it, as the adapter's does not).
\<close>

theorem fuse_client_keeps_no_broken_connection:
  "case snd (run (client_call lk) qs (None, w)) of
     (None, w') \<Rightarrow> True
   | (Some (s, b), w') \<Rightarrow> b = NewConn"
proof -
  obtain rs c w' where run: "run (client_call lk) qs (None, w) = (rs, c, w')" by (metis prod_cases3)
  have "client_ok c"
    by (rule client_run_ok [OF _ run]) (simp add: client_ok_def)
  with run show ?thesis by (simp add: client_ok_def split: option.splits)
qed

text \<open>
  Over one connection the mount leaks no handle: after any operations of the kernel, over a session of the
  adapter with any hosts, transport and routing, the live handles of the session are exactly the file
  handles the kernel got from \<open>Open\<close> and \<open>Create\<close> and has not released.
\<close>

lemma fuse_handles_balanced:
  "let (H, (s, w)) = fold (fuse_do (session_handle sys lk route)) xs ({}, (new_session, w0))
   in dom (se_handles s) = H"
proof -
  obtain H s w where run: "fold (fuse_do (session_handle sys lk route)) xs ({}, (new_session, w0)) = (H, s, w)"
    by (metis prod_cases3)
  with se.fuse_run_balanced [OF _ run] show ?thesis by simp
qed








text \<open>
  A routed directory looks like the host's: \<open>Readdir\<close> gives the names in the host's order with
  the directory type for directories and only for them, \<open>Lookup\<close> makes a directory node for
  directories and only for them, with the host's permission bits, size and time, and a failure gives
  the error number of the host's failed call.
\<close>

theorem fuse_shows_host_directory:
  "(case os_ReadDir sys d w of
      (Inl e, _) \<Rightarrow> fst (dir_Readdir (fs_Handle sys) d (s, w)) = Inl (host_errno e)
    | (Inr es, _) \<Rightarrow>
        fst (dir_Readdir (fs_Handle sys) d (s, w)) = Inr (map (\<lambda>e. (de_Name e, direntMode (direntType e))) es) \<and>
        map (\<lambda>e. direntMode (direntType e) = S_IFDIR) es = map (\<lambda>e. mode_IsDir (de_Type e)) es) \<and>
   (case os_Stat sys (JoinPath [d, name]) w of
      (Inl e, _) \<Rightarrow> fst (dir_Lookup (fs_Handle sys) d name a (s, w)) = Inl (host_errno e)
    | (Inr fi, _) \<Rightarrow>
        (case fst (dir_Lookup (fs_Handle sys) d name a (s, w)) of
           Inl _ \<Rightarrow> False
         | Inr (i, at) \<Rightarrow> in_dir i = mode_IsDir (fi_Mode fi) \<and> in_path i = JoinPath [d, name] \<and>
             Perm (at_Mode at) = Perm (fi_Mode fi) \<and> at_Size at = fi_Size fi))"
proof (intro conjI)
  have errno: "resp_errno (err_response e) = host_errno e" for e
    by (auto simp: err_response_def toErrno_def host_errno_def resp_errno_neg split: option.split)
  have err: "rs_Err (err_response e) \<noteq> 0" for e
    by (auto simp: err_response_def toErrno_def split: option.splits)
  have entries: "dir_entries (map de_Name es) (map direntType es) = map (\<lambda>e. (de_Name e, direntMode (direntType e))) es" for es
    by (induction es) simp_all
  have call: "fs_Handle sys ((request0 OpReaddir)\<lparr>rq_Path := d\<rparr>) = fs_readdir sys ((request0 OpReaddir)\<lparr>rq_Path := d\<rparr>)"
      "fs_Handle sys ((request0 OpStat)\<lparr>rq_Path := p\<rparr>) = fs_stat sys ((request0 OpStat)\<lparr>rq_Path := p\<rparr>)" for p
    by (simp_all add: fs_Handle_def request0_def)
  show "case os_ReadDir sys d w of
      (Inl e, _) \<Rightarrow> fst (dir_Readdir (fs_Handle sys) d (s, w)) = Inl (host_errno e)
    | (Inr es, _) \<Rightarrow>
        fst (dir_Readdir (fs_Handle sys) d (s, w)) = Inr (map (\<lambda>e. (de_Name e, direntMode (direntType e))) es) \<and>
        map (\<lambda>e. direntMode (direntType e) = S_IFDIR) es = map (\<lambda>e. mode_IsDir (de_Type e)) es"
    by (auto simp: dir_Readdir_def call fs_readdir_def errno err entries direntType_def direntMode_def
        split: prod.split sum.split)
  show "case os_Stat sys (JoinPath [d, name]) w of
      (Inl e, _) \<Rightarrow> fst (dir_Lookup (fs_Handle sys) d name a (s, w)) = Inl (host_errno e)
    | (Inr fi, _) \<Rightarrow>
        (case fst (dir_Lookup (fs_Handle sys) d name a (s, w)) of
           Inl _ \<Rightarrow> False
         | Inr (i, at) \<Rightarrow> in_dir i = mode_IsDir (fi_Mode fi) \<and> in_path i = JoinPath [d, name] \<and>
             Perm (at_Mode at) = Perm (fi_Mode fi) \<and> at_Size at = fi_Size fi)"
    by (auto simp: dir_Lookup_def newNode_def call fs_stat_def errno err fillAttr_def Let_def IsDir_def
        fileMode_IsDir fileMode_Perm split: prod.split sum.split)
qed

text \<open>
  Times survive the conversion to seconds and nanoseconds: for a file changed after 1970 the
  attribute block holds exactly the host's \<open>UnixNano\<close>, with a nanosecond part below one second; and no
  path gets an inode number that go-fuse or the kernel reserves (0, 1 and \<open>2 ^ 64 - 1\<close>).
\<close>

theorem fuse_attr_bounds:
  "(if sint (rs_Mtime r) > 0
    then uint (at_Mtime (fillAttr r a)) * 1000000000 + uint (at_Mtimensec (fillAttr r a)) = sint (rs_Mtime r) \<and>
      uint (at_Mtimensec (fillAttr r a)) < 1000000000
    else at_Mtime (fillAttr r a) = at_Mtime a) \<and>
   sa_Ino (stableAttr p m) \<notin> {0, 1, 2 ^ 64 - 1}"
proof -
  have "(2 ^ 64 - 1 :: u64) = NOT 0" by simp
  with stableAttr_ino [of p m] fillAttr_time [of r a] show ?thesis
    by (auto simp: fillAttr_def Let_def)
qed

end
