(* ===== verification/ExecBridge.thy ===== *)
theory ExecBridge
  imports SpawnProxy
begin

section \<open>The exec bridge (internal/adapter/execbridge.go)\<close>

text \<open>
  The bridge joins the connection of a spawn proxy to a stream of the executor: two goroutines copy, one per
  direction, until both have seen the end of their source. An \<open>endpoint\<close> is one of the two connections as the
  bridge sees it: what its peer still sends before its end of file, what the bridge has written to it, how
  many bytes more it takes before writing fails (\<open>None\<close> for no limit), whether it has a \<open>CloseWrite\<close>, and what the
  bridge has closed. The goroutines interleave in any way: \<open>splice_step\<close> is one step of one of them.
\<close>

record endpoint =
  en_in :: bytes
  en_out :: bytes
  en_room :: "nat option"
  en_half :: bool
  en_wclosed :: bool
  en_closed :: bool

text \<open>How many of \<open>n\<close> bytes a write takes; taking fewer is an error.\<close>

definition takes :: "endpoint \<Rightarrow> nat \<Rightarrow> nat" where
  "takes e n =
     (if en_closed e \<or> en_wclosed e then 0 else case en_room e of None \<Rightarrow> n | Some r \<Rightarrow> min r n)"

definition put :: "endpoint \<Rightarrow> bytes \<Rightarrow> endpoint" where
  "put e bs =
     (let k = takes e (length bs)
      in e\<lparr>en_out := en_out e @ take k bs, en_room := map_option (\<lambda>r. r - k) (en_room e)\<rparr>)"

text \<open>After a copy the writing side of its destination is closed, or all of it when it has no half-close.\<close>

definition close_write :: "endpoint \<Rightarrow> endpoint" where
  "close_write e = (if en_half e then e\<lparr>en_wclosed := True\<rparr> else e\<lparr>en_closed := True\<rparr>)"

text \<open>
  \<open>io.Copy\<close> from a source to a destination: a read of any size up to its buffer, written whole; a read whose
  write fails, which ends the copy; the end of the source, by its end of file or because it was closed.
\<close>

definition copy_buf :: nat where
  "copy_buf = 32768"

inductive copy_step :: "endpoint \<times> endpoint \<times> bool \<Rightarrow> endpoint \<times> endpoint \<times> bool \<Rightarrow> bool" where
  chunk: "\<not> en_closed src \<Longrightarrow> 0 < n \<Longrightarrow> n \<le> copy_buf \<Longrightarrow> n \<le> length (en_in src) \<Longrightarrow> takes dst n = n \<Longrightarrow>
    copy_step (src, dst, False) (src\<lparr>en_in := drop n (en_in src)\<rparr>, put dst (take n (en_in src)), False)"
| broken: "\<not> en_closed src \<Longrightarrow> 0 < n \<Longrightarrow> n \<le> copy_buf \<Longrightarrow> n \<le> length (en_in src) \<Longrightarrow> takes dst n < n \<Longrightarrow>
    copy_step (src, dst, False)
      (src\<lparr>en_in := drop n (en_in src)\<rparr>, close_write (put dst (take n (en_in src))), True)"
| ended: "en_in src = [] \<or> en_closed src \<Longrightarrow> copy_step (src, dst, False) (src, close_write dst, True)"

text \<open>The two goroutines of \<open>splice(a, b)\<close> with the flags of the wait group.\<close>

record splice_state =
  sp_a :: endpoint
  sp_b :: endpoint
  sp_done_ba :: bool
  sp_done_ab :: bool

inductive splice_step :: "splice_state \<Rightarrow> splice_state \<Rightarrow> bool" where
  ba: "copy_step (sp_b st, sp_a st, sp_done_ba st) (b, a, d) \<Longrightarrow>
    splice_step st (st\<lparr>sp_a := a, sp_b := b, sp_done_ba := d\<rparr>)"
| ab: "copy_step (sp_a st, sp_b st, sp_done_ab st) (a, b, d) \<Longrightarrow>
    splice_step st (st\<lparr>sp_a := a, sp_b := b, sp_done_ab := d\<rparr>)"

definition splice0 :: "endpoint \<Rightarrow> endpoint \<Rightarrow> splice_state" where
  "splice0 a b = \<lparr>sp_a = a, sp_b = b, sp_done_ba = False, sp_done_ab = False\<rparr>"

definition splice_done :: "splice_state \<Rightarrow> bool" where
  "splice_done st \<longleftrightarrow> sp_done_ba st \<and> sp_done_ab st"

text \<open>
  The handling of one proxy connection: nothing is copied when the executor cannot be dialed; otherwise a run
  of \<open>splice\<close> to its end. Both connections are closed when it returns.
\<close>

definition shut :: "endpoint \<Rightarrow> endpoint" where
  "shut e = e\<lparr>en_closed := True\<rparr>"

inductive bridge_handle :: "endpoint option \<Rightarrow> endpoint \<Rightarrow> endpoint \<times> endpoint option \<Rightarrow> bool" where
  no_dial: "bridge_handle None conn (shut conn, None)"
| spliced: "splice_step\<^sup>*\<^sup>* (splice0 conn stream) st \<Longrightarrow> splice_done st \<Longrightarrow>
    bridge_handle (Some stream) conn (shut (sp_a st), Some (shut (sp_b st)))"

inductive_cases copy_stepE: "copy_step (src, dst, d) (src', dst', d')"

subsection \<open>One direction\<close>

lemma endpoint_put [simp]:
  "en_in (put e bs) = en_in e" "en_half (put e bs) = en_half e" "en_wclosed (put e bs) = en_wclosed e"
  "en_closed (put e bs) = en_closed e" "en_out (put e bs) = en_out e @ take (takes e (length bs)) bs"
  "en_room (put e bs) = None \<longleftrightarrow> en_room e = None"
  by (simp_all add: put_def Let_def)

lemma close_write_simps [simp]:
  "en_in (close_write e) = en_in e" "en_out (close_write e) = en_out e" "en_room (close_write e) = en_room e"
  "en_half (close_write e) = en_half e" "en_half e \<Longrightarrow> en_wclosed (close_write e)"
  "en_half e \<Longrightarrow> en_closed (close_write e) = en_closed e"
  by (simp_all add: close_write_def)

text \<open>
  What one direction has done since it began: of its source \<open>x\<close> was read, of that the beginning \<open>y\<close> written,
  and all of it while the copy goes on.
\<close>

definition copied :: "bytes \<Rightarrow> bytes \<Rightarrow> endpoint \<Rightarrow> endpoint \<Rightarrow> bool \<Rightarrow> bool" where
  "copied inp out src dst d \<longleftrightarrow>
     (\<exists>x y. inp = x @ en_in src \<and> en_out dst = out @ y \<and> prefix y x \<and> (\<not> d \<longrightarrow> y = x))"

text \<open>A direction between endpoints with half-close whose peers take everything.\<close>

definition smooth :: "endpoint \<Rightarrow> endpoint \<Rightarrow> bool \<Rightarrow> bool" where
  "smooth src dst d \<longleftrightarrow>
     \<not> en_closed src \<and> \<not> en_closed dst \<and> en_half dst \<and> en_room dst = None \<and>
     (en_wclosed dst \<longleftrightarrow> d) \<and> (d \<longrightarrow> en_in src = [])"

definition copy_work :: "endpoint \<Rightarrow> bool \<Rightarrow> nat" where
  "copy_work src d = length (en_in src) + (if d then 0 else 1)"

lemma copy_step_copied:
  assumes "copy_step (src, dst, d) (src', dst', d')" and "copied inp out src dst d"
  shows "copied inp out src' dst' d'"
  using assms
proof cases
  case (chunk n)
  obtain x where x: "inp = x @ en_in src" "en_out dst = out @ x"
    using assms(2) chunk by (auto simp: copied_def)
  then have "inp = (x @ take n (en_in src)) @ en_in src'" "en_out dst' = out @ x @ take n (en_in src)"
    using chunk by simp_all
  then show ?thesis unfolding copied_def by blast
next
  case (broken n)
  obtain x where x: "inp = x @ en_in src" "en_out dst = out @ x"
    using assms(2) broken by (auto simp: copied_def)
  then have "inp = (x @ take n (en_in src)) @ en_in src'"
      "en_out dst' = out @ x @ take (takes dst n) (take n (en_in src))"
    using broken by simp_all
  moreover have "prefix (x @ take (takes dst n) (take n (en_in src))) (x @ take n (en_in src))"
    by (simp only: same_prefix_prefix take_is_prefix)
  ultimately show ?thesis
    using broken unfolding copied_def by blast
next
  case ended
  then show ?thesis using assms(2) by (auto simp: copied_def)
qed

text \<open>A step of one direction does not disturb what the other one has done.\<close>

lemma copy_step_frame:
  assumes "copy_step (src, dst, d) (src', dst', d')"
  shows "en_out src' = en_out src" and "en_in dst' = en_in dst" and "en_closed src' = en_closed src"
    and "en_half src' = en_half src" and "en_room src' = en_room src" and "en_wclosed src' = en_wclosed src"
    and "en_half dst' = en_half dst" and "en_half dst \<Longrightarrow> en_closed dst' = en_closed dst"
    and "en_room dst' = None \<longleftrightarrow> en_room dst = None"
  using assms by (auto elim!: copy_stepE)

lemma copy_step_smooth:
  assumes "copy_step (src, dst, d) (src', dst', d')" and "smooth src dst d"
  shows "smooth src' dst' d'"
  using assms by (auto elim!: copy_stepE simp: smooth_def takes_def)

text \<open>There nothing is lost: what was read was written, also after the end.\<close>

lemma copy_step_lossless:
  assumes "copy_step (src, dst, d) (src', dst', d')" and "smooth src dst d" and "copied inp out src dst False"
  shows "copied inp out src' dst' False"
  using assms(1)
proof cases
  case (chunk n)
  then show ?thesis
    using copy_step_copied [OF assms(1)] assms(3) by simp
next
  case (broken n)
  then show ?thesis using assms(2) by (simp add: smooth_def takes_def)
next
  case ended
  then show ?thesis using assms(3) by (simp add: copied_def)
qed

lemma copy_step_work:
  assumes "copy_step (src, dst, d) (src', dst', d')"
  shows "copy_work src' d' < copy_work src d"
  using assms by (auto elim!: copy_stepE simp: copy_work_def)

inductive_cases splice_stepE: "splice_step st st'"

lemma copy_step_progress:
  assumes "\<not> d"
  shows "\<exists>src' dst' d'. copy_step (src, dst, d) (src', dst', d')"
proof (cases "en_in src = [] \<or> en_closed src")
  case True
  then show ?thesis using assms copy_step.ended [OF True, of dst] by (simp add: Bex_def) blast
next
  case False
  then have one: "\<not> en_closed src" "0 < (1::nat)" "1 \<le> copy_buf" "1 \<le> length (en_in src)"
    by (auto simp: copy_buf_def Suc_le_eq)
  have "takes dst 1 = 1 \<or> takes dst 1 < 1"
    by (auto simp: takes_def split: option.split)
  then show ?thesis
    using copy_step.chunk [OF one, of dst] copy_step.broken [OF one, of dst] assms by simp blast
qed

subsection \<open>Both directions\<close>

definition spliced_ok :: "endpoint \<Rightarrow> endpoint \<Rightarrow> splice_state \<Rightarrow> bool" where
  "spliced_ok a b st \<longleftrightarrow>
     copied (en_in b) (en_out a) (sp_b st) (sp_a st) (sp_done_ba st) \<and>
     copied (en_in a) (en_out b) (sp_a st) (sp_b st) (sp_done_ab st)"

definition splice_work :: "splice_state \<Rightarrow> nat" where
  "splice_work st = copy_work (sp_b st) (sp_done_ba st) + copy_work (sp_a st) (sp_done_ab st)"

lemma splice_step_ok:
  assumes "splice_step st st'" and "spliced_ok a b st"
  shows "spliced_ok a b st'"
  using assms(1)
proof cases
  case (ba b' a' d)
  then show ?thesis
    using assms(2) copy_step_copied [OF ba(2)] copy_step_frame(1,2) [OF ba(2)]
    by (auto simp: spliced_ok_def copied_def)
next
  case (ab a' b' d)
  then show ?thesis
    using assms(2) copy_step_copied [OF ab(2)] copy_step_frame(1,2) [OF ab(2)]
    by (auto simp: spliced_ok_def copied_def)
qed

lemma splice_run_ok: "splice_step\<^sup>*\<^sup>* (splice0 a b) st \<Longrightarrow> spliced_ok a b st"
proof (induction rule: rtranclp_induct)
  case base
  then show ?case by (simp add: spliced_ok_def copied_def splice0_def)
next
  case (step st st')
  then show ?case using splice_step_ok by blast
qed

definition smooth_splice :: "endpoint \<Rightarrow> endpoint \<Rightarrow> splice_state \<Rightarrow> bool" where
  "smooth_splice a b st \<longleftrightarrow>
     smooth (sp_b st) (sp_a st) (sp_done_ba st) \<and> smooth (sp_a st) (sp_b st) (sp_done_ab st) \<and>
     copied (en_in b) (en_out a) (sp_b st) (sp_a st) False \<and> copied (en_in a) (en_out b) (sp_a st) (sp_b st) False"

lemma splice_step_smooth:
  assumes "splice_step st st'" and "smooth_splice x y st"
  shows "smooth_splice x y st'"
  using assms(1)
proof cases
  case (ba b' a' d)
  have "smooth b' a' d" "copied (en_in y) (en_out x) b' a' False"
    using assms(2) copy_step_smooth [OF ba(2)] copy_step_lossless [OF ba(2)] by (auto simp: smooth_splice_def)
  then show ?thesis
    using assms(2) ba(1) copy_step_frame [OF ba(2)] by (auto simp: smooth_splice_def smooth_def copied_def)
next
  case (ab a' b' d)
  have "smooth a' b' d" "copied (en_in x) (en_out y) a' b' False"
    using assms(2) copy_step_smooth [OF ab(2)] copy_step_lossless [OF ab(2)] by (auto simp: smooth_splice_def)
  then show ?thesis
    using assms(2) ab(1) copy_step_frame [OF ab(2)] by (auto simp: smooth_splice_def smooth_def copied_def)
qed

lemma splice_step_work:
  assumes "splice_step st st'"
  shows "splice_work st' < splice_work st"
  using assms
proof cases
  case (ba b a d)
  then show ?thesis
    using copy_step_work [OF ba(2)] copy_step_frame(2) [OF ba(2)] by (simp add: splice_work_def copy_work_def)
next
  case (ab a b d)
  then show ?thesis
    using copy_step_work [OF ab(2)] copy_step_frame(2) [OF ab(2)] by (simp add: splice_work_def copy_work_def)
qed

lemma splice_step_progress: "\<not> splice_done st \<Longrightarrow> \<exists>st'. splice_step st st'"
  unfolding splice_done_def
  using copy_step_progress [of "sp_done_ba st" "sp_b st" "sp_a st"] copy_step_progress [of "sp_done_ab st" "sp_a st" "sp_b st"]
    splice_step.ba [of st] splice_step.ab [of st] by blast

lemma splice_reaches_end: "\<exists>st'. splice_step\<^sup>*\<^sup>* st st' \<and> splice_done st'"
proof (induction st rule: measure_induct_rule [of splice_work])
  case (less st)
  show ?case
  proof (cases "splice_done st")
    case False
    then obtain st1 where "splice_step st st1" using splice_step_progress by blast
    with less [of st1] splice_step_work show ?thesis by (meson converse_rtranclp_into_rtranclp)
  qed blast
qed

subsection \<open>Properties\<close>

text \<open>
  The bridge neither reorders nor invents bytes: whatever the interleaving of the two copies, however the
  reads fall and wherever a peer breaks, what either side has received is what it had before and a beginning
  of what the other side sent.
\<close>

theorem bridge_delivers_in_order:
  assumes "bridge_handle (Some stream) conn (conn', Some stream')"
  shows "\<exists>x y. en_out conn' = en_out conn @ x \<and> prefix x (en_in stream) \<and>
    en_out stream' = en_out stream @ y \<and> prefix y (en_in conn) \<and> en_closed conn' \<and> en_closed stream'"
  using assms
proof cases
  case (spliced st)
  then show ?thesis
    using splice_run_ok [OF spliced(3)]
    by (auto simp: spliced_ok_def copied_def shut_def intro: prefix_order.trans [OF _ prefixI [OF refl]])
qed

text \<open>
  C15: The bridge is transparent: between two open connections with half-close whose peers take everything,
  every step of a run makes a measure smaller, and a run that has no step left has ended with both copies:
  each side has received everything the other sent and then an end of file, whichever side ended first.
\<close>

theorem bridge_transparent:
  assumes "\<forall>e \<in> {conn, stream}. en_half e \<and> en_room e = None \<and> \<not> en_closed e \<and> \<not> en_wclosed e"
    and "splice_step\<^sup>*\<^sup>* (splice0 conn stream) st"
  shows "{(st', st). splice_step st st'} \<subseteq> measure splice_work \<and> (splice_done st \<or> Ex (splice_step st)) \<and>
    (splice_done st \<longrightarrow>
       en_out (sp_a st) = en_out conn @ en_in stream \<and> en_out (sp_b st) = en_out stream @ en_in conn \<and>
       en_wclosed (sp_a st) \<and> en_wclosed (sp_b st))"
proof -
  have "smooth_splice conn stream st"
    using assms(2)
  proof (induction rule: rtranclp_induct)
    case base
    then show ?case using assms(1) by (simp add: smooth_splice_def smooth_def copied_def splice0_def)
  next
    case (step st st')
    then show ?case using splice_step_smooth by blast
  qed
  then have "splice_done st \<Longrightarrow>
      en_out (sp_a st) = en_out conn @ en_in stream \<and> en_out (sp_b st) = en_out stream @ en_in conn \<and>
      en_wclosed (sp_a st) \<and> en_wclosed (sp_b st)"
    by (auto simp: smooth_splice_def smooth_def copied_def splice_done_def)
  then show ?thesis
    using splice_step_work splice_step_progress [of st] by auto
qed

definition sample_end :: "bytes \<Rightarrow> endpoint" where
  "sample_end inp = \<lparr>en_in = inp, en_out = [], en_room = None, en_half = True, en_wclosed = False, en_closed = False\<rparr>"

theorem bridge_transparent_witness:
  "\<exists>st. splice_step\<^sup>*\<^sup>* (splice0 (sample_end [1, 2]) (sample_end [3])) st \<and> splice_done st \<and>
     en_out (sp_a st) = [3] \<and> en_out (sp_b st) = [1, 2]"
proof -
  obtain st where st: "splice_step\<^sup>*\<^sup>* (splice0 (sample_end [1, 2]) (sample_end [3])) st" "splice_done st"
    using splice_reaches_end by blast
  then show ?thesis
    using bridge_transparent [OF _ st(1)] by (auto simp: sample_end_def)
qed

theorem bridge_delivers_in_order_witness:
  "\<exists>conn stream. bridge_handle (Some (sample_end [3])) ((sample_end [1, 2])\<lparr>en_room := Some 0\<rparr>) (conn, Some stream) \<and>
     en_closed conn \<and> prefix (en_out conn) [3] \<and> prefix (en_out stream) [1, 2]"
proof -
  let ?conn = "(sample_end [1, 2])\<lparr>en_room := Some 0\<rparr>"
  obtain st where st: "splice_step\<^sup>*\<^sup>* (splice0 ?conn (sample_end [3])) st" "splice_done st"
    using splice_reaches_end by blast
  have run: "bridge_handle (Some (sample_end [3])) ?conn (shut (sp_a st), Some (shut (sp_b st)))"
    by (rule bridge_handle.spliced [OF st])
  show ?thesis
    using run bridge_delivers_in_order [OF run] by (auto simp: sample_end_def)
qed

end
