(* ===== verification/Native.thy ===== *)
theory Native
  imports GoPath "HOL-Library.Sublist"
begin

section \<open>The embedded interceptor (cmd/rca/embedded.go)\<close>

text \<open>
  \<open>extractEmbeddedNative\<close> writes an embedded artifact into the user's cache directory, once for all the \<open>rca\<close>
  processes of a user, any number of which may do this at the same time. One process is a program counter,
  the file system a map from paths to contents with an executable bit, and \<open>ext_step\<close> is one system call of one
  process, with each way it can fail. The embedded file system, SHA-256 and the directories are a parameter.
\<close>

record native_env =
  ne_embedded :: "string \<Rightarrow> string option"
  ne_sum256 :: "string \<Rightarrow> nat list"
  ne_userCacheDir :: "string option"
  ne_tempDir :: string

definition hex_digit :: "nat \<Rightarrow> char" where
  "hex_digit n = char_of (if n < 10 then 48 + n else 87 + n)"

definition EncodeHex :: "nat list \<Rightarrow> string" where
  "EncodeHex bs = concat (map (\<lambda>b. [hex_digit (b div 16), hex_digit (b mod 16)]) bs)"

text \<open>The path of an artifact, in a directory named by the hash of its contents.\<close>

definition native_dest :: "native_env \<Rightarrow> string \<Rightarrow> string \<Rightarrow> string" where
  "native_dest env name data =
     (let sum = ne_sum256 env data;
          base = (case ne_userCacheDir env of Some d \<Rightarrow> d | None \<Rightarrow> ne_tempDir env);
          dir = JoinPath [base, ''rca'', ''native'', EncodeHex (take 6 sum)]
      in JoinPath [dir, name])"

datatype ext_pc =
    Begin
  | NeedDir string
  | NeedTemp string
  | Writing string string
  | Chmodding string string
  | Closing string string
  | Renaming string string
  | Cleanup string
  | LeftBehind string
  | Failed
  | Returned string

type_synonym file_map = "string \<Rightarrow> (string \<times> bool) option"

text \<open>
  One step of a process. From the look for an earlier copy on the artifact's contents are in the program
  counter. \<open>os.CreateTemp\<close> makes a new file whose name is the target's followed by \<open>.tmp\<close> and anything; a write
  puts any further part of the contents in it; an error at any later call closes and removes it; a removal that
  fails, which the code ignores, leaves it behind.
\<close>

inductive ext_step :: "native_env \<Rightarrow> string \<Rightarrow> ext_pc \<times> file_map \<Rightarrow> ext_pc \<times> file_map \<Rightarrow> bool"
  for env name where
  no_name: "name = [] \<Longrightarrow> ext_step env name (Begin, fs) (Returned [], fs)"
| not_embedded: "name \<noteq> [] \<Longrightarrow> ne_embedded env name = None \<Longrightarrow> ext_step env name (Begin, fs) (Returned [], fs)"
| extracted: "name \<noteq> [] \<Longrightarrow> ne_embedded env name = Some data \<Longrightarrow> fs (native_dest env name data) = Some (c, x) \<Longrightarrow>
    length c = length data \<Longrightarrow> ext_step env name (Begin, fs) (Returned (native_dest env name data), fs)"
| missing: "name \<noteq> [] \<Longrightarrow> ne_embedded env name = Some data \<Longrightarrow>
    (\<forall>c x. fs (native_dest env name data) = Some (c, x) \<longrightarrow> length c \<noteq> length data) \<Longrightarrow>
    ext_step env name (Begin, fs) (NeedDir data, fs)"
| stat_fails: "name \<noteq> [] \<Longrightarrow> ne_embedded env name = Some data \<Longrightarrow> ext_step env name (Begin, fs) (NeedDir data, fs)"
| mkdir: "ext_step env name (NeedDir data, fs) (NeedTemp data, fs)"
| mkdir_fails: "ext_step env name (NeedDir data, fs) (Failed, fs)"
| temp: "tmp = native_dest env name data @ ''.tmp'' @ r \<Longrightarrow> fs tmp = None \<Longrightarrow>
    ext_step env name (NeedTemp data, fs) (Writing data tmp, fs(tmp \<mapsto> ([], False)))"
| temp_fails: "ext_step env name (NeedTemp data, fs) (Failed, fs)"
| write_some: "fs tmp = Some (c, x) \<Longrightarrow> prefix (c @ bs) data \<Longrightarrow>
    ext_step env name (Writing data tmp, fs) (Writing data tmp, fs(tmp \<mapsto> (c @ bs, x)))"
| written: "fs tmp = Some (data, x) \<Longrightarrow> ext_step env name (Writing data tmp, fs) (Chmodding data tmp, fs)"
| write_fails: "ext_step env name (Writing data tmp, fs) (Cleanup tmp, fs)"
| chmod: "fs tmp = Some (c, x) \<Longrightarrow>
    ext_step env name (Chmodding data tmp, fs) (Closing data tmp, fs(tmp \<mapsto> (c, True)))"
| chmod_fails: "ext_step env name (Chmodding data tmp, fs) (Cleanup tmp, fs)"
| close: "ext_step env name (Closing data tmp, fs) (Renaming data tmp, fs)"
| close_fails: "ext_step env name (Closing data tmp, fs) (Cleanup tmp, fs)"
| rename: "ext_step env name (Renaming data tmp, fs)
    (Returned (native_dest env name data), (fs(native_dest env name data := fs tmp))(tmp := None))"
| rename_fails: "ext_step env name (Renaming data tmp, fs) (Cleanup tmp, fs)"
| remove: "ext_step env name (Cleanup tmp, fs) (Failed, fs(tmp := None))"
| remove_fails: "ext_step env name (Cleanup tmp, fs) (LeftBehind tmp, fs)"

text \<open>Any number of processes over one file system, each extracting the same artifact.\<close>

inductive native_step ::
    "native_env \<Rightarrow> string \<Rightarrow> (nat \<Rightarrow> ext_pc) \<times> file_map \<Rightarrow> (nat \<Rightarrow> ext_pc) \<times> file_map \<Rightarrow> bool"
  for env name where
  process: "ext_step env name (pcs i, fs) (pc, fs') \<Longrightarrow> native_step env name (pcs, fs) (pcs(i := pc), fs')"

inductive_cases ext_stepE: "ext_step env name (pc, fs) (pc', fs')"

subsection \<open>The invariant\<close>

text \<open>The temporary file of a process, and what is in it.\<close>

fun temp_of :: "ext_pc \<Rightarrow> string option" where
  "temp_of (Writing data tmp) = Some tmp"
| "temp_of (Chmodding data tmp) = Some tmp"
| "temp_of (Closing data tmp) = Some tmp"
| "temp_of (Renaming data tmp) = Some tmp"
| "temp_of (Cleanup tmp) = Some tmp"
| "temp_of (LeftBehind tmp) = Some tmp"
| "temp_of _ = None"

fun pc_ok :: "native_env \<Rightarrow> string \<Rightarrow> string \<Rightarrow> file_map \<Rightarrow> ext_pc \<Rightarrow> bool" where
  "pc_ok env name data fs (NeedDir d) = (d = data)"
| "pc_ok env name data fs (NeedTemp d) = (d = data)"
| "pc_ok env name data fs (Writing d tmp) = (d = data \<and> (\<exists>c. fs tmp = Some (c, False) \<and> prefix c data))"
| "pc_ok env name data fs (Chmodding d tmp) = (d = data \<and> fs tmp = Some (data, False))"
| "pc_ok env name data fs (Closing d tmp) = (d = data \<and> fs tmp = Some (data, True))"
| "pc_ok env name data fs (Renaming d tmp) = (d = data \<and> fs tmp = Some (data, True))"
| "pc_ok env name data fs (Cleanup tmp) = (fs tmp \<noteq> None)"
| "pc_ok env name data fs (LeftBehind tmp) = (fs tmp \<noteq> None)"
| "pc_ok env name data fs (Returned p) = (p = native_dest env name data \<and> fs p = Some (data, True))"
| "pc_ok env name data fs _ = True"

definition is_temp :: "string \<Rightarrow> string \<Rightarrow> bool" where
  "is_temp dest tmp \<longleftrightarrow> (\<exists>r. tmp = dest @ ''.tmp'' @ r)"

definition native_inv :: "native_env \<Rightarrow> string \<Rightarrow> string \<Rightarrow> file_map \<Rightarrow> (nat \<Rightarrow> ext_pc) \<times> file_map \<Rightarrow> bool" where
  "native_inv env name data fs0 = (\<lambda>(pcs, fs).
     (let dest = native_dest env name data in
      (\<forall>i. pc_ok env name data fs (pcs i)) \<and>
      (\<forall>i tmp. temp_of (pcs i) = Some tmp \<longrightarrow> is_temp dest tmp \<and> fs0 tmp = None) \<and>
      (\<forall>i j tmp. temp_of (pcs i) = Some tmp \<longrightarrow> temp_of (pcs j) = Some tmp \<longrightarrow> i = j) \<and>
      (fs dest = fs0 dest \<or> fs dest = Some (data, True)) \<and>
      (\<forall>p. p \<noteq> dest \<longrightarrow> (\<forall>i. temp_of (pcs i) \<noteq> Some p) \<longrightarrow> fs p = fs0 p)))"

lemma is_temp_neq: "is_temp dest tmp \<Longrightarrow> tmp \<noteq> dest"
  by (auto simp: is_temp_def)

lemma pc_ok_temp: "pc_ok env name data fs pc \<Longrightarrow> temp_of pc = Some tmp \<Longrightarrow> fs tmp \<noteq> None"
  by (cases pc) auto

lemma pc_ok_other:
  assumes "pc_ok env name data fs pc" and "\<And>tmp. temp_of pc = Some tmp \<Longrightarrow> fs' tmp = fs tmp"
    and "fs (native_dest env name data) = Some (data, True) \<Longrightarrow> fs' (native_dest env name data) = Some (data, True)"
  shows "pc_ok env name data fs' pc"
  using assms by (cases pc) auto

text \<open>What one step does to the process that takes it and to the files.\<close>

lemma ext_step_effect:
  assumes "ext_step env name (pc, fs) (pc', fs')" and "pc_ok env name data fs pc"
    and "name \<noteq> []" and "ne_embedded env name = Some data"
    and "\<forall>tmp. temp_of pc = Some tmp \<longrightarrow> is_temp (native_dest env name data) tmp"
    and "\<forall>c x. fs (native_dest env name data) = Some (c, x) \<longrightarrow> length c = length data \<longrightarrow> c = data \<and> x"
  shows "pc_ok env name data fs' pc'"
    and "temp_of pc' = Some tmp \<Longrightarrow> temp_of pc = Some tmp \<or> is_temp (native_dest env name data) tmp \<and> fs tmp = None"
    and "p \<noteq> native_dest env name data \<Longrightarrow> temp_of pc \<noteq> Some p \<Longrightarrow> temp_of pc' \<noteq> Some p \<Longrightarrow> fs' p = fs p"
    and "fs' (native_dest env name data) = fs (native_dest env name data) \<or>
      fs' (native_dest env name data) = Some (data, True)"
    and "temp_of pc = Some p \<Longrightarrow> temp_of pc' \<noteq> Some p \<Longrightarrow> fs' p = None"
proof -
  let ?dest = "native_dest env name data"
  have other: "tmp \<noteq> ?dest" if "temp_of pc = Some tmp" for tmp
    using assms(5) that is_temp_neq by blast
  show "pc_ok env name data fs' pc'"
    using assms(1-4) assms(6) other by (elim ext_stepE) (auto simp: is_temp_def)
  show "temp_of pc' = Some tmp \<Longrightarrow> temp_of pc = Some tmp \<or> is_temp ?dest tmp \<and> fs tmp = None"
    using assms(1,2) by (elim ext_stepE) (auto simp: is_temp_def)
  show "p \<noteq> ?dest \<Longrightarrow> temp_of pc \<noteq> Some p \<Longrightarrow> temp_of pc' \<noteq> Some p \<Longrightarrow> fs' p = fs p"
    using assms(1,2) by (elim ext_stepE) auto
  show "fs' ?dest = fs ?dest \<or> fs' ?dest = Some (data, True)"
    using assms(1,2) other by (elim ext_stepE) (auto simp: is_temp_def)
  show "temp_of pc = Some p \<Longrightarrow> temp_of pc' \<noteq> Some p \<Longrightarrow> fs' p = None"
    using assms(1,2) by (elim ext_stepE) auto
qed

lemma native_step_inv:
  assumes "native_step env name (pcs, fs) st" and "native_inv env name data fs0 (pcs, fs)"
    and "name \<noteq> []" and "ne_embedded env name = Some data"
    and "\<And>c x. fs0 (native_dest env name data) = Some (c, x) \<Longrightarrow> length c = length data \<Longrightarrow> c = data \<and> x"
  shows "native_inv env name data fs0 st"
  using assms(1)
proof cases
  case (process i pc fs')
  let ?dest = "native_dest env name data"
  note inv = assms(2) [unfolded native_inv_def Let_def prod.case]
  have ok: "pc_ok env name data fs (pcs j)" for j
    using inv by blast
  have temps: "is_temp ?dest tmp" "fs0 tmp = None" "tmp \<noteq> ?dest" "fs tmp \<noteq> None" if "temp_of (pcs j) = Some tmp" for j tmp
    using inv that pc_ok_temp [OF ok that] is_temp_neq by blast+
  have dest: "\<forall>c x. fs ?dest = Some (c, x) \<longrightarrow> length c = length data \<longrightarrow> c = data \<and> x"
    using inv assms(5) by auto
  have step: "ext_step env name (pcs i, fs) (pc, fs')"
    using process by simp
  have own: "\<forall>tmp. temp_of (pcs i) = Some tmp \<longrightarrow> is_temp ?dest tmp"
    using temps(1) by blast
  note eff = ext_step_effect [OF step ok assms(3,4) own dest]
  have keep: "fs' tmp = fs tmp" if "temp_of (pcs j) = Some tmp" "j \<noteq> i" for j tmp
  proof (rule eff(3))
    show "tmp \<noteq> ?dest" using temps(3) [OF that(1)] .
    show "temp_of (pcs i) \<noteq> Some tmp" using inv that by blast
    then show "temp_of pc \<noteq> Some tmp" using eff(2) [where tmp = tmp] temps(4) [OF that(1)] by blast
  qed
  have new: "is_temp ?dest tmp \<and> fs0 tmp = None" if "temp_of pc = Some tmp" for tmp
  proof (cases "temp_of (pcs i) = Some tmp")
    case False
    then have fresh: "is_temp ?dest tmp" "fs tmp = None" using eff(2) [OF that] by blast+
    moreover have "temp_of (pcs j) \<noteq> Some tmp" for j using temps(4) [of j tmp] fresh by blast
    ultimately have "fs0 tmp = fs tmp" using inv is_temp_neq by metis
    with fresh show ?thesis by simp
  qed (use temps in blast)
  have "pc_ok env name data fs' ((pcs(i := pc)) j)" for j
    using eff(1) pc_ok_other [OF ok [of j] keep] eff(4) by (cases "j = i") auto
  moreover have "\<forall>j tmp. temp_of ((pcs(i := pc)) j) = Some tmp \<longrightarrow> is_temp ?dest tmp \<and> fs0 tmp = None"
    using new temps by auto
  moreover have "temp_of pc \<noteq> Some tmp" if "temp_of (pcs j) = Some tmp" "j \<noteq> i" for j tmp
    using eff(2) [where tmp = tmp] temps(4) [OF that(1)] inv that by blast
  then have "\<forall>j k tmp. temp_of ((pcs(i := pc)) j) = Some tmp \<longrightarrow> temp_of ((pcs(i := pc)) k) = Some tmp \<longrightarrow> j = k"
    using inv by auto
  moreover have "fs' ?dest = fs0 ?dest \<or> fs' ?dest = Some (data, True)"
    using inv eff(4) by auto
  moreover have "fs' p = fs0 p" if "p \<noteq> ?dest" "\<forall>j. temp_of ((pcs(i := pc)) j) \<noteq> Some p" for p
  proof (cases "temp_of (pcs i) = Some p")
    case True
    then show ?thesis
      using that eff(5) [where p = p] temps(2) [OF True] by (metis fun_upd_same)
  next
    case False
    then have "\<forall>j. temp_of (pcs j) \<noteq> Some p" using that(2) by (metis fun_upd_other)
    then show ?thesis
      using inv that eff(3) [OF that(1) False] by (metis fun_upd_same)
  qed
  ultimately show ?thesis
    unfolding process(1) native_inv_def Let_def prod.case by blast
qed

subsection \<open>Properties\<close>

text \<open>
  C19: Concurrent extractions never expose a torn file: whatever processes run, in whatever order and wherever
  their calls fail, the artifact's path holds what it held before or the whole artifact, executable; a process
  that returns the path returns it with the whole artifact there; and when none is at work or has failed to remove
  its temporary file, no other file of the cache directory is new, changed or gone.
\<close>

theorem native_never_torn:
  assumes "name \<noteq> []" and "ne_embedded env name = Some data" and "dest = native_dest env name data"
    and "\<And>c x. fs0 dest = Some (c, x) \<Longrightarrow> length c = length data \<Longrightarrow> c = data \<and> x"
    and "(native_step env name)\<^sup>*\<^sup>* (\<lambda>_. Begin, fs0) (pcs, fs)"
  shows "(fs dest = fs0 dest \<or> fs dest = Some (data, True)) \<and>
    (\<forall>i p. pcs i = Returned p \<longrightarrow> p = dest \<and> fs p = Some (data, True)) \<and>
    ((\<forall>i. temp_of (pcs i) = None) \<longrightarrow> (\<forall>p. p \<noteq> dest \<longrightarrow> fs p = fs0 p))"
proof -
  have "native_inv env name data fs0 (pcs, fs)"
    using assms(5)
  proof (induction rule: rtranclp_induct2)
    case refl
    then show ?case by (simp add: native_inv_def Let_def)
  next
    case (step pcs fs pcs' fs')
    show ?case
      using native_step_inv [OF step(2,3) assms(1,2)] assms(3,4) by blast
  qed
  then have inv: "\<forall>i. pc_ok env name data fs (pcs i)" "fs dest = fs0 dest \<or> fs dest = Some (data, True)"
      "\<forall>p. p \<noteq> dest \<longrightarrow> (\<forall>i. temp_of (pcs i) \<noteq> Some p) \<longrightarrow> fs p = fs0 p"
    unfolding native_inv_def Let_def prod.case assms(3) by blast+
  have "p = dest \<and> fs p = Some (data, True)" if "pcs i = Returned p" for i p
    using inv(1) that assms(3) by (metis pc_ok.simps(9))
  with inv(2,3) show ?thesis by simp
qed

text \<open>A process that is not disturbed and whose calls succeed installs the artifact.\<close>

lemma native_installs:
  assumes "name \<noteq> []" and "ne_embedded env name = Some data" and "dest = native_dest env name data" and "tmp = dest @ ''.tmp''"
    and "fs dest = None" and "fs tmp = None" and "pcs i = Begin"
  shows "\<exists>pcs' fs'. (native_step env name)\<^sup>*\<^sup>* (pcs, fs) (pcs', fs') \<and> pcs' i = Returned dest \<and> fs' dest = Some (data, True)"
proof -
  let ?step = "native_step env name"
  have go: "?step\<^sup>*\<^sup>* (q, f) (q(i := pc), f')" if "ext_step env name (q i, f) (pc, f')" for q f pc f'
    using native_step.process [of env name q i f pc f', OF that] by (rule r_into_rtranclp)
  have "ext_step env name (pcs i, fs) (NeedDir data, fs)"
    unfolding assms(7) by (rule ext_step.missing) (use assms in auto)
  from go [of pcs fs "NeedDir data" fs, OF this] have s1: "?step\<^sup>*\<^sup>* (pcs, fs) (pcs(i := NeedDir data), fs)" .
  have s2: "?step\<^sup>*\<^sup>* (pcs(i := NeedDir data), fs) (pcs(i := NeedTemp data), fs)"
    using go [of "pcs(i := NeedDir data)" fs "NeedTemp data" fs] ext_step.mkdir by simp
  have s3: "?step\<^sup>*\<^sup>* (pcs(i := NeedTemp data), fs) (pcs(i := Writing data tmp), fs(tmp \<mapsto> ([], False)))"
    using go [of "pcs(i := NeedTemp data)" fs "Writing data tmp" "fs(tmp \<mapsto> ([], False))"]
      ext_step.temp [of tmp env name data "[]" fs] assms by simp
  have s4: "?step\<^sup>*\<^sup>* (pcs(i := Writing data tmp), fs(tmp \<mapsto> ([], False))) (pcs(i := Writing data tmp), fs(tmp \<mapsto> (data, False)))"
    using go [of "pcs(i := Writing data tmp)" "fs(tmp \<mapsto> ([], False))" "Writing data tmp" "fs(tmp \<mapsto> (data, False))"]
      ext_step.write_some [of "fs(tmp \<mapsto> ([], False))" tmp "[]" False data data env name] by simp
  have s5: "?step\<^sup>*\<^sup>* (pcs(i := Writing data tmp), fs(tmp \<mapsto> (data, False))) (pcs(i := Chmodding data tmp), fs(tmp \<mapsto> (data, False)))"
    using go [of "pcs(i := Writing data tmp)" "fs(tmp \<mapsto> (data, False))" "Chmodding data tmp" "fs(tmp \<mapsto> (data, False))"]
      ext_step.written [of "fs(tmp \<mapsto> (data, False))" tmp data False env name] by simp
  have s6: "?step\<^sup>*\<^sup>* (pcs(i := Chmodding data tmp), fs(tmp \<mapsto> (data, False))) (pcs(i := Closing data tmp), fs(tmp \<mapsto> (data, True)))"
    using go [of "pcs(i := Chmodding data tmp)" "fs(tmp \<mapsto> (data, False))" "Closing data tmp" "fs(tmp \<mapsto> (data, True))"]
      ext_step.chmod [of "fs(tmp \<mapsto> (data, False))" tmp data False env name data] by simp
  have s7: "?step\<^sup>*\<^sup>* (pcs(i := Closing data tmp), fs(tmp \<mapsto> (data, True))) (pcs(i := Renaming data tmp), fs(tmp \<mapsto> (data, True)))"
    using go [of "pcs(i := Closing data tmp)" "fs(tmp \<mapsto> (data, True))" "Renaming data tmp" "fs(tmp \<mapsto> (data, True))"]
      ext_step.close by simp
  have s8: "?step\<^sup>*\<^sup>* (pcs(i := Renaming data tmp), fs(tmp \<mapsto> (data, True))) (pcs(i := Returned dest), (fs(tmp \<mapsto> (data, True), dest \<mapsto> (data, True)))(tmp := None))"
    using go [of "pcs(i := Renaming data tmp)" "fs(tmp \<mapsto> (data, True))" "Returned dest"]
      ext_step.rename [of env name data tmp "fs(tmp \<mapsto> (data, True))"] assms(3) by simp
  show ?thesis
  proof (intro exI conjI)
    show "?step\<^sup>*\<^sup>* (pcs, fs) (pcs(i := Returned dest), (fs(tmp \<mapsto> (data, True), dest \<mapsto> (data, True)))(tmp := None))"
      by (rule rtranclp_trans [OF s1 rtranclp_trans [OF s2 rtranclp_trans [OF s3 rtranclp_trans [OF s4 rtranclp_trans [OF s5 rtranclp_trans [OF s6 rtranclp_trans [OF s7 s8]]]]]]])
  qed (use assms(4) in simp_all)
qed

definition sample_native :: native_env where
  "sample_native = \<lparr>ne_embedded = (\<lambda>n. Some ''ELF''), ne_sum256 = (\<lambda>s. replicate 32 171), ne_userCacheDir = Some ''/c'', ne_tempDir = ''/tmp''\<rparr>"

lemma sample_native_dest: "native_dest sample_native ''rg'' ''ELF'' = ''/c/rca/native/abababababab/rg''"
proof -
  have six: "take 6 (replicate 32 x) = [x, x, x, x, x, x]" for x :: nat
    by (simp add: numeral_eq_Suc)
  have digits: "EncodeHex [171, 171, 171, 171, 171, 171] = ''abababababab''"
    by code_simp
  show ?thesis
    unfolding native_dest_def sample_native_def
    by (simp add: six digits JoinPath_def Clean_def clean_loop.simps del: take_replicate)
qed

theorem native_never_torn_witness:
  "\<exists>pcs fs. (native_step sample_native ''rg'')\<^sup>*\<^sup>* (\<lambda>_. Begin, Map.empty) (pcs, fs) \<and>
     pcs 1 = Returned ''/c/rca/native/abababababab/rg'' \<and> fs ''/c/rca/native/abababababab/rg'' = Some (''ELF'', True)"
proof -
  let ?dest = "''/c/rca/native/abababababab/rg''"
  have env: "''rg'' \<noteq> []" "ne_embedded sample_native ''rg'' = Some ''ELF''"
    "''/c/rca/native/abababababab/rg'' = native_dest sample_native ''rg'' ''ELF''"
    by (simp_all only: sample_native_dest) (simp_all add: sample_native_def)
  obtain pcs fs where run: "(native_step sample_native ''rg'')\<^sup>*\<^sup>* (\<lambda>_. Begin, Map.empty) (pcs, fs)"
      "pcs 1 = Returned ''/c/rca/native/abababababab/rg''"
    using native_installs [OF env refl, of Map.empty "\<lambda>_. Begin" 1] by auto
  have "(fs ?dest = Map.empty ?dest \<or> fs ?dest = Some (''ELF'', True)) \<and>
      (\<forall>i p. pcs i = Returned p \<longrightarrow> p = ?dest \<and> fs p = Some (''ELF'', True)) \<and>
      ((\<forall>i. temp_of (pcs i) = None) \<longrightarrow> (\<forall>p. p \<noteq> ?dest \<longrightarrow> fs p = Map.empty p))"
    by (rule native_never_torn [OF env _ run(1)]) simp
  then show ?thesis
    using run by blast
qed

end
