(* ===== verification/GoEncoding.thy ===== *)
theory GoEncoding
  imports GoStrings
begin

unbundle bit_operations_syntax

section \<open>Varints and base64\<close>

text \<open>
  The encodings of Go's standard library that pairing codes are made of: unsigned varints of
  \<open>encoding/binary\<close> and the unpadded URL alphabet of \<open>encoding/base64\<close>. For both: what was encoded
  decodes, and a part of it does not decode to the whole.
\<close>

subsection \<open>binary.AppendUvarint and binary.Uvarint\<close>

function put_uvarint :: "u64 \<Rightarrow> bytes" where
  "put_uvarint x =
     (if 0x80 \<le> x then (ucast x OR 0x80) # put_uvarint (drop_bit 7 x) else [ucast x])"
  by pat_completeness auto
termination
proof (relation "measure (unat :: u64 \<Rightarrow> nat)", rule wf_measure)
  fix x :: u64 assume "0x80 \<le> x"
  then have "128 \<le> unat x" by (simp add: word_le_nat_alt)
  then show "(drop_bit 7 x, x) \<in> measure unat"
    by (simp add: unat_drop_bit_eq drop_bit_eq_div unat_div)
qed

declare put_uvarint.simps [simp del]

text \<open>The result is the value and the number of bytes read; that is 0 at the end of the buffer, negative on overflow.\<close>

fun uvarint_loop :: "nat \<Rightarrow> u64 \<Rightarrow> bytes \<Rightarrow> u64 \<times> int" where
  "uvarint_loop i x [] = (0, 0)"
| "uvarint_loop i x (b # bs) =
     (if i = 10 then (0, - int (i + 1))
      else if b < 0x80 then
        (if i = 9 \<and> b > 1 then (0, - int (i + 1)) else (x OR push_bit (7 * i) (ucast b), int (i + 1)))
      else uvarint_loop (i + 1) (x OR push_bit (7 * i) (ucast (b AND 0x7F))) bs)"

definition Uvarint :: "bytes \<Rightarrow> u64 \<times> int" where
  "Uvarint buf = uvarint_loop 0 0 buf"

lemma take_bit_step:
  "take_bit n (x :: u64) OR push_bit n (take_bit 7 (drop_bit n x)) = take_bit (n + 7) x"
proof (rule bit_word_eqI)
  fix k assume "k < LENGTH(64)"
  then show "bit (take_bit n x OR push_bit n (take_bit 7 (drop_bit n x))) k \<longleftrightarrow> bit (take_bit (n + 7) x) k"
    by (auto simp: bit_simps le_diff_conv less_diff_conv add.commute)
qed

lemma high_byte: "(0x80 :: byte) \<le> ucast (y :: u64) OR 0x80"
  using le_word_or2 [of "0x80 :: byte" "ucast y"] by (simp add: or.commute)

lemma low_bits: "ucast ((ucast (y :: u64) OR 0x80 :: byte) AND 0x7F) = take_bit 7 y"
proof -
  have m: "(0x7F :: byte) = mask 7" "(0x80 :: byte) = 2 ^ 7"
    by (simp_all add: mask_eq_exp_minus_1)
  show ?thesis
    unfolding m by (rule bit_word_eqI) (auto simp: bit_simps simp del: power_numeral)
qed

lemma small_byte:
  assumes "(y :: u64) < 0x80"
  shows "(ucast y :: byte) < 0x80" and "ucast (ucast y :: byte) = y" and "take_bit 7 y = y"
proof -
  have y: "unat y < 128" using assms by (simp add: word_less_nat_alt)
  then show "(ucast y :: byte) < 0x80" by (simp add: word_less_nat_alt unsigned_ucast_eq take_bit_eq_mod)
  show "ucast (ucast y :: byte) = y" using y by (simp add: word_unat_eq_iff unsigned_ucast_eq take_bit_eq_mod unat_mod)
  show "take_bit 7 y = y" using y by (simp add: word_unat_eq_iff take_bit_eq_mod unat_mod)
qed

text \<open>The loop over the varint of what is left of a value.\<close>

lemma uvarint_loop_put:
  "y = drop_bit (7 * i) X \<Longrightarrow> i \<le> 9 \<Longrightarrow>
   uvarint_loop i (take_bit (7 * i) X) (put_uvarint y @ rest) = (X, int (i + length (put_uvarint y)))"
proof (induction y arbitrary: i rule: put_uvarint.induct)
  case (1 y)
  have last: "y < 2" if "i = 9"
  proof -
    have "unat y = unat X div 2 ^ 63"
      using 1(2) that by (simp add: drop_bit_eq_div unat_div)
    moreover have "unat X < 2 ^ 64" using unsigned_less [of X] by simp
    ultimately show ?thesis by (simp add: word_less_nat_alt)
  qed
  show ?case
  proof (cases "0x80 \<le> y")
    case True
    then have i: "i < 9" using last 1(3) by (cases "i = 9") (auto simp: word_le_nat_alt word_less_nat_alt)
    have "drop_bit 7 y = drop_bit (7 * (i + 1)) X"
      using 1(2) by (simp add: drop_bit_drop_bit add.commute)
    from "1.IH" [OF True this] i have
      "uvarint_loop (i + 1) (take_bit (7 * (i + 1)) X) (put_uvarint (drop_bit 7 y) @ rest) =
        (X, int (i + 1 + length (put_uvarint (drop_bit 7 y))))" by simp
    moreover have "take_bit (7 * i) X OR push_bit (7 * i) (ucast ((ucast y OR 0x80 :: byte) AND 0x7F)) = take_bit (7 * (i + 1)) X"
      using take_bit_step [of "7 * i" X] 1(2) by (simp add: low_bits add.commute)
    moreover have "\<not> (ucast y OR 0x80 :: byte) < 0x80"
      using high_byte [of y] by (simp only: not_less)
    ultimately show ?thesis
      using True i by (subst (1 2) put_uvarint.simps) simp
  next
    case False
    then have y: "y < 0x80" by simp
    note small = small_byte [OF y]
    have "take_bit (7 * i) X OR push_bit (7 * i) y = take_bit (7 * i + 7) X"
      using take_bit_step [of "7 * i" X] 1(2) small(3) by simp
    also have "\<dots> = X"
    proof -
      have "drop_bit 7 y = 0"
        using y by (simp add: word_less_nat_alt word_unat_eq_iff drop_bit_eq_div unat_div)
      then have "drop_bit (7 * i + 7) X = 0"
        using 1(2) by (simp add: drop_bit_drop_bit add.commute)
      then show ?thesis
        using bits_ident [of "7 * i + 7" X] by simp
    qed
    finally show ?thesis
      using False small last 1(3) by (subst (1 2) put_uvarint.simps) (auto simp: word_less_nat_alt unsigned_ucast_eq take_bit_eq_mod)
  qed
qed

lemma Uvarint_put: "Uvarint (put_uvarint x @ rest) = (x, int (length (put_uvarint x)))"
  using uvarint_loop_put [of x 0 x rest] by (simp add: Uvarint_def)

text \<open>A varint that is cut does not decode.\<close>

lemma put_uvarint_high:
  "k < length (put_uvarint x) \<Longrightarrow> b \<in> set (take k (put_uvarint x)) \<Longrightarrow> 0x80 \<le> b"
proof (induction x arbitrary: k rule: put_uvarint.induct)
  case (1 x)
  show ?case
  proof (cases "0x80 \<le> x")
    case True
    note put = put_uvarint.simps [of x] and high = high_byte [of x]
    show ?thesis
    proof (cases k)
      case (Suc j)
      then have "b = ucast x OR 0x80 \<or> b \<in> set (take j (put_uvarint (drop_bit 7 x)))"
        "j < length (put_uvarint (drop_bit 7 x))"
        using 1(2,3) True put by simp_all
      with "1.IH" [OF True] high show ?thesis by blast
    qed (use 1(3) in simp)
  next
    case False
    then show ?thesis using 1(2,3) by (simp add: put_uvarint.simps [of x])
  qed
qed

lemma uvarint_loop_high: "\<forall>b \<in> set bs. 0x80 \<le> b \<Longrightarrow> snd (uvarint_loop i x bs) \<le> 0"
  by (induction i x bs rule: uvarint_loop.induct) (auto simp: not_less)

lemma Uvarint_cut: "k < length (put_uvarint x) \<Longrightarrow> snd (Uvarint (take k (put_uvarint x))) \<le> 0"
  unfolding Uvarint_def by (rule uvarint_loop_high) (auto dest: put_uvarint_high)

lemma put_uvarint_neq_Nil [simp]: "put_uvarint x \<noteq> []"
  by (subst put_uvarint.simps) simp

subsection \<open>base64.RawURLEncoding\<close>

definition b64_alphabet :: string where
  "b64_alphabet = ''ABCDEFGHIJKLMNOPQRSTUVWXYZabcdefghijklmnopqrstuvwxyz0123456789-_''"

definition b64_value :: "char \<Rightarrow> nat option" where
  "b64_value c = map_of (zip b64_alphabet [0..<64]) c"

text \<open>A quantum is 24 bits: three bytes or four groups of six bits.\<close>

definition pack3 :: "byte \<Rightarrow> byte \<Rightarrow> byte \<Rightarrow> nat" where
  "pack3 a b c = unat a * 65536 + unat b * 256 + unat c"

definition pack4 :: "nat \<Rightarrow> nat \<Rightarrow> nat \<Rightarrow> nat \<Rightarrow> nat" where
  "pack4 p q r s = p * 262144 + q * 4096 + r * 64 + s"

definition sextet :: "nat \<Rightarrow> nat \<Rightarrow> nat" where
  "sextet i v = v div 64 ^ i mod 64"

definition octet :: "nat \<Rightarrow> nat \<Rightarrow> byte" where
  "octet i v = word_of_nat (v div 256 ^ i)"

text \<open>The encoder: four groups for three bytes, then two or three for the rest.\<close>

fun b64_groups :: "bytes \<Rightarrow> nat list" where
  "b64_groups [] = []"
| "b64_groups [a] = (let v = pack3 a 0 0 in [sextet 3 v, sextet 2 v])"
| "b64_groups [a, b] = (let v = pack3 a b 0 in [sextet 3 v, sextet 2 v, sextet 1 v])"
| "b64_groups (a # b # c # bs) =
     (let v = pack3 a b c in sextet 3 v # sextet 2 v # sextet 1 v # sextet 0 v # b64_groups bs)"

definition EncodeToString :: "bytes \<Rightarrow> string" where
  "EncodeToString bs = map ((!) b64_alphabet) (b64_groups bs)"

text \<open>
  The decoder skips carriage returns and line feeds and reads quanta of four characters; a last
  quantum of one character is an error, one of two or three gives one or two bytes, whose unused
  bits are not checked (the encoding is not strict).
\<close>

fun b64_quanta :: "nat list \<Rightarrow> bytes option" where
  "b64_quanta [] = Some []"
| "b64_quanta [p] = None"
| "b64_quanta [p, q] = (let v = pack4 p q 0 0 in Some [octet 2 v])"
| "b64_quanta [p, q, r] = (let v = pack4 p q r 0 in Some [octet 2 v, octet 1 v])"
| "b64_quanta (p # q # r # s # vs) =
     (let v = pack4 p q r s in map_option (\<lambda>bs. octet 2 v # octet 1 v # octet 0 v # bs) (b64_quanta vs))"

definition line_break :: "char \<Rightarrow> bool" where
  "line_break c \<longleftrightarrow> c = CHR 0x0A \<or> c = CHR 0x0D"

definition DecodeString :: "string \<Rightarrow> bytes option" where
  "DecodeString s =
     (case those (map b64_value (filter (\<lambda>c. \<not> line_break c) s)) of None \<Rightarrow> None | Some vs \<Rightarrow> b64_quanta vs)"

lemma b64_values: "list_all (\<lambda>n. b64_value (b64_alphabet ! n) = Some n \<and>
    \<not> line_break (b64_alphabet ! n) \<and> graphic (b64_alphabet ! n)) [0..<64]"
  by code_simp

lemma b64_value_alphabet:
  assumes "n < 64"
  shows "b64_value (b64_alphabet ! n) = Some n" and "\<not> line_break (b64_alphabet ! n)" and "graphic (b64_alphabet ! n)"
  using assms b64_values by (auto simp: list_all_iff)

lemma b64_groups_less: "n \<in> set (b64_groups bs) \<Longrightarrow> n < 64"
  by (induction bs rule: b64_groups.induct) (auto simp: Let_def sextet_def)

lemma those_values: "\<forall>n \<in> set ns. n < 64 \<Longrightarrow>
    those (map b64_value (filter (\<lambda>c. \<not> line_break c) (map ((!) b64_alphabet) ns))) = Some ns"
  by (induction ns) (auto simp: b64_value_alphabet)

lemma regroup:
  fixes v :: nat
  assumes "v < 16777216"
  defines "p \<equiv> v div 262144 mod 64" and "q \<equiv> v div 4096 mod 64" and "r \<equiv> v div 64 mod 64" and "s \<equiv> v mod 64"
  shows "p * 262144 + q * 4096 + r * 64 + s = v"
    and "p * 262144 + q * 4096 + r * 64 = (v div 64) * 64"
    and "p * 262144 + q * 4096 = (v div 4096) * 4096"
proof -
  define a b c where "a = v div 64" and "b = a div 64" and "c = b div 64"
  have abc: "v div 4096 = b" "v div 262144 = c"
    by (simp_all add: a_def b_def c_def div_mult2_eq [symmetric])
  have "r = a mod 64" "q = b mod 64" "p = c"
    using assms(1) by (simp_all add: p_def q_def r_def abc) (simp_all add: a_def flip: abc)
  moreover have "v = a * 64 + s" "a = b * 64 + a mod 64" "b = c * 64 + b mod 64"
    unfolding a_def b_def c_def s_def by (rule div_mult_mod_eq [symmetric])+
  ultimately show "p * 262144 + q * 4096 + r * 64 + s = v"
    and "p * 262144 + q * 4096 + r * 64 = (v div 64) * 64" and "p * 262144 + q * 4096 = (v div 4096) * 4096"
    unfolding abc a_def [symmetric] by linarith+
qed

lemma word_of_nat_byte: "n mod 256 = unat (b :: byte) \<Longrightarrow> word_of_nat n = b"
  by (simp add: word_unat_eq_iff unat_of_nat)

lemma byte_mod [simp]: "unat (a :: byte) mod 256 = unat a"
proof -
  have "unat a < 2 ^ 8" using unsigned_less [of a, where 'a = nat] by simp
  then show ?thesis by simp
qed

lemma three_bytes:
  fixes a b c :: byte
  defines "v \<equiv> unat a * 65536 + unat b * 256 + unat c"
  shows "v < 16777216" and "v div 65536 = unat a" and "v div 256 mod 256 = unat b" and "v mod 256 = unat c"
    and "v div 4096 * 4096 div 65536 = unat a" and "v div 64 * 64 div 65536 = unat a"
    and "v div 64 * 64 div 256 mod 256 = unat b"
proof -
  have u: "unat a < 256" "unat b < 256" "unat c < 256"
    using unsigned_less [of a] unsigned_less [of b] unsigned_less [of c] by simp_all
  have ab: "v div 256 = unat a * 256 + unat b"
    using u(3) by (simp add: v_def)
  show "v < 16777216" using u by (simp add: v_def)
  have "v = unat c + 256 * (unat a * 256 + unat b)" by (simp add: v_def)
  then show "v mod 256 = unat c" using u(3) by (simp only: mod_mult_self2) simp
  show "v div 256 mod 256 = unat b" using u(2) by (simp add: ab)
  have "v div 65536 = v div 256 div 256" by (simp add: div_mult2_eq [symmetric])
  then show 1: "v div 65536 = unat a" using u(2) by (simp add: ab)
  have "v div 4096 * 4096 div 65536 = v div 4096 div 16" "v div 64 * 64 div 65536 = v div 64 div 1024"
    "v div 64 * 64 div 256 = v div 64 div 4"
    by (simp_all add: div_mult_mult1_if [of 4096 _ 16, simplified, symmetric])
  then show "v div 4096 * 4096 div 65536 = unat a" "v div 64 * 64 div 65536 = unat a"
    "v div 64 * 64 div 256 mod 256 = unat b"
    using 1 ab u by (simp_all add: div_mult2_eq [symmetric])
qed

lemma quantum:
  fixes a b c :: byte
  defines "v \<equiv> pack3 a b c"
  shows "octet 2 (pack4 (sextet 3 v) (sextet 2 v) 0 0) = a"
    and "octet 2 (pack4 (sextet 3 v) (sextet 2 v) (sextet 1 v) 0) = a"
    and "octet 1 (pack4 (sextet 3 v) (sextet 2 v) (sextet 1 v) 0) = b"
    and "octet 2 (pack4 (sextet 3 v) (sextet 2 v) (sextet 1 v) (sextet 0 v)) = a"
    and "octet 1 (pack4 (sextet 3 v) (sextet 2 v) (sextet 1 v) (sextet 0 v)) = b"
    and "octet 0 (pack4 (sextet 3 v) (sextet 2 v) (sextet 1 v) (sextet 0 v)) = c"
proof -
  note bytes = three_bytes [of a b c, folded pack3_def, folded v_def]
  have pows: "(64 :: nat) ^ 3 = 262144" "(64 :: nat) ^ 2 = 4096" "(64 :: nat) ^ 1 = 64" "(64 :: nat) ^ 0 = 1"
      "(256 :: nat) ^ 2 = 65536" "(256 :: nat) ^ 1 = 256" "(256 :: nat) ^ 0 = 1"
    by simp_all
  have pack: "pack4 (sextet 3 v) (sextet 2 v) (sextet 1 v) (sextet 0 v) = v"
      "pack4 (sextet 3 v) (sextet 2 v) (sextet 1 v) 0 = v div 64 * 64"
      "pack4 (sextet 3 v) (sextet 2 v) 0 0 = v div 4096 * 4096"
    unfolding pack4_def sextet_def pows add_0_right mult_0 div_by_1 by (rule regroup [OF bytes(1)])+
  show "octet 2 (pack4 (sextet 3 v) (sextet 2 v) 0 0) = a"
    and "octet 2 (pack4 (sextet 3 v) (sextet 2 v) (sextet 1 v) 0) = a"
    and "octet 1 (pack4 (sextet 3 v) (sextet 2 v) (sextet 1 v) 0) = b"
    and "octet 2 (pack4 (sextet 3 v) (sextet 2 v) (sextet 1 v) (sextet 0 v)) = a"
    and "octet 1 (pack4 (sextet 3 v) (sextet 2 v) (sextet 1 v) (sextet 0 v)) = b"
    and "octet 0 (pack4 (sextet 3 v) (sextet 2 v) (sextet 1 v) (sextet 0 v)) = c"
    unfolding pack octet_def pows div_by_1 by (rule word_of_nat_byte, simp only: bytes byte_mod)+
qed

lemmas quanta = quantum quantum [unfolded One_nat_def]

text \<open>What was encoded decodes.\<close>

lemma b64_quanta_groups: "b64_quanta (b64_groups bs) = Some bs"
  by (induction bs rule: b64_groups.induct) (simp_all add: Let_def quanta)

text \<open>A cut text decodes to a proper part of the bytes, or not at all.\<close>

lemma b64_quanta_cut:
  "k < length (b64_groups bs) \<Longrightarrow> b64_quanta (take k (b64_groups bs)) = Some bs' \<Longrightarrow>
   \<exists>j < length bs. bs' = take j bs"
proof (induction bs arbitrary: k bs' rule: b64_groups.induct)
  case (2 a)
  then have "k = 0 \<or> k = 1" by (auto simp: Let_def)
  with 2 show ?case by (auto simp: Let_def)
next
  case (3 a b)
  then have "k = 0 \<or> k = 1 \<or> k = 2" by (auto simp: Let_def)
  with 3 show ?case by (auto simp: Let_def quanta intro: exI [of _ 1])
next
  case (4 a b c bs)
  have "k = 0 \<or> k = 1 \<or> k = 2 \<or> k = 3 \<or> k = Suc (Suc (Suc (Suc (k - 4))))"
    by arith
  then consider "k = 0" | "k = 1" | "k = 2" | "k = 3" | m where "k = Suc (Suc (Suc (Suc m)))"
    by blast
  then show ?case
  proof cases
    case 3
    with 4(3) show ?thesis
      by (intro exI [of _ 1]) (simp add: Let_def quanta)
  next
    case 4
    with "4.prems"(2) show ?thesis
      by (intro exI [of _ 2]) (simp add: Let_def quanta)
  next
    case 5
    then obtain bs1 where bs1: "b64_quanta (take m (b64_groups bs)) = Some bs1" "bs' = a # b # c # bs1"
      using 4(3) by (auto simp: Let_def quanta)
    moreover have "m < length (b64_groups bs)" using 4(2) 5 by (simp add: Let_def)
    ultimately obtain j where "j < length bs" "bs1 = take j bs"
      using "4.IH" [OF refl] by blast
    with bs1(2) show ?thesis
      by (intro exI [of _ "j + 3"]) (simp add: numeral_3_eq_3)
  qed (use 4(3) in \<open>auto simp: Let_def\<close>)
qed simp

lemma DecodeString_breaks:
  "filter (\<lambda>c. \<not> line_break c) s = EncodeToString bs \<Longrightarrow> DecodeString s = Some bs"
proof -
  assume s: "filter (\<lambda>c. \<not> line_break c) s = EncodeToString bs"
  have "\<forall>n \<in> set (b64_groups bs). n < 64" using b64_groups_less by blast
  from those_values [OF this] have
    "those (map b64_value (filter (\<lambda>c. \<not> line_break c) (EncodeToString bs))) = Some (b64_groups bs)"
    by (simp add: EncodeToString_def)
  then show ?thesis
    by (simp add: DecodeString_def b64_quanta_groups flip: s)
qed

lemma DecodeString_cut:
  assumes "k < length (EncodeToString bs)" and "DecodeString (take k (EncodeToString bs)) = Some bs'"
  shows "\<exists>j < length bs. bs' = take j bs"
proof -
  have "\<forall>n \<in> set (take k (b64_groups bs)). n < 64" using b64_groups_less by (meson in_set_takeD)
  from those_values [OF this] have "b64_quanta (take k (b64_groups bs)) = Some bs'"
    using assms(2) by (simp add: DecodeString_def EncodeToString_def take_map)
  with assms(1) b64_quanta_cut show ?thesis by (simp add: EncodeToString_def)
qed

lemma EncodeToString_graphic: "c \<in> set (EncodeToString bs) \<Longrightarrow> graphic c"
  using b64_groups_less by (auto simp: EncodeToString_def b64_value_alphabet)

subsection \<open>base64.StdEncoding\<close>

text \<open>
  The standard alphabet, with padding: the text is a multiple of four characters long, a last quantum of two or
  three groups is filled with \<open>=\<close>, and the decoder takes padding there and nowhere else.
\<close>

definition std_alphabet :: string where
  "std_alphabet = ''ABCDEFGHIJKLMNOPQRSTUVWXYZabcdefghijklmnopqrstuvwxyz0123456789+/''"

definition std_value :: "char \<Rightarrow> nat option" where
  "std_value c = map_of (zip std_alphabet [0..<64]) c"

definition StdEncodeToString :: "bytes \<Rightarrow> string" where
  "StdEncodeToString bs =
     map ((!) std_alphabet) (b64_groups bs) @ replicate ((4 - length (b64_groups bs) mod 4) mod 4) CHR ''=''"

fun std_quanta :: "string \<Rightarrow> nat list option" where
  "std_quanta [] = Some []"
| "std_quanta (p # q # r # s # rest) =
     (if r = CHR ''='' \<and> s = CHR ''='' \<and> rest = [] then those (map std_value [p, q])
      else if s = CHR ''='' \<and> rest = [] then those (map std_value [p, q, r])
      else case those (map std_value [p, q, r, s]) of
        None \<Rightarrow> None
      | Some vs \<Rightarrow> map_option ((@) vs) (std_quanta rest))"
| "std_quanta _ = None"

definition StdDecodeString :: "string \<Rightarrow> bytes option" where
  "StdDecodeString s =
     (case std_quanta (filter (\<lambda>c. \<not> line_break c) s) of None \<Rightarrow> None | Some vs \<Rightarrow> b64_quanta vs)"

lemma std_values: "list_all (\<lambda>n. std_value (std_alphabet ! n) = Some n \<and>
    \<not> line_break (std_alphabet ! n) \<and> std_alphabet ! n \<noteq> CHR ''='') [0..<64]"
  by code_simp

lemma std_value_alphabet [simp]:
  assumes "n < 64"
  shows "std_value (std_alphabet ! n) = Some n" and "\<not> line_break (std_alphabet ! n)"
    and "std_alphabet ! n \<noteq> CHR ''=''"
  using assms std_values by (auto simp: list_all_iff)

lemma sextet_less [simp]: "sextet i v < 64"
  by (simp add: sextet_def)

lemma length_b64_groups: "length (b64_groups bs) mod 4 \<noteq> 1 \<and> (length (b64_groups bs) = 0 \<longleftrightarrow> bs = [])"
  by (induction bs rule: b64_groups.induct) (simp_all add: Let_def)

lemma std_quanta_groups:
  "std_quanta (map ((!) std_alphabet) (b64_groups bs) @
     replicate ((4 - length (b64_groups bs) mod 4) mod 4) CHR ''='') = Some (b64_groups bs)"
  by (induction bs rule: b64_groups.induct) (simp_all add: Let_def numeral_2_eq_2)

lemma StdDecode_StdEncode: "StdDecodeString (StdEncodeToString bs) = Some bs"
proof -
  have "filter (\<lambda>c. \<not> line_break c) (StdEncodeToString bs) = StdEncodeToString bs"
    using b64_groups_less [of _ bs] by (auto simp: StdEncodeToString_def filter_id_conv) (simp add: line_break_def)
  then show ?thesis
    using std_quanta_groups [of bs] by (simp add: StdDecodeString_def StdEncodeToString_def b64_quanta_groups)
qed

lemma StdEncode_neq_Nil: "bs \<noteq> [] \<Longrightarrow> StdEncodeToString bs \<noteq> []"
  using length_b64_groups [of bs] by (auto simp: StdEncodeToString_def)

end
