(* ===== verification/PairCode.thy ===== *)
theory PairCode
  imports GoEncoding
begin

section \<open>Pairing codes (internal/paircode/paircode.go)\<close>

text \<open>
  A pairing code is the text \<open>rca serve\<close> prints and \<open>--code\<close> takes: the prefix \<open>rca1.\<close> and, in
  base64, a peer identity and its addresses as length-prefixed chunks. The identities and addresses
  are libp2p's: what the code uses of that library is the record \<open>libp2p\<close>, an argument.
\<close>

record 'a libp2p =
  lp_Validate :: "string \<Rightarrow> bool"
  lp_IDFromBytes :: "bytes \<Rightarrow> string option"
  lp_Bytes :: "'a \<Rightarrow> bytes"
  lp_NewMultiaddrBytes :: "bytes \<Rightarrow> 'a option"

record 'a AddrInfo =
  ai_ID :: string
  ai_Addrs :: "'a list"

datatype chunk_error = TruncatedLength | TruncatedPayload

datatype pair_error =
    InvalidPeerID
  | NotPairingCode
  | BadBase64
  | PeerIDChunk chunk_error
  | PeerIDBytes
  | TruncatedAddrCount
  | AddrChunk nat chunk_error
  | AddrBytes nat
  | TrailingBytes

definition PairPrefix :: string where
  "PairPrefix = ''rca1.''"

text \<open>One chunk as \<open>Encode\<close> appends it.\<close>

definition chunk :: "bytes \<Rightarrow> bytes" where
  "chunk bs = put_uvarint (word_of_nat (length bs)) @ bs"

definition pair_bytes :: "'a libp2p \<Rightarrow> 'a AddrInfo \<Rightarrow> bytes" where
  "pair_bytes lib info =
     chunk (bytes_of_str (ai_ID info)) @ put_uvarint (word_of_nat (length (ai_Addrs info))) @
     concat (map (\<lambda>a. chunk (lp_Bytes lib a)) (ai_Addrs info))"

definition Encode :: "'a libp2p \<Rightarrow> 'a AddrInfo \<Rightarrow> pair_error + string" where
  "Encode lib info =
     (if \<not> lp_Validate lib (ai_ID info) then Inl InvalidPeerID
      else Inr (PairPrefix @ EncodeToString (pair_bytes lib info)))"

definition readChunk :: "bytes \<Rightarrow> chunk_error + bytes \<times> bytes" where
  "readChunk buf =
     (let (n, k) = Uvarint buf
      in if k \<le> 0 then Inl TruncatedLength
         else let buf = drop (nat k) buf
              in if length buf < unat n then Inl TruncatedPayload
                 else Inr (take (unat n) buf, drop (unat n) buf))"

text \<open>The loop over the addresses: \<open>i\<close> counts those read, the second argument those still to read.\<close>

fun read_addrs :: "'a libp2p \<Rightarrow> nat \<Rightarrow> nat \<Rightarrow> bytes \<Rightarrow> pair_error + 'a list \<times> bytes" where
  "read_addrs lib i 0 buf = Inr ([], buf)"
| "read_addrs lib i (Suc n) buf =
     (case readChunk buf of
        Inl e \<Rightarrow> Inl (AddrChunk i e)
      | Inr (ab, buf) \<Rightarrow>
          (case lp_NewMultiaddrBytes lib ab of
             None \<Rightarrow> Inl (AddrBytes i)
           | Some ma \<Rightarrow>
               (case read_addrs lib (i + 1) n buf of
                  Inl e \<Rightarrow> Inl e
                | Inr (as, buf) \<Rightarrow> Inr (ma # as, buf))))"

definition decode_bytes :: "'a libp2p \<Rightarrow> bytes \<Rightarrow> pair_error + 'a AddrInfo" where
  "decode_bytes lib buf =
     (case readChunk buf of
        Inl e \<Rightarrow> Inl (PeerIDChunk e)
      | Inr (idBytes, buf) \<Rightarrow>
          (case lp_IDFromBytes lib idBytes of
             None \<Rightarrow> Inl PeerIDBytes
           | Some pid \<Rightarrow>
               (let (n, k) = Uvarint buf
                in if k \<le> 0 then Inl TruncatedAddrCount
                   else (case read_addrs lib 0 (unat n) (drop (nat k) buf) of
                           Inl e \<Rightarrow> Inl e
                         | Inr (addrs, buf) \<Rightarrow>
                             if length buf \<noteq> 0 then Inl TrailingBytes
                             else Inr \<lparr>ai_ID = pid, ai_Addrs = addrs\<rparr>))))"

definition Decode :: "'a libp2p \<Rightarrow> string \<Rightarrow> pair_error + 'a AddrInfo" where
  "Decode lib code =
     (let code = TrimSpace code
      in case CutPrefix code PairPrefix of
           None \<Rightarrow> Inl NotPairingCode
         | Some text \<Rightarrow>
             (case DecodeString text of
                None \<Rightarrow> Inl BadBase64
              | Some buf \<Rightarrow> decode_bytes lib buf))"

subsection \<open>Chunks\<close>

lemma readChunk_chunk:
  assumes "length bs < 2 ^ 64"
  shows "readChunk (chunk bs @ rest) = Inr (bs, rest)"
  using assms by (simp add: readChunk_def chunk_def Uvarint_put unat_of_nat)

text \<open>A chunk that is cut, in its length or in its payload, is an error.\<close>

lemma readChunk_cut:
  assumes "length bs < 2 ^ 64" and "k < length (chunk bs)"
  shows "\<exists>e. readChunk (take k (chunk bs)) = Inl e"
proof (cases "k < length (put_uvarint (word_of_nat (length bs)))")
  case True
  then show ?thesis
    using Uvarint_cut [OF True] by (simp add: readChunk_def chunk_def case_prod_beta Let_def)
next
  case False
  then have "take k (chunk bs) = put_uvarint (word_of_nat (length bs)) @
      take (k - length (put_uvarint (word_of_nat (length bs)))) bs"
    by (simp add: chunk_def)
  with False assms show ?thesis
    by (simp add: readChunk_def Uvarint_put unat_of_nat chunk_def Let_def)
qed

lemma chunk_neq_Nil [simp]: "chunk bs \<noteq> []"
  by (simp add: chunk_def)

subsection \<open>The addresses\<close>

lemma read_addrs_all:
  "\<forall>a \<in> set as. length (lp_Bytes lib a) < 2 ^ 64 \<and> lp_NewMultiaddrBytes lib (lp_Bytes lib a) = Some a \<Longrightarrow>
   read_addrs lib i (length as) (concat (map (\<lambda>a. chunk (lp_Bytes lib a)) as) @ rest) = Inr (as, rest)"
  by (induction as arbitrary: i) (simp_all add: readChunk_chunk)

lemma read_addrs_cut:
  "\<forall>a \<in> set as. length (lp_Bytes lib a) < 2 ^ 64 \<Longrightarrow>
   k < length (concat (map (\<lambda>a. chunk (lp_Bytes lib a)) as)) \<Longrightarrow>
   \<exists>e. read_addrs lib i (length as) (take k (concat (map (\<lambda>a. chunk (lp_Bytes lib a)) as))) = Inl e"
proof (induction as arbitrary: i k)
  case (Cons a as)
  let ?c = "chunk (lp_Bytes lib a)" and ?rest = "concat (map (\<lambda>a. chunk (lp_Bytes lib a)) as)"
  show ?case
  proof (cases "k < length ?c")
    case True
    with Cons.prems(1) show ?thesis
      using readChunk_cut [of "lp_Bytes lib a" k] by auto
  next
    case False
    then have "k - length ?c < length ?rest"
      using Cons.prems(2) by simp
    with Cons.prems(1) obtain e where "read_addrs lib (i + 1) (length as) (take (k - length ?c) ?rest) = Inl e"
      using Cons.IH [of "k - length ?c" "i + 1"] by auto
    with False Cons.prems(1) show ?thesis
      by (auto simp: readChunk_chunk split: option.split)
  qed
qed simp

subsection \<open>Codes\<close>

text \<open>What the code relies on libp2p for: an identity and the addresses of a host read back.\<close>

definition reads_back :: "'a libp2p \<Rightarrow> 'a AddrInfo \<Rightarrow> bool" where
  "reads_back lib info \<longleftrightarrow>
     lp_IDFromBytes lib (bytes_of_str (ai_ID info)) = Some (ai_ID info) \<and>
     (\<forall>a \<in> set (ai_Addrs info). lp_NewMultiaddrBytes lib (lp_Bytes lib a) = Some a)"

text \<open>Go's lengths are below \<open>2 ^ 63\<close>.\<close>

definition go_sized :: "'a libp2p \<Rightarrow> 'a AddrInfo \<Rightarrow> bool" where
  "go_sized lib info \<longleftrightarrow> length (ai_ID info) < 2 ^ 63 \<and> length (ai_Addrs info) < 2 ^ 63 \<and>
     (\<forall>a \<in> set (ai_Addrs info). length (lp_Bytes lib a) < 2 ^ 63)"

lemma go_sizedD:
  assumes "go_sized lib info"
  shows "length (ai_ID info) < 2 ^ 64" and "length (ai_Addrs info) < 2 ^ 64"
    and "a \<in> set (ai_Addrs info) \<Longrightarrow> length (lp_Bytes lib a) < 2 ^ 64"
  using assms by (auto simp: go_sized_def)

lemma decode_pair_bytes:
  assumes "reads_back lib info" and "go_sized lib info"
  shows "decode_bytes lib (pair_bytes lib info) = Inr info"
proof -
  note size = go_sizedD [OF assms(2)]
  have "\<forall>a \<in> set (ai_Addrs info). length (lp_Bytes lib a) < 2 ^ 64 \<and>
      lp_NewMultiaddrBytes lib (lp_Bytes lib a) = Some a"
    using assms(1) size(3) by (simp add: reads_back_def)
  from read_addrs_all [OF this, of 0 "[]"] show ?thesis
    using assms(1) size readChunk_chunk [of "bytes_of_str (ai_ID info)"]
    by (simp add: decode_bytes_def pair_bytes_def reads_back_def Uvarint_put unat_of_nat)
qed

lemma cut_in_three:
  "(k :: nat) < a + (b + c) \<Longrightarrow> k < a \<or> (\<exists>j < b. k = a + j) \<or> (\<exists>j < c. k = a + b + j)"
  by presburger

lemma decode_pair_bytes_cut:
  assumes "go_sized lib info" and "k < length (pair_bytes lib info)"
  shows "\<exists>e. decode_bytes lib (take k (pair_bytes lib info)) = Inl e"
proof -
  note size = go_sizedD [OF assms(1)]
  let ?id = "bytes_of_str (ai_ID info)" and ?n = "put_uvarint (word_of_nat (length (ai_Addrs info)))"
  let ?as = "concat (map (\<lambda>a. chunk (lp_Bytes lib a)) (ai_Addrs info))"
  consider "k < length (chunk ?id)"
    | (count) j where "k = length (chunk ?id) + j" "j < length ?n"
    | (addrs) j where "k = length (chunk ?id) + length ?n + j" "j < length ?as"
    using cut_in_three [of k "length (chunk ?id)" "length ?n" "length ?as"] assms(2)
    by (auto simp: pair_bytes_def)
  then show ?thesis
  proof cases
    case 1
    then have "\<exists>e. readChunk (take k (pair_bytes lib info)) = Inl e"
      using readChunk_cut [of ?id k] size(1) by (simp add: pair_bytes_def)
    then show ?thesis by (auto simp: decode_bytes_def)
  next
    case count
    then have "take k (pair_bytes lib info) = chunk ?id @ take j ?n"
      by (simp add: pair_bytes_def)
    with Uvarint_cut [OF count(2)] size(1) show ?thesis
      by (auto simp: decode_bytes_def readChunk_chunk case_prod_beta Let_def split: option.split)
  next
    case addrs
    then have "take k (pair_bytes lib info) = chunk ?id @ ?n @ take j ?as"
      by (simp add: pair_bytes_def)
    moreover have "\<exists>e. read_addrs lib 0 (length (ai_Addrs info)) (take j ?as) = Inl e"
      using read_addrs_cut [OF _ addrs(2)] size(3) by blast
    ultimately show ?thesis
      using size(1,2) by (auto simp: decode_bytes_def readChunk_chunk Uvarint_put unat_of_nat split: option.split)
  qed
qed

lemma PairPrefix_graphic: "\<forall>c \<in> set PairPrefix. graphic c \<and> \<not> line_break c"
  by (simp add: PairPrefix_def graphic_def line_break_def)

lemma Encode_code: "Encode lib info = Inr code \<Longrightarrow> code = PairPrefix @ EncodeToString (pair_bytes lib info)"
  by (simp add: Encode_def split: if_splits)

lemma code_graphic: "Encode lib info = Inr code \<Longrightarrow> c \<in> set code \<Longrightarrow> graphic c"
  using PairPrefix_graphic EncodeToString_graphic by (auto dest!: Encode_code)

subsection \<open>Properties\<close>

lemma decode_copied_code:
  assumes "Encode lib info = Inr code" and "reads_back lib info" and "go_sized lib info"
    and "filter (\<lambda>c. \<not> line_break c) (PairPrefix @ body) = code" and "\<not> line_break (last (PairPrefix @ body))"
    and "\<forall>c \<in> set before. ascii_space c" and "\<forall>c \<in> set after. ascii_space c"
  shows "Decode lib (before @ (PairPrefix @ body) @ after) = Inr info"
proof -
  note code = Encode_code [OF assms(1)]
  have "filter (\<lambda>c. \<not> line_break c) PairPrefix = PairPrefix"
    using PairPrefix_graphic by simp
  then have body: "filter (\<lambda>c. \<not> line_break c) body = EncodeToString (pair_bytes lib info)"
    using assms(4) code by simp
  have "last (PairPrefix @ body) \<in> set (PairPrefix @ body)"
    by (rule last_in_set) (simp add: PairPrefix_def)
  then have "last (PairPrefix @ body) \<in> set code"
    using assms(5) unfolding assms(4) [symmetric] set_filter by blast
  then have "graphic (last (PairPrefix @ body))"
    by (rule code_graphic [OF assms(1)])
  moreover have "graphic (hd (PairPrefix @ body))"
    by (simp add: PairPrefix_def graphic_def)
  ultimately have "TrimSpace (before @ (PairPrefix @ body) @ after) = PairPrefix @ body"
    using assms(6,7) by (intro TrimSpace_strip) (simp_all add: PairPrefix_def)
  with DecodeString_breaks [OF body] decode_pair_bytes [OF assms(2,3)] show ?thesis
    by (simp add: Decode_def CutPrefix_def)
qed

text \<open>
  A pairing code reads back, also as a person copies it: the code of a host, with white space
  around it and broken over any number of lines after its prefix, decodes to that host's identity
  and addresses in their order.
\<close>

theorem paircode_roundtrip:
  assumes "Encode lib info = Inr code" and "reads_back lib info" and "go_sized lib info"
    and "filter (\<lambda>c. \<not> line_break c) (PairPrefix @ body) = code" and "\<not> line_break (last (PairPrefix @ body))"
    and "\<forall>c \<in> set before. ascii_space c" and "\<forall>c \<in> set after. ascii_space c"
  shows "Decode lib (before @ (PairPrefix @ body) @ after) = Inr info"
  by (rule decode_copied_code [OF assms])

lemma decode_code:
  assumes "Encode lib info = Inr code" and "reads_back lib info" and "go_sized lib info"
  shows "Decode lib code = Inr info"
proof -
  obtain body where body: "code = PairPrefix @ body"
    using Encode_code [OF assms(1)] by blast
  have plain: "\<not> line_break c" if "c \<in> set code" for c
    using code_graphic [OF assms(1) that] by (auto simp: graphic_def line_break_def)
  have "last code \<in> set code"
    unfolding body by (rule last_in_set) (simp add: PairPrefix_def)
  with plain have "filter (\<lambda>c. \<not> line_break c) code = code" "\<not> line_break (last code)"
    by (auto simp: filter_id_conv)
  then show ?thesis
    using decode_copied_code [OF assms, of body "[]" "[]"] body by simp
qed

text \<open>A library of identities and addresses that are their own bytes.\<close>

definition plain_libp2p :: "bytes libp2p" where
  "plain_libp2p = \<lparr>lp_Validate = (\<lambda>s. s \<noteq> []), lp_IDFromBytes = (\<lambda>b. if b = [] then None else Some (str_of_bytes b)),
     lp_Bytes = (\<lambda>b. b), lp_NewMultiaddrBytes = Some\<rparr>"

definition sample_info :: "bytes AddrInfo" where
  "sample_info = \<lparr>ai_ID = ''me'', ai_Addrs = [[4, 127, 0, 0, 1], [6]]\<rparr>"

lemma put_uvarint_small: "n < 128 \<Longrightarrow> put_uvarint (word_of_nat n) = [word_of_nat n]"
  by (subst put_uvarint.simps) (simp add: word_le_nat_alt unat_of_nat word_unat_eq_iff unsigned_ucast_eq take_bit_eq_mod)

lemma sample_code: "Encode plain_libp2p sample_info = Inr ''rca1.Am1lAgUEfwAAAQEG''"
  by (simp add: Encode_def plain_libp2p_def sample_info_def pair_bytes_def chunk_def put_uvarint_small [of 1, simplified]
      put_uvarint_small [of 2, simplified] put_uvarint_small [of 5, simplified]
      EncodeToString_def PairPrefix_def bytes_of_str_def byte_of_char_def pack3_def sextet_def b64_alphabet_def)

lemma sample_info_ok: "reads_back plain_libp2p sample_info" "go_sized plain_libp2p sample_info"
  by (simp_all add: reads_back_def go_sized_def plain_libp2p_def sample_info_def)

theorem paircode_roundtrip_witness:
  "Decode plain_libp2p (''  '' @ (PairPrefix @ ''Am1lAgUEf'' @ [CHR 0x0D, CHR 0x0A] @ ''wAAAQEG'') @ [CHR 0x0A]) = Inr sample_info"
  by (rule paircode_roundtrip [OF sample_code sample_info_ok])
    (simp_all add: PairPrefix_def line_break_def ascii_space_def)

text \<open>
  C28: A pairing code that was copied in part is refused, wherever it was cut: no proper prefix of a
  code decodes, so the local side never dials a host with some of its addresses missing.
\<close>

theorem cut_pairing_code_refused:
  assumes "Encode lib info = Inr code" and "go_sized lib info" and "k < length code"
  shows "\<exists>e. Decode lib (take k code) = Inl e"
proof -
  note code = Encode_code [OF assms(1)]
  have trim: "TrimSpace (take k code) = take k code"
    by (rule TrimSpace_graphic) (meson code_graphic [OF assms(1)] in_set_takeD)
  show ?thesis
  proof (cases "k < length PairPrefix")
    case True
    then have "length (take k code) < length PairPrefix" using assms(3) by simp
    then have "\<not> HasPrefix (take k code) PairPrefix"
      unfolding HasPrefix_iff by (metis le_add1 length_append not_less)
    then have "CutPrefix (take k code) PairPrefix = None"
      by (simp add: CutPrefix_def)
    with trim show ?thesis by (simp add: Decode_def)
  next
    case False
    let ?text = "EncodeToString (pair_bytes lib info)"
    have cut: "take k code = PairPrefix @ take (k - length PairPrefix) ?text" "k - length PairPrefix < length ?text"
      using False assms(3) by (auto simp: code)
    show ?thesis
    proof (cases "DecodeString (take (k - length PairPrefix) ?text)")
      case None
      with trim cut(1) show ?thesis by (simp add: Decode_def CutPrefix_def)
    next
      case (Some buf)
      then obtain j where "j < length (pair_bytes lib info)" "buf = take j (pair_bytes lib info)"
        using DecodeString_cut [OF cut(2)] by blast
      with decode_pair_bytes_cut [OF assms(2)] Some trim cut(1) show ?thesis
        by (auto simp: Decode_def CutPrefix_def)
    qed
  qed
qed

theorem cut_pairing_code_refused_witness:
  "\<exists>e. Decode plain_libp2p ''rca1.Am1lAgUEfwAA'' = Inl e"
  using cut_pairing_code_refused [OF sample_code sample_info_ok(2), of 17] by simp

end
