(* ===== verification/Libp2p.thy ===== *)
theory Libp2p
  imports PairCode "HOL-Library.Multiset"
begin

section \<open>The libp2p transport (internal/transport/libp2p.go)\<close>

text \<open>
  The configuration of a host, the addresses it is given, dialing a peer, and the listener that hands inbound
  streams to the executor. What the code uses of libp2p is the record \<open>net_lib\<close>: parsing, printing and nesting
  of multiaddresses, and the record \<open>libp2p\<close> of pairing codes.
\<close>

record 'a net_lib =
  nl_lib :: "'a libp2p"
  nl_NewMultiaddr :: "string \<Rightarrow> 'a option"
  nl_AddrInfo :: "'a \<Rightarrow> 'a AddrInfo option"
  nl_Encapsulate :: "'a \<Rightarrow> 'a \<Rightarrow> 'a"
  nl_String :: "'a \<Rightarrow> string"
  nl_IsIPLoopback :: "'a \<Rightarrow> bool"

definition RCCProtocol :: string where
  "RCCProtocol = ''/rcc/1.0.0''"

subsection \<open>Addresses\<close>

fun parseMultiaddrs :: "'a net_lib \<Rightarrow> string list \<Rightarrow> 'a list" where
  "parseMultiaddrs nl [] = []"
| "parseMultiaddrs nl (a # as) =
     (let a = TrimSpace a in
      if a = [] then parseMultiaddrs nl as
      else case nl_NewMultiaddr nl a of
        None \<Rightarrow> parseMultiaddrs nl as
      | Some ma \<Rightarrow> ma # parseMultiaddrs nl as)"

fun parseAddrInfos :: "'a net_lib \<Rightarrow> string list \<Rightarrow> 'a AddrInfo list" where
  "parseAddrInfos nl [] = []"
| "parseAddrInfos nl (a # as) =
     (let a = TrimSpace a in
      if a = [] then parseAddrInfos nl as
      else case nl_NewMultiaddr nl a of
        None \<Rightarrow> parseAddrInfos nl as
      | Some ma \<Rightarrow>
          (case nl_AddrInfo nl ma of
             None \<Rightarrow> parseAddrInfos nl as
           | Some info \<Rightarrow> info # parseAddrInfos nl as))"

datatype peer_error = BadPeerMultiaddr | BadPeerAddrInfo

definition DialLibp2pPeer :: "'a net_lib \<Rightarrow> string \<Rightarrow> peer_error + 'a AddrInfo" where
  "DialLibp2pPeer nl p2pAddr =
     (case nl_NewMultiaddr nl (TrimSpace p2pAddr) of
        None \<Rightarrow> Inl BadPeerMultiaddr
      | Some ma \<Rightarrow> (case nl_AddrInfo nl ma of None \<Rightarrow> Inl BadPeerAddrInfo | Some info \<Rightarrow> Inr info))"

lemma parseMultiaddrs_iff:
  "ma \<in> set (parseMultiaddrs nl as) \<longleftrightarrow>
     (\<exists>a \<in> set as. TrimSpace a \<noteq> [] \<and> nl_NewMultiaddr nl (TrimSpace a) = Some ma)"
  by (induction as) (auto simp: Let_def split: option.split)

lemma parseAddrInfos_iff:
  "info \<in> set (parseAddrInfos nl as) \<longleftrightarrow>
     (\<exists>a \<in> set as. \<exists>ma. TrimSpace a \<noteq> [] \<and> nl_NewMultiaddr nl (TrimSpace a) = Some ma \<and> nl_AddrInfo nl ma = Some info)"
  by (induction as) (auto simp: Let_def split: option.split)

text \<open>A library over addresses that are their printed forms, and a relay named after its address.\<close>

definition plain_net :: "bytes net_lib" where
  "plain_net = \<lparr>nl_lib = plain_libp2p, nl_NewMultiaddr = (\<lambda>s. if s = [] then None else Some (bytes_of_str s)),
     nl_AddrInfo = (\<lambda>a. Some \<lparr>ai_ID = str_of_bytes (take 2 a), ai_Addrs = [a]\<rparr>), nl_Encapsulate = (\<lambda>a b. a @ b),
     nl_String = str_of_bytes, nl_IsIPLoopback = (\<lambda>a. take 1 a = [0x7F])\<rparr>"

lemma plain_net_fields:
  "nl_NewMultiaddr plain_net s = (if s = [] then None else Some (bytes_of_str s))"
  "nl_AddrInfo plain_net (bytes_of_str s) = Some \<lparr>ai_ID = take 2 s, ai_Addrs = [bytes_of_str s]\<rparr>"
  "nl_Encapsulate plain_net a b = a @ b" "nl_String plain_net a = str_of_bytes a"
  "nl_IsIPLoopback plain_net a = (take 1 a = [0x7F])" "nl_lib plain_net = plain_libp2p"
  by (simp_all add: plain_net_def bytes_of_str_def take_map str_of_bytes_def comp_def)

lemma plain_net_image: "nl_String plain_net a \<in> nl_String plain_net ` S \<Longrightarrow> a \<in> S"
  unfolding plain_net_fields by (metis bytes_of_str_of_bytes image_iff)

subsection \<open>A host\<close>

text \<open>
  The options \<open>NewLibp2pHost\<close> hands to \<open>libp2p.New\<close>. The key of a host without a configured one is generated;
  \<open>generate\<close> is its value, \<open>None\<close> when that fails, and \<open>new\<close> is \<open>libp2p.New\<close>.
\<close>

record 'k HostConfig =
  hc_ListenAddrs :: "string list"
  hc_PrivKey :: "'k option"
  hc_EnableHolePunching :: bool
  hc_ForceReachabilityPrivate :: bool
  hc_AnnounceAddrs :: "string list"

datatype ('k, 'a) host_option =
    Identity 'k
  | ListenAddrStrings "string list"
  | HolePunching
  | ReachabilityPrivate
  | AddrsFactory "'a list \<Rightarrow> 'a list"

definition host_options :: "'a net_lib \<Rightarrow> 'k \<Rightarrow> 'k HostConfig \<Rightarrow> ('k, 'a) host_option list" where
  "host_options nl priv cfg =
     [Identity priv] @
     (if length (hc_ListenAddrs cfg) > 0 then [ListenAddrStrings (hc_ListenAddrs cfg)] else []) @
     (if hc_EnableHolePunching cfg then [HolePunching] else []) @
     (if hc_ForceReachabilityPrivate cfg then [ReachabilityPrivate] else []) @
     (let announce = parseMultiaddrs nl (hc_AnnounceAddrs cfg)
      in if length announce > 0 then [AddrsFactory (\<lambda>addrs. announce @ addrs)] else [])"

definition NewLibp2pHost ::
    "'a net_lib \<Rightarrow> 'k option \<Rightarrow> (('k, 'a) host_option list \<Rightarrow> 'h option) \<Rightarrow> 'k HostConfig \<Rightarrow> 'h option" where
  "NewLibp2pHost nl generate new cfg =
     (case (case hc_PrivKey cfg of None \<Rightarrow> generate | Some k \<Rightarrow> Some k) of
        None \<Rightarrow> None
      | Some priv \<Rightarrow> new (host_options nl priv cfg))"

text \<open>
  What the documentation of libp2p says of the options used here, for a host that is its identity and its
  addresses: the identity is that of the key, and the addresses come out of the factory.
\<close>

definition honours_options :: "('k \<Rightarrow> string) \<Rightarrow> (('k, 'a) host_option list \<Rightarrow> (string \<times> 'a list) option) \<Rightarrow> bool" where
  "honours_options peer_id new \<longleftrightarrow>
     (\<forall>opts hostID addrs. new opts = Some (hostID, addrs) \<longrightarrow>
        (\<forall>k. Identity k \<in> set opts \<longrightarrow> hostID = peer_id k) \<and>
        (\<forall>f. AddrsFactory f \<in> set opts \<longrightarrow> (\<exists>own. addrs = f own)))"

lemma NewLibp2pHost_identity:
  assumes "NewLibp2pHost nl generate new cfg = Some (hostID, addrs)" and "honours_options peer_id new"
    and "hc_PrivKey cfg = Some k"
  shows "hostID = peer_id k"
  using assms by (auto simp: NewLibp2pHost_def honours_options_def host_options_def)

lemma NewLibp2pHost_announces:
  assumes "NewLibp2pHost nl generate new cfg = Some (hostID, addrs)" and "honours_options peer_id new"
  shows "set (parseMultiaddrs nl (hc_AnnounceAddrs cfg)) \<subseteq> set addrs"
proof (cases "parseMultiaddrs nl (hc_AnnounceAddrs cfg) = []")
  case False
  let ?f = "\<lambda>addrs. parseMultiaddrs nl (hc_AnnounceAddrs cfg) @ addrs"
  obtain priv where "new (host_options nl priv cfg) = Some (hostID, addrs)"
    using assms(1) by (auto simp: NewLibp2pHost_def split: option.splits)
  moreover have "AddrsFactory ?f \<in> set (host_options nl priv cfg)"
    using False by (simp add: host_options_def Let_def)
  ultimately obtain own where "addrs = ?f own"
    using assms(2) unfolding honours_options_def by blast
  then show ?thesis by simp
qed simp

subsection \<open>Dialing\<close>

text \<open>
  \<open>lh_NewStream\<close> is told whether a stream may ride a limited, that is relayed, connection.
\<close>

record ('a, 's, 'w) dial_host =
  lh_Connect :: "'a AddrInfo \<Rightarrow> 'w \<Rightarrow> bool \<times> 'w"
  lh_NewStream :: "bool \<Rightarrow> string \<Rightarrow> string \<Rightarrow> 'w \<Rightarrow> 's option \<times> 'w"

datatype dial_error = ConnectPeer | OpenStream

definition Libp2pDial ::
    "('a, 's, 'w) dial_host \<Rightarrow> 'a AddrInfo \<Rightarrow> 'w \<Rightarrow> (dial_error + 's) \<times> 'w" where
  "Libp2pDial h peer w =
     (let (connected, w) = (if length (ai_Addrs peer) > 0 then lh_Connect h peer w else (True, w))
      in if \<not> connected then (Inl ConnectPeer, w)
         else case lh_NewStream h True (ai_ID peer) RCCProtocol w of
           (None, w) \<Rightarrow> (Inl OpenStream, w)
         | (Some s, w) \<Rightarrow> (Inr s, w))"

subsection \<open>The listener\<close>

text \<open>
  libp2p calls the stream handler in a goroutine of its own for each inbound stream; it waits until there is
  room in the channel \<open>incoming\<close> or the listener is closed. \<open>ln_waiting\<close> holds the streams of handlers that
  wait. \<open>Accept\<close> takes from the channel or, once the listener is closed, may fail. The last three fields record
  what has happened: the streams that came, those handed to \<open>Accept\<close>, and those reset, in order.
\<close>

record 's listener =
  ln_handler :: bool
  ln_incoming :: "'s list"
  ln_closed :: bool
  ln_waiting :: "'s list"
  ln_arrived :: "'s list"
  ln_queued :: "'s list"
  ln_accepted :: "'s list"
  ln_reset :: "'s list"

definition incoming_cap :: nat where
  "incoming_cap = 32"

definition ListenLibp2p :: "'s listener" where
  "ListenLibp2p = \<lparr>ln_handler = True, ln_incoming = [], ln_closed = False, ln_waiting = [], ln_arrived = [],
     ln_queued = [], ln_accepted = [], ln_reset = []\<rparr>"

inductive handler_step :: "'s listener \<Rightarrow> 's listener \<Rightarrow> bool" where
  queued: "s \<in> set (ln_waiting l) \<Longrightarrow> length (ln_incoming l) < incoming_cap \<Longrightarrow>
    handler_step l (l\<lparr>ln_waiting := remove1 s (ln_waiting l), ln_incoming := ln_incoming l @ [s],
      ln_queued := ln_queued l @ [s]\<rparr>)"
| refused: "s \<in> set (ln_waiting l) \<Longrightarrow> ln_closed l \<Longrightarrow>
    handler_step l (l\<lparr>ln_waiting := remove1 s (ln_waiting l), ln_reset := ln_reset l @ [s]\<rparr>)"

inductive Accept :: "'s listener \<Rightarrow> 's option \<Rightarrow> 's listener \<Rightarrow> bool" where
  stream: "ln_incoming l = s # rest \<Longrightarrow>
    Accept l (Some s) (l\<lparr>ln_incoming := rest, ln_accepted := ln_accepted l @ [s]\<rparr>)"
| closed: "ln_closed l \<Longrightarrow> Accept l None l"

definition Libp2pListener_Close :: "'s listener \<Rightarrow> 's listener" where
  "Libp2pListener_Close l = l\<lparr>ln_closed := True, ln_handler := False\<rparr>"

text \<open>A step of the handlers or of an executor that accepts; and any step, arrivals and the close included.\<close>

inductive serving_step :: "'s listener \<Rightarrow> 's listener \<Rightarrow> bool" where
  handler: "handler_step l l' \<Longrightarrow> serving_step l l'"
| accept: "Accept l (Some s) l' \<Longrightarrow> serving_step l l'"

inductive listener_step :: "'s listener \<Rightarrow> 's listener \<Rightarrow> bool" where
  arrive: "ln_handler l \<Longrightarrow>
    listener_step l (l\<lparr>ln_waiting := ln_waiting l @ [s], ln_arrived := ln_arrived l @ [s]\<rparr>)"
| serve: "serving_step l l' \<Longrightarrow> listener_step l l'"
| close: "listener_step l (Libp2pListener_Close l)"

inductive_cases serving_stepE: "serving_step l l'"
inductive_cases handler_stepE: "handler_step l l'"
inductive_cases AcceptE: "Accept l r l'"

definition listener_inv :: "'s listener \<Rightarrow> bool" where
  "listener_inv l \<longleftrightarrow>
     mset (ln_arrived l) = mset (ln_accepted l) + mset (ln_incoming l) + mset (ln_waiting l) + mset (ln_reset l) \<and>
     ln_queued l = ln_accepted l @ ln_incoming l \<and> length (ln_incoming l) \<le> incoming_cap \<and>
     (\<not> ln_closed l \<longrightarrow> ln_reset l = [])"

definition listener_work :: "'s listener \<Rightarrow> nat" where
  "listener_work l = 2 * length (ln_waiting l) + length (ln_incoming l)"

lemma serving_step_inv:
  assumes "serving_step l l'" and "listener_inv l"
  shows "listener_inv l'"
  using assms(1)
proof cases
  case handler
  then show ?thesis
    using assms(2) by (elim handler_stepE) (auto simp: listener_inv_def)
next
  case (accept s)
  then show ?thesis
    using assms(2) by (elim AcceptE) (auto simp: listener_inv_def)
qed

lemma serving_step_work:
  assumes "serving_step l l'"
  shows "listener_work l' < listener_work l"
proof -
  have less: "length (remove1 s xs) < length xs" if "s \<in> set xs" for s :: 'a and xs
    using that length_pos_if_in_set [OF that] by (simp add: length_remove1)
  show ?thesis
    using assms
    by (elim serving_stepE handler_stepE AcceptE) (auto simp: listener_work_def dest: less)
qed

lemma listener_step_inv: "listener_step l l' \<Longrightarrow> listener_inv l \<Longrightarrow> listener_inv l'"
  by (induction rule: listener_step.induct)
    (use serving_step_inv in \<open>auto simp: listener_inv_def Libp2pListener_Close_def\<close>)

lemma listener_run_inv: "listener_step\<^sup>*\<^sup>* ListenLibp2p l \<Longrightarrow> listener_inv l"
proof (induction rule: rtranclp_induct)
  case base
  show ?case by (simp add: listener_inv_def ListenLibp2p_def)
qed (rule listener_step_inv)

lemma serving_progress:
  assumes "ln_incoming l @ ln_waiting l \<noteq> []"
  shows "\<exists>l'. serving_step l l'"
proof (cases "ln_incoming l")
  case Nil
  with assms obtain s where "s \<in> set (ln_waiting l)"
    by (metis append_Nil last_in_set)
  with Nil show ?thesis
    using handler_step.queued serving_step.handler by (fastforce simp: incoming_cap_def)
next
  case (Cons s rest)
  show ?thesis by (rule exI) (rule serving_step.accept, rule Accept.stream, rule Cons)
qed

subsection \<open>Properties\<close>

text \<open>
  C36: The listener loses no stream: however many peers open streams at once, each stream is handed to one
  \<open>Accept\<close> or still waits for one, in the order of the channel, which never holds more than its capacity; none is
  reset before the listener is closed; and as long as one waits a step is possible, of which only finitely many
  can follow each other without new arrivals, so an executor that goes on accepting gets them all.
\<close>

theorem listener_loses_no_stream:
  assumes "listener_step\<^sup>*\<^sup>* ListenLibp2p l"
  shows "mset (ln_arrived l) = mset (ln_queued l) + mset (ln_waiting l) + mset (ln_reset l) \<and>
    ln_queued l = ln_accepted l @ ln_incoming l \<and> length (ln_incoming l) \<le> incoming_cap \<and>
    (\<not> ln_closed l \<longrightarrow> ln_reset l = []) \<and>
    (ln_incoming l @ ln_waiting l \<noteq> [] \<longrightarrow> Ex (serving_step l)) \<and>
    {(l', l). serving_step l l'} \<subseteq> measure listener_work"
proof -
  have "ln_incoming l @ ln_waiting l \<noteq> [] \<longrightarrow> Ex (serving_step l)"
    by (rule impI) (rule serving_progress)
  moreover have "{(l', l). serving_step l l'} \<subseteq> measure listener_work"
    by (auto intro: serving_step_work)
  moreover note inv = listener_run_inv [OF assms, unfolded listener_inv_def]
  then have "mset (ln_arrived l) = mset (ln_queued l) + mset (ln_waiting l) + mset (ln_reset l)"
    by simp
  ultimately show ?thesis using inv by blast
qed

theorem listener_loses_no_stream_witness:
  "\<exists>l. ln_arrived l = [''x'', ''y''] \<and> ln_accepted l = [''y''] \<and> Ex (serving_step l)"
proof -
  let ?l1 = "ListenLibp2p\<lparr>ln_waiting := [''x''], ln_arrived := [''x'']\<rparr> :: string listener"
  let ?l2 = "?l1\<lparr>ln_waiting := [''x'', ''y''], ln_arrived := [''x'', ''y'']\<rparr>"
  let ?l3 = "?l2\<lparr>ln_waiting := [''x''], ln_incoming := [''y''], ln_queued := [''y'']\<rparr>"
  let ?l4 = "?l3\<lparr>ln_incoming := [], ln_accepted := [''y'']\<rparr>"
  have "listener_step ListenLibp2p ?l1"
    using listener_step.arrive [of ListenLibp2p "''x''"] by (simp add: ListenLibp2p_def)
  moreover have "listener_step ?l1 ?l2"
    using listener_step.arrive [of ?l1 "''y''"] by (simp add: ListenLibp2p_def)
  moreover have "listener_step ?l2 ?l3"
    using handler_step.queued [of "''y''" ?l2] listener_step.serve serving_step.handler
    by (force simp: ListenLibp2p_def incoming_cap_def)
  moreover have "listener_step ?l3 ?l4"
  proof -
    have "Accept ?l3 (Some ''y'') ?l4"
      using Accept.stream [of ?l3 "''y''" "[]"] by (simp add: ListenLibp2p_def)
    then show ?thesis by (intro listener_step.serve serving_step.accept)
  qed
  ultimately have "listener_step\<^sup>*\<^sup>* ListenLibp2p ?l4"
    by (meson converse_rtranclp_into_rtranclp rtranclp.rtrancl_refl)
  from listener_loses_no_stream [OF this]
  have "ln_incoming ?l4 @ ln_waiting ?l4 \<noteq> [] \<longrightarrow> Ex (serving_step ?l4)"
    by blast
  then have "Ex (serving_step ?l4)" by simp
  then show ?thesis
    by (intro exI [of _ ?l4]) simp
qed

end
