(* ===== verification/Profile.thy ===== *)
theory Profile
  imports Routing
begin

section \<open>Engine profiles (cmd/rca/profile.go)\<close>

text \<open>
  What the launcher knows about each agent command: where it keeps the state that must stay on the local
  host, the helpers it starts beside itself, and the arguments it needs when its subprocesses run on another
  operating system. \<open>getenv\<close> is \<open>os.Getenv\<close>: an unset variable is the empty string.
\<close>

record engineProfile =
  ep_envHome :: string
  ep_defaultDir :: string
  ep_extraFiles :: "string list"
  ep_absExtras :: "string list"
  ep_spawnHelpers :: "string list"
  ep_osHintFlag :: string
  ep_osHintValuePrefix :: string
  ep_crossOSExtraArgs :: "string list"

definition engineProfiles :: "string \<Rightarrow> engineProfile option" where
  "engineProfiles = map_of
     [(''claude'',
       \<lparr>ep_envHome = ''CLAUDE_CONFIG_DIR'', ep_defaultDir = ''.claude'', ep_extraFiles = [''.claude.json''],
        ep_absExtras = [''/etc/claude-code/managed-settings.json'',
          ''/Library/Application Support/ClaudeCode/managed-settings.json''],
        ep_spawnHelpers = [], ep_osHintFlag = ''--append-system-prompt'', ep_osHintValuePrefix = [],
        ep_crossOSExtraArgs = []\<rparr>),
      (''codex'',
       \<lparr>ep_envHome = ''CODEX_HOME'', ep_defaultDir = ''.codex'', ep_extraFiles = [],
        ep_absExtras = [''/etc/codex''], ep_spawnHelpers = [''codex-code-mode-host''],
        ep_osHintFlag = ''-c'', ep_osHintValuePrefix = ''developer_instructions='',
        ep_crossOSExtraArgs = [''-s'', ''danger-full-access'']\<rparr>)]"

definition detectProfile :: "string \<Rightarrow> string" where
  "detectProfile command =
     (let base = Base command in if engineProfiles base \<noteq> None then base else [])"

definition profileLocalPrefixes :: "(string \<Rightarrow> string) \<Rightarrow> string \<Rightarrow> string list" where
  "profileLocalPrefixes getenv profile =
     (case engineProfiles profile of
        None \<Rightarrow> []
      | Some p \<Rightarrow>
          let home = getenv ''HOME'';
              dflt = (if home \<noteq> [] \<and> ep_defaultDir p \<noteq> [] then [JoinPath [home, ep_defaultDir p]] else []);
              out = (if ep_envHome p \<noteq> []
                     then (let v = getenv (ep_envHome p) in if v \<noteq> [] then [v] else dflt)
                     else dflt);
              out = (if home \<noteq> [] then out @ map (\<lambda>f. JoinPath [home, f]) (ep_extraFiles p) else out)
          in out @ ep_absExtras p)"

definition profileSpawnHelpers :: "string \<Rightarrow> string list" where
  "profileSpawnHelpers profile =
     (case engineProfiles profile of None \<Rightarrow> [] | Some p \<Rightarrow> [] @ ep_spawnHelpers p)"

definition profileCrossOSExtraArgs :: "string \<Rightarrow> string list" where
  "profileCrossOSExtraArgs profile =
     (case engineProfiles profile of None \<Rightarrow> [] | Some p \<Rightarrow> [] @ ep_crossOSExtraArgs p)"

definition osHintText :: "string \<Rightarrow> string \<Rightarrow> string" where
  "osHintText execOS execArch =
     ''IMPORTANT '' @ [CHR 0xE2, CHR 0x80, CHR 0x94] @ '' remote execution environment: your shell commands '' @
     ''(the Bash tool and every subprocess it spawns) run on a REMOTE '' @ execOS @ ''/'' @ execArch @ '' host, not on '' @
     ''the machine described in your environment context. Write commands for '' @ execOS @ '': use its '' @
     ''userland conventions (e.g. GNU coreutils flags on linux, BSD on darwin), its file '' @
     ''paths, and only binaries installed on the '' @ execOS @ '' host. Ignore the local platform shown '' @
     ''in your environment block when choosing command syntax.''"

definition osHintArgs :: "string \<Rightarrow> string \<Rightarrow> string \<Rightarrow> string \<Rightarrow> string list" where
  "osHintArgs profile localOS execOS execArch =
     (if execOS = [] \<or> execOS = localOS then []
      else case engineProfiles profile of
        None \<Rightarrow> []
      | Some p \<Rightarrow>
          if ep_osHintFlag p = [] then []
          else [ep_osHintFlag p, ep_osHintValuePrefix p @ osHintText execOS execArch])"

end
