(* ===== verification/GoFlag.thy ===== *)
theory GoFlag
  imports GoStrings
begin

section \<open>Command-line flags of Go's standard library\<close>

text \<open>
  \<open>FlagSet.Parse\<close> of the package \<open>flag\<close>, which the internal commands use: flags up to the first argument
  that is none, or up to \<open>--\<close>. \<open>formal\<close> says which names are defined and whether they are switches. The
  result is the list of the values set, in order, and the remaining arguments.
\<close>

text \<open>\<open>strconv.ParseBool\<close>.\<close>

definition ParseBool :: "string \<Rightarrow> bool option" where
  "ParseBool s =
     (if s \<in> set [''1'', ''t'', ''T'', ''TRUE'', ''true'', ''True''] then Some True
      else if s \<in> set [''0'', ''f'', ''F'', ''FALSE'', ''false'', ''False''] then Some False
      else None)"

datatype flag_error = FlagHelp | BadSyntax string | NotDefined string | BadFlagValue string string | NeedsArgument string

definition flag_name :: "string \<Rightarrow> string \<times> string option" where
  "flag_name s =
     (let rest = takeWhile (\<lambda>c. c \<noteq> CHR ''='') (tl s); after = dropWhile (\<lambda>c. c \<noteq> CHR ''='') (tl s)
      in if after = [] then (s, None) else (hd s # rest, Some (tl after)))"

definition bool_value :: "bool \<Rightarrow> string" where
  "bool_value b = (if b then ''true'' else ''false'')"

fun parse_flags ::
    "(string \<Rightarrow> bool option) \<Rightarrow> string list \<Rightarrow> (string \<times> string) list \<Rightarrow>
     flag_error + (string \<times> string) list \<times> string list" where
  "parse_flags formal [] vs = Inr (vs, [])"
| "parse_flags formal (s # args) vs =
     (if length s < 2 \<or> hd s \<noteq> CHR ''-'' then Inr (vs, s # args)
      else if s = ''--'' then Inr (vs, args)
      else
        let name = (if s ! 1 = CHR ''-'' then drop 2 s else drop 1 s) in
        if name = [] \<or> hd name = CHR ''-'' \<or> hd name = CHR ''='' then Inl (BadSyntax s)
        else
          let (name, val) = flag_name name in
          case formal name of
            None \<Rightarrow> Inl (if name = ''help'' \<or> name = ''h'' then FlagHelp else NotDefined name)
          | Some True \<Rightarrow>
              (case val of
                 None \<Rightarrow> parse_flags formal args (vs @ [(name, ''true'')])
               | Some v \<Rightarrow>
                   (case ParseBool v of
                      None \<Rightarrow> Inl (BadFlagValue name v)
                    | Some b \<Rightarrow> parse_flags formal args (vs @ [(name, bool_value b)])))
          | Some False \<Rightarrow>
              (case val of
                 Some v \<Rightarrow> parse_flags formal args (vs @ [(name, v)])
               | None \<Rightarrow>
                   (case args of
                      [] \<Rightarrow> Inl (NeedsArgument name)
                    | v # args \<Rightarrow> parse_flags formal args (vs @ [(name, v)]))))"

text \<open>The value of a flag given once or more, of a switch, and of a flag that collects its values.\<close>

definition flag_string :: "(string \<times> string) list \<Rightarrow> string \<Rightarrow> string \<Rightarrow> string" where
  "flag_string vs name dflt = (case map_of (rev vs) name of None \<Rightarrow> dflt | Some v \<Rightarrow> v)"

definition flag_bool :: "(string \<times> string) list \<Rightarrow> string \<Rightarrow> bool \<Rightarrow> bool" where
  "flag_bool vs name dflt = (case map_of (rev vs) name of None \<Rightarrow> dflt | Some v \<Rightarrow> v = ''true'')"

definition flag_list :: "(string \<times> string) list \<Rightarrow> string \<Rightarrow> string list" where
  "flag_list vs name = map snd (filter (\<lambda>(n, v). n = name) vs)"

subsection \<open>Lemmas\<close>

definition plain_name :: "string \<Rightarrow> bool" where
  "plain_name n \<longleftrightarrow> n \<noteq> [] \<and> CHR ''='' \<notin> set n \<and> hd n \<noteq> CHR ''-''"

lemma flag_name_plain: "plain_name n \<Longrightarrow> flag_name n = (n, None)"
  by (cases n) (auto simp: plain_name_def flag_name_def Let_def)

text \<open>A flag spelled with one dash and its value in the next argument, whatever that looks like.\<close>

lemma parse_flags_value:
  assumes "plain_name n" and "formal n = Some False"
  shows "parse_flags formal ((''-'' @ n) # v # args) vs = parse_flags formal args (vs @ [(n, v)])"
  using assms flag_name_plain [OF assms(1)] by (cases n) (auto simp: plain_name_def Let_def)

lemma parse_flags_switch:
  assumes "plain_name n" and "formal n = Some True"
  shows "parse_flags formal ((''-'' @ n) # args) vs = parse_flags formal args (vs @ [(n, ''true'')])"
  using assms flag_name_plain [OF assms(1)] by (cases n) (auto simp: plain_name_def Let_def)

lemma parse_flags_end: "parse_flags formal (''--'' # args) vs = Inr (vs, args)"
  by simp

lemma parse_flags_repeated:
  assumes "plain_name n" and "formal n = Some False"
  shows "parse_flags formal (concat (map (\<lambda>v. [''-'' @ n, v]) xs) @ args) vs =
           parse_flags formal args (vs @ map (Pair n) xs)"
  using parse_flags_value [of n formal] assms by (induction xs arbitrary: vs) (simp_all del: parse_flags.simps)

end
