(* ===== verification/RunArgs.thy ===== *)
theory RunArgs
  imports GoFlag
begin

section \<open>The run-mode command line (parseRunArgs of cmd/rca/run.go)\<close>

text \<open>
  \<open>parseRunArgs\<close> takes the flags \<open>rca\<close> owns out of the command line, wherever they stand, and leaves
  everything else to the command. The loop is \<open>parse_loop\<close>, one branch per branch of the code; its
  specification splits a command line into the words left for the command and the flags taken.
\<close>

record runOpts =
  ro_command :: string
  ro_args :: "string list"
  ro_code :: string
  ro_peer :: string
  ro_sock :: string
  ro_via :: string
  ro_workdir :: string
  ro_remotePrefixes :: "string list"
  ro_localPrefixes :: "string list"
  ro_defaultRemote :: bool
  ro_profile :: string
  ro_resign :: bool
  ro_printCmd :: bool
  ro_serveFSOnly :: bool
  ro_adapterSock :: string
  ro_sentinel :: string
  ro_dylib :: string
  ro_supervisor :: string
  ro_spawnProxy :: string

datatype flag_kind = kindBool | kindString | kindStringList

definition ownedFlags :: "string \<Rightarrow> flag_kind option" where
  "ownedFlags = map_of
     [(''code'', kindString), (''peer'', kindString), (''sock'', kindString), (''via'', kindString),
      (''workdir'', kindString), (''remote-prefix'', kindStringList), (''local-prefix'', kindStringList),
      (''default-remote'', kindBool), (''profile'', kindString), (''resign'', kindBool),
      (''print-cmd'', kindBool), (''serve-fs-only'', kindBool), (''adapter-sock'', kindString),
      (''spawn-sentinel'', kindString), (''dylib'', kindString), (''supervisor'', kindString),
      (''spawn-proxy'', kindString)]"

definition set_flag :: "string \<Rightarrow> string \<Rightarrow> runOpts \<Rightarrow> runOpts" where
  "set_flag name val opts =
     (if name = ''code'' then opts\<lparr>ro_code := val\<rparr>
      else if name = ''peer'' then opts\<lparr>ro_peer := val\<rparr>
      else if name = ''sock'' then opts\<lparr>ro_sock := val\<rparr>
      else if name = ''via'' then opts\<lparr>ro_via := val\<rparr>
      else if name = ''workdir'' then opts\<lparr>ro_workdir := val\<rparr>
      else if name = ''profile'' then opts\<lparr>ro_profile := val\<rparr>
      else if name = ''remote-prefix'' then opts\<lparr>ro_remotePrefixes := ro_remotePrefixes opts @ [val]\<rparr>
      else if name = ''local-prefix'' then opts\<lparr>ro_localPrefixes := ro_localPrefixes opts @ [val]\<rparr>
      else if name = ''adapter-sock'' then opts\<lparr>ro_adapterSock := val\<rparr>
      else if name = ''spawn-sentinel'' then opts\<lparr>ro_sentinel := val\<rparr>
      else if name = ''dylib'' then opts\<lparr>ro_dylib := val\<rparr>
      else if name = ''supervisor'' then opts\<lparr>ro_supervisor := val\<rparr>
      else if name = ''spawn-proxy'' then opts\<lparr>ro_spawnProxy := val\<rparr>
      else opts)"

definition setBool_flag :: "string \<Rightarrow> bool \<Rightarrow> runOpts \<Rightarrow> runOpts" where
  "setBool_flag name v opts =
     (if name = ''default-remote'' then opts\<lparr>ro_defaultRemote := v\<rparr>
      else if name = ''resign'' then opts\<lparr>ro_resign := v\<rparr>
      else if name = ''print-cmd'' then opts\<lparr>ro_printCmd := v\<rparr>
      else if name = ''serve-fs-only'' then opts\<lparr>ro_serveFSOnly := v\<rparr>
      else opts)"

text \<open>A flag token: its name without leading dashes, and its value when there is an equals sign.\<close>

definition split_flag :: "string \<Rightarrow> string \<times> string option" where
  "split_flag tok =
     (let name = dropWhile (\<lambda>c. c = CHR ''-'') tok in
      if CHR ''='' \<in> set name
      then (takeWhile (\<lambda>c. c \<noteq> CHR ''='') name, Some (tl (dropWhile (\<lambda>c. c \<noteq> CHR ''='') name)))
      else (name, None))"

definition is_flag :: "string \<Rightarrow> bool" where
  "is_flag tok \<longleftrightarrow> HasPrefix tok ''-'' \<and> tok \<noteq> ''-''"

datatype run_error =
    BadBool string string
  | NeedsValue string
  | UnknownFlag string
  | NoCommand
  | TransportCount nat

text \<open>A word that is not a flag of ours: the command first, then its arguments.\<close>

definition take_word :: "string \<Rightarrow> runOpts \<Rightarrow> runOpts" where
  "take_word tok opts =
     (if ro_command opts = [] then opts\<lparr>ro_command := tok\<rparr> else opts\<lparr>ro_args := ro_args opts @ [tok]\<rparr>)"

text \<open>What follows \<open>--\<close>.\<close>

definition take_rest :: "string list \<Rightarrow> runOpts \<Rightarrow> runOpts" where
  "take_rest rest opts =
     (if ro_command opts = [] \<and> length rest > 0
      then opts\<lparr>ro_command := hd rest, ro_args := ro_args opts @ tl rest\<rparr>
      else opts\<lparr>ro_args := ro_args opts @ rest\<rparr>)"

fun parse_loop :: "string list \<Rightarrow> runOpts \<Rightarrow> run_error + runOpts" where
  "parse_loop [] opts = Inr opts"
| "parse_loop (tok # args) opts =
     (if tok = ''--'' then Inr (take_rest args opts)
      else if is_flag tok then
        (let (name, val) = split_flag tok in
         case ownedFlags name of
           Some kindBool \<Rightarrow>
             (case (case val of None \<Rightarrow> Some True | Some v \<Rightarrow> ParseBool v) of
                None \<Rightarrow> Inl (BadBool name (case val of None \<Rightarrow> [] | Some v \<Rightarrow> v))
              | Some b \<Rightarrow> parse_loop args (setBool_flag name b opts))
         | Some _ \<Rightarrow>
             (case val of
                Some v \<Rightarrow> parse_loop args (set_flag name v opts)
              | None \<Rightarrow> (case args of [] \<Rightarrow> Inl (NeedsValue name) | v # args \<Rightarrow> parse_loop args (set_flag name v opts)))
         | None \<Rightarrow>
             if ro_command opts = [] then Inl (UnknownFlag tok)
             else parse_loop args (opts\<lparr>ro_args := ro_args opts @ [tok]\<rparr>))
      else parse_loop args (take_word tok opts))"

definition btoi :: "bool \<Rightarrow> nat" where
  "btoi b = (if b then 1 else 0)"

definition default_opts :: "string \<Rightarrow> string \<Rightarrow> runOpts" where
  "default_opts goos defaultAdapterSock = \<lparr>ro_command = [], ro_args = [], ro_code = [], ro_peer = [], ro_sock = [],
     ro_via = [], ro_workdir = [], ro_remotePrefixes = [], ro_localPrefixes = [], ro_defaultRemote = False,
     ro_profile = [], ro_resign = (goos = ''darwin''), ro_printCmd = False, ro_serveFSOnly = False,
     ro_adapterSock = defaultAdapterSock, ro_sentinel = ''RCC_REMOTE_MARK'', ro_dylib = [], ro_supervisor = [],
     ro_spawnProxy = []\<rparr>"

definition check_opts :: "runOpts \<Rightarrow> run_error + runOpts" where
  "check_opts opts =
     (if ro_command opts = [] \<and> \<not> ro_serveFSOnly opts then Inl NoCommand
      else (let n = btoi (ro_code opts \<noteq> []) + btoi (ro_peer opts \<noteq> []) + btoi (ro_sock opts \<noteq> []) + btoi (ro_via opts \<noteq> [])
            in if n \<noteq> 1 then Inl (TransportCount n) else Inr opts))"

definition parseRunArgs :: "string \<Rightarrow> string \<Rightarrow> string list \<Rightarrow> run_error + runOpts" where
  "parseRunArgs goos defaultAdapterSock args =
     (case parse_loop args (default_opts goos defaultAdapterSock) of
        Inl e \<Rightarrow> Inl e
      | Inr opts \<Rightarrow> check_opts opts)"


subsection \<open>Words and flags\<close>

text \<open>
  The specification of a command line: a sequence of words of the command and of flags with their
  values. \<open>spelled\<close> relates an item to the tokens that can stand for it: a flag has any positive number of
  dashes, and its value follows in the same token after an equals sign or is the next token, whatever that
  looks like.
\<close>

datatype item = Word string | Value string string | Switch string bool

inductive spelled :: "item \<Rightarrow> string list \<Rightarrow> bool" where
  word: "w \<noteq> ''--'' \<Longrightarrow> (is_flag w \<longrightarrow> ownedFlags (fst (split_flag w)) = None) \<Longrightarrow> spelled (Word w) [w]"
| value_next: "ownedFlags name = Some k \<Longrightarrow> k \<noteq> kindBool \<Longrightarrow>
    spelled (Value name v) [replicate (Suc n) CHR ''-'' @ name, v]"
| value_eq: "ownedFlags name = Some k \<Longrightarrow> k \<noteq> kindBool \<Longrightarrow>
    spelled (Value name v) [replicate (Suc n) CHR ''-'' @ name @ ''='' @ v]"
| switch_on: "ownedFlags name = Some kindBool \<Longrightarrow> spelled (Switch name True) [replicate (Suc n) CHR ''-'' @ name]"
| switch_eq: "ownedFlags name = Some kindBool \<Longrightarrow> ParseBool v = Some b \<Longrightarrow>
    spelled (Switch name b) [replicate (Suc n) CHR ''-'' @ name @ ''='' @ v]"

fun words :: "item list \<Rightarrow> string list" where
  "words [] = []"
| "words (Word w # is) = w # words is"
| "words (Value n v # is) = words is"
| "words (Switch n b # is) = words is"

fun flag_updates :: "item list \<Rightarrow> runOpts \<Rightarrow> runOpts" where
  "flag_updates [] opts = opts"
| "flag_updates (Word w # is) opts = flag_updates is opts"
| "flag_updates (Value n v # is) opts = flag_updates is (set_flag n v opts)"
| "flag_updates (Switch n b # is) opts = flag_updates is (setBool_flag n b opts)"

fun ends :: "string list option \<Rightarrow> string list" where
  "ends None = []"
| "ends (Some rest) = ''--'' # rest"

lemma owned_name:
  assumes "ownedFlags name = Some k"
  shows "name \<noteq> [] \<and> CHR ''='' \<notin> set name \<and> hd name \<noteq> CHR ''-''"
  using map_of_SomeD [OF assms [unfolded ownedFlags_def]] by auto

lemma dropWhile_replicate: "P x \<Longrightarrow> dropWhile P (replicate n x @ xs) = dropWhile P xs"
  by (induction n) auto

lemma split_flag_dashes:
  assumes "ownedFlags name = Some k"
  shows "split_flag (replicate (Suc n) CHR ''-'' @ name) = (name, None)"
    and "split_flag (replicate (Suc n) CHR ''-'' @ name @ ''='' @ v) = (name, Some v)"
proof -
  have n: "name \<noteq> []" "CHR ''='' \<notin> set name" "hd name \<noteq> CHR ''-''"
    using owned_name [OF assms] by auto
  have drop: "dropWhile (\<lambda>c. c = CHR ''-'') (replicate (Suc n) CHR ''-'' @ name @ xs) = name @ xs" for xs
    using n by (auto simp: dropWhile_replicate neq_Nil_conv)
  show "split_flag (replicate (Suc n) CHR ''-'' @ name) = (name, None)"
    using drop [of "[]"] n by (simp add: split_flag_def)
  have all: "\<forall>c \<in> set name. c \<noteq> CHR ''=''" using n by blast
  show "split_flag (replicate (Suc n) CHR ''-'' @ name @ ''='' @ v) = (name, Some v)"
    using drop [of "''='' @ v"] all
    by (simp add: split_flag_def Let_def takeWhile_append2 dropWhile_append2)
qed

lemma is_flag_dashes:
  assumes "ownedFlags name = Some k"
  shows "is_flag (replicate (Suc n) CHR ''-'' @ name @ xs)" and "replicate (Suc n) CHR ''-'' @ name @ xs \<noteq> ''--''"
  using owned_name [OF assms]
  by (auto simp: is_flag_def HasPrefix_def Cons_eq_append_conv append_eq_Cons_conv replicate_append_same neq_Nil_conv)

text \<open>A flag does not touch the command, and the loop consumes an item as its specification says.\<close>

lemma set_flag_frame [simp]:
  "ro_command (set_flag n v opts) = ro_command opts" "ro_args (set_flag n v opts) = ro_args opts"
  "set_flag n v (opts\<lparr>ro_command := c\<rparr>) = (set_flag n v opts)\<lparr>ro_command := c\<rparr>"
  "set_flag n v (opts\<lparr>ro_args := as\<rparr>) = (set_flag n v opts)\<lparr>ro_args := as\<rparr>"
  by (simp_all add: set_flag_def)

lemma setBool_flag_frame [simp]:
  "ro_command (setBool_flag n b opts) = ro_command opts" "ro_args (setBool_flag n b opts) = ro_args opts"
  "setBool_flag n b (opts\<lparr>ro_command := c\<rparr>) = (setBool_flag n b opts)\<lparr>ro_command := c\<rparr>"
  "setBool_flag n b (opts\<lparr>ro_args := as\<rparr>) = (setBool_flag n b opts)\<lparr>ro_args := as\<rparr>"
  by (simp_all add: setBool_flag_def)

lemma flag_updates_frame [simp]:
  "ro_command (flag_updates is opts) = ro_command opts" "ro_args (flag_updates is opts) = ro_args opts"
  "flag_updates is (opts\<lparr>ro_command := c\<rparr>) = (flag_updates is opts)\<lparr>ro_command := c\<rparr>"
  "flag_updates is (opts\<lparr>ro_args := as\<rparr>) = (flag_updates is opts)\<lparr>ro_args := as\<rparr>"
  by (induction "is" opts rule: flag_updates.induct) simp_all

inductive_cases spelled_wordE: "spelled (Word w) ts"

lemma parse_value:
  assumes "spelled (Value n v) ts"
  shows "parse_loop (ts @ args) opts = parse_loop args (set_flag n v opts)"
  using assms
proof cases
  case (value_next k d)
  then show ?thesis
    using is_flag_dashes [of n k d "[]"] split_flag_dashes [of n k d] by (cases k) (simp_all add: Let_def)
next
  case (value_eq k d)
  then show ?thesis
    using is_flag_dashes [of n k d "''='' @ v"] split_flag_dashes [of n k d] by (cases k) (simp_all add: Let_def)
qed

lemma parse_switch:
  assumes "spelled (Switch n b) ts"
  shows "parse_loop (ts @ args) opts = parse_loop args (setBool_flag n b opts)"
  using assms
proof cases
  case (switch_on d)
  then show ?thesis
    using is_flag_dashes [of n kindBool d "[]"] split_flag_dashes [of n kindBool d] by (simp add: Let_def)
next
  case (switch_eq v d)
  then show ?thesis
    using is_flag_dashes [of n kindBool d "''='' @ v"] split_flag_dashes [of n kindBool d] by (simp add: Let_def)
qed

lemma parse_word:
  assumes "spelled (Word w) ts" and "ro_command opts = [] \<longrightarrow> \<not> is_flag w"
  shows "parse_loop (ts @ args) opts = parse_loop args (take_word w opts)"
  using assms by (cases rule: spelled_wordE) (auto simp: take_word_def Let_def split: prod.split)

lemma parse_items:
  assumes "list_all2 spelled is tss" and "ro_command opts \<noteq> []"
  shows "parse_loop (concat tss @ args) opts = parse_loop args ((flag_updates is opts)\<lparr>ro_args := ro_args opts @ words is\<rparr>)"
  using assms
proof (induction "is" tss arbitrary: opts rule: list_all2_induct)
  case Nil
  then show ?case by simp
next
  case (Cons i "is" ts tss)
  show ?case
  proof (cases i)
    case (Word w)
    with Cons have "parse_loop (concat (ts # tss) @ args) opts = parse_loop (concat tss @ args) (take_word w opts)"
      by (simp add: parse_word)
    with Cons.IH [of "take_word w opts"] Cons.prems Word show ?thesis by (simp add: take_word_def)
  next
    case (Value n v)
    with Cons have "parse_loop (concat (ts # tss) @ args) opts = parse_loop (concat tss @ args) (set_flag n v opts)"
      by (simp add: parse_value)
    with Cons.IH [of "set_flag n v opts"] Cons.prems Value show ?thesis by simp
  next
    case (Switch n b)
    with Cons have "parse_loop (concat (ts # tss) @ args) opts = parse_loop (concat tss @ args) (setBool_flag n b opts)"
      by (simp add: parse_switch)
    with Cons.IH [of "setBool_flag n b opts"] Cons.prems Switch show ?thesis by simp
  qed
qed

lemma parse_command:
  assumes "list_all2 spelled is tss" and "words is = cmd # as" and "cmd \<noteq> []" and "\<not> is_flag cmd"
    and "ro_command opts = []" and "ro_args opts = []"
  shows "parse_loop (concat tss @ args) opts = parse_loop args ((flag_updates is opts)\<lparr>ro_command := cmd, ro_args := as\<rparr>)"
  using assms
proof (induction "is" tss arbitrary: opts rule: list_all2_induct)
  case Nil
  then show ?case by simp
next
  case (Cons i "is" ts tss)
  show ?case
  proof (cases i)
    case (Word w)
    then have "parse_loop (concat (ts # tss) @ args) opts = parse_loop (concat tss @ args) (opts\<lparr>ro_command := cmd\<rparr>)"
      using Cons.hyps Cons.prems parse_word [of w ts opts "concat tss @ args"] by (simp add: take_word_def)
    then show ?thesis
      using parse_items [OF Cons.hyps(2), of "opts\<lparr>ro_command := cmd\<rparr>" args] Cons.prems Word by simp
  next
    case (Value n v)
    with Cons have "parse_loop (concat (ts # tss) @ args) opts = parse_loop (concat tss @ args) (set_flag n v opts)"
      by (simp add: parse_value)
    with Cons.IH [of "set_flag n v opts"] Cons.prems Value show ?thesis by simp
  next
    case (Switch n b)
    with Cons have "parse_loop (concat (ts # tss) @ args) opts = parse_loop (concat tss @ args) (setBool_flag n b opts)"
      by (simp add: parse_switch)
    with Cons.IH [of "setBool_flag n b opts"] Cons.prems Switch show ?thesis by simp
  qed
qed

text \<open>
  C21: The command line means what its words and flags say: when the tokens spell a sequence of words and flags
  whose first word is a command, optionally followed by \<open>--\<close> and arguments, \<open>parseRunArgs\<close> takes the first word
  as the command, gives it the other words and everything behind \<open>--\<close> verbatim, and applies the flags in their
  order, wherever they stand between the words and however they are spelled.
\<close>

theorem run_args_spec:
  assumes "list_all2 spelled is tss" and "words is = cmd # as" and "cmd \<noteq> []" and "\<not> is_flag cmd"
  shows "parseRunArgs goos sock (concat tss @ ends rest) =
           check_opts ((flag_updates is (default_opts goos sock))
             \<lparr>ro_command := cmd, ro_args := as @ (case rest of None \<Rightarrow> [] | Some r \<Rightarrow> r)\<rparr>)"
proof -
  have "parse_loop (concat tss @ ends rest) (default_opts goos sock) =
      parse_loop (ends rest) ((flag_updates is (default_opts goos sock))\<lparr>ro_command := cmd, ro_args := as\<rparr>)"
    by (rule parse_command [OF assms]) (simp_all add: default_opts_def)
  then show ?thesis
    using assms(3) by (cases rest) (simp_all add: parseRunArgs_def take_rest_def)
qed

theorem run_args_spec_witness:
  "parseRunArgs ''linux'' ''/s'' [''--workdir=/w'', ''vi'', ''-code'', ''--x'', ''-p'', ''--'', ''--code''] =
     check_opts ((flag_updates [Value ''workdir'' ''/w'', Word ''vi'', Value ''code'' ''--x'', Word ''-p'']
       (default_opts ''linux'' ''/s''))\<lparr>ro_command := ''vi'', ro_args := [''-p'', ''--code'']\<rparr>)"
proof -
  have "spelled (Value ''workdir'' ''/w'') [''--workdir=/w'']"
    using spelled.value_eq [of "''workdir''" kindString "''/w''" 1] by (simp add: ownedFlags_def)
  moreover have "spelled (Value ''code'' ''--x'') [''-code'', ''--x'']"
    using spelled.value_next [of "''code''" kindString "''--x''" 0] by (simp add: ownedFlags_def)
  moreover have "spelled (Word ''vi'') [''vi'']" "spelled (Word ''-p'') [''-p'']"
    by (auto intro!: spelled.word simp: ownedFlags_def split_flag_def is_flag_def HasPrefix_def)
  ultimately show ?thesis
    using run_args_spec [of "[Value ''workdir'' ''/w'', Word ''vi'', Value ''code'' ''--x'', Word ''-p'']"
      "[[''--workdir=/w''], [''vi''], [''-code'', ''--x''], [''-p'']]" "''vi''" "[''-p'']" "''linux''" "''/s''" "Some [''--code'']"]
    by (simp add: is_flag_def HasPrefix_def)
qed

text \<open>
  When \<open>parseRunArgs\<close> succeeds there is a command, or only the filesystem is served, and exactly one of the
  four transports is given.
\<close>

theorem run_args_one_transport:
  assumes "parseRunArgs goos sock args = Inr opts"
  shows "(ro_command opts \<noteq> [] \<or> ro_serveFSOnly opts) \<and>
         length (filter (\<lambda>s. s \<noteq> []) [ro_code opts, ro_peer opts, ro_sock opts, ro_via opts]) = 1"
  using assms
  by (auto simp: parseRunArgs_def check_opts_def btoi_def Let_def split: sum.splits if_splits)

theorem run_args_one_transport_witness:
  "\<exists>opts. parseRunArgs ''linux'' ''/s'' [''vi'', ''--sock=/x''] = Inr opts \<and> ro_command opts = ''vi'' \<and>
     length (filter (\<lambda>s. s \<noteq> []) [ro_code opts, ro_peer opts, ro_sock opts, ro_via opts]) = 1"
proof -
  have "parseRunArgs ''linux'' ''/s'' [''vi'', ''--sock=/x''] =
      Inr ((default_opts ''linux'' ''/s'')\<lparr>ro_command := ''vi'', ro_sock := ''/x''\<rparr>)"
    by (simp add: parseRunArgs_def is_flag_def HasPrefix_def split_flag_def ownedFlags_def set_flag_def take_word_def
        check_opts_def btoi_def default_opts_def)
  then show ?thesis
    by (intro exI conjI) (assumption, simp, rule conjunct2 [OF run_args_one_transport])
qed

end
