(* ===== verification/Launch.thy ===== *)
theory Launch
  imports ExecService
begin

section \<open>The launch of the target (internal/adapter/launch.go)\<close>

text \<open>
  \<open>BuildCommand\<close> assembles the command that runs the target under the interceptor. \<open>goos\<close> is
  \<open>runtime.GOOS\<close> and \<open>environ\<close> is \<open>os.Environ()\<close>. The command keeps the program, the full argument vector
  with the program as its first element as \<open>exec.Command\<close> makes it, the environment and the directory; the
  standard streams are always those of the launcher.
\<close>

definition EnvAdapterSock :: string where "EnvAdapterSock = ''RCC_ADAPTER_SOCK''"
definition EnvExecutorSock :: string where "EnvExecutorSock = ''RCC_EXECUTOR_SOCK''"
definition EnvSpawnProxy :: string where "EnvSpawnProxy = ''RCC_SPAWN_PROXY''"
definition EnvRemotePrefix :: string where "EnvRemotePrefix = ''RCC_REMOTE_PREFIXES''"
definition EnvSpawnSentinel :: string where "EnvSpawnSentinel = ''RCC_SPAWN_SENTINEL''"
definition EnvTargetPath :: string where "EnvTargetPath = ''RCC_TARGET_PATH''"
definition EnvDylib :: string where "EnvDylib = ''DYLD_INSERT_LIBRARIES''"

lemmas env_names = EnvAdapterSock_def EnvExecutorSock_def EnvSpawnProxy_def EnvRemotePrefix_def
  EnvSpawnSentinel_def EnvTargetPath_def EnvDylib_def

record LaunchConfig =
  lc_TargetPath :: string
  lc_Args :: "string list"
  lc_WorkDir :: string
  lc_AdapterSock :: string
  lc_ExecutorSock :: string
  lc_SpawnProxyPath :: string
  lc_RemotePrefixes :: "string list"
  lc_SpawnSentinel :: string
  lc_DylibPath :: string
  lc_SupervisorPath :: string
  lc_ExtraEnv :: "string list"

record launch_cmd =
  la_Path :: string
  la_Args :: "string list"
  la_Env :: "string list"
  la_Dir :: string

definition Command :: "string \<Rightarrow> string list \<Rightarrow> launch_cmd" where
  "Command name args = \<lparr>la_Path = name, la_Args = name # args, la_Env = [], la_Dir = []\<rparr>"

datatype launch_error = TargetPathRequired | DylibPathRequired | SupervisorPathRequired | UnsupportedPlatform string

definition BuildCommand :: "string \<Rightarrow> string list \<Rightarrow> LaunchConfig \<Rightarrow> launch_error + launch_cmd" where
  "BuildCommand goos environ c =
     (if lc_TargetPath c = [] then Inl TargetPathRequired
      else
        let env = environ @
              [EnvAdapterSock @ ''='' @ lc_AdapterSock c,
               EnvExecutorSock @ ''='' @ lc_ExecutorSock c,
               EnvSpawnProxy @ ''='' @ lc_SpawnProxyPath c,
               EnvRemotePrefix @ ''='' @ Join (lc_RemotePrefixes c) '':'',
               EnvSpawnSentinel @ ''='' @ lc_SpawnSentinel c,
               EnvTargetPath @ ''='' @ lc_TargetPath c];
            env = env @ lc_ExtraEnv c
        in case
          (if goos = ''darwin'' then
             (if lc_DylibPath c = [] then Inl DylibPathRequired
              else Inr (Command (lc_TargetPath c) (lc_Args c), env @ [EnvDylib @ ''='' @ lc_DylibPath c]))
           else if goos = ''linux'' then
             (if lc_SupervisorPath c = [] then Inl SupervisorPathRequired
              else Inr (Command (lc_SupervisorPath c) ([lc_TargetPath c] @ lc_Args c), env))
           else Inl (UnsupportedPlatform goos)) of
          Inl e \<Rightarrow> Inl e
        | Inr (cmd, env) \<Rightarrow> Inr (cmd\<lparr>la_Env := env, la_Dir := lc_WorkDir c\<rparr>))"

subsection \<open>The environment of the target\<close>

text \<open>
  What a process finds under a name in the environment it is started with: \<open>os/exec\<close> keeps the last entry of
  a name.
\<close>

definition env_get :: "string list \<Rightarrow> string \<Rightarrow> string option" where
  "env_get env name =
     (case find (\<lambda>kv. HasPrefix kv (name @ ''='')) (rev env) of
        None \<Rightarrow> None | Some kv \<Rightarrow> Some (drop (length name + 1) kv))"

definition entry :: "string \<times> string \<Rightarrow> string" where
  "entry kv = fst kv @ ''='' @ snd kv"

lemma HasPrefix_entry:
  assumes "CHR ''='' \<notin> set (fst kv)" and "CHR ''='' \<notin> set name"
  shows "HasPrefix (entry kv) (name @ ''='') \<longleftrightarrow> fst kv = name"
proof -
  have "takeWhile (\<lambda>c. c \<noteq> CHR ''='') (n @ ''='' @ x) = n" if "CHR ''='' \<notin> set n" for n x
    using that by (subst takeWhile_append2) auto
  then show ?thesis
    using assms unfolding HasPrefix_iff entry_def by (metis append_assoc)
qed

lemma env_get_append:
  "env_get (xs @ ys) name = (case env_get ys name of None \<Rightarrow> env_get xs name | Some v \<Rightarrow> Some v)"
  by (induction ys rule: rev_induct) (auto simp: env_get_def simp flip: append_assoc split: option.splits)

lemma env_get_entries:
  assumes "\<forall>kv \<in> set kvs. CHR ''='' \<notin> set (fst kv)" and "CHR ''='' \<notin> set name"
  shows "env_get (map entry kvs) name = map_of (rev kvs) name"
  using assms(1)
proof (induction kvs rule: rev_induct)
  case Nil
  then show ?case by (simp add: env_get_def)
next
  case (snoc kv kvs)
  then have "env_get [entry kv] name = (if fst kv = name then Some (snd kv) else None)"
    using HasPrefix_entry [of kv name] assms(2) by (auto simp: env_get_def entry_def)
  with snoc show ?case
    by (cases kv) (auto simp: env_get_append)
qed

text \<open>The variables \<open>BuildCommand\<close> adds, and the split of its result.\<close>

definition added_vars :: "LaunchConfig \<Rightarrow> (string \<times> string) list" where
  "added_vars c =
     [(''RCC_ADAPTER_SOCK'', lc_AdapterSock c), (''RCC_EXECUTOR_SOCK'', lc_ExecutorSock c),
      (''RCC_SPAWN_PROXY'', lc_SpawnProxyPath c), (''RCC_REMOTE_PREFIXES'', Join (lc_RemotePrefixes c) '':''),
      (''RCC_SPAWN_SENTINEL'', lc_SpawnSentinel c), (''RCC_TARGET_PATH'', lc_TargetPath c)]"

definition dylib_vars :: "string \<Rightarrow> LaunchConfig \<Rightarrow> (string \<times> string) list" where
  "dylib_vars goos c = (if goos = ''darwin'' then [(''DYLD_INSERT_LIBRARIES'', lc_DylibPath c)] else [])"

lemma BuildCommand_env:
  assumes "BuildCommand goos environ c = Inr cmd"
  shows "la_Env cmd = environ @ map entry (added_vars c) @ lc_ExtraEnv c @ map entry (dylib_vars goos c)"
  using assms
  by (auto simp: BuildCommand_def added_vars_def dylib_vars_def entry_def env_names Let_def split: if_splits)

lemma added_injected:
  "list_all injected (map entry (added_vars c))" "list_all injected (map entry (dylib_vars goos c))"
  by (simp_all add: added_vars_def dylib_vars_def entry_def injected_def HasPrefix_def)

lemma build_env:
  assumes "BuildCommand goos environ c = Inr cmd" and "lc_ExtraEnv c = []" and "CHR ''='' \<notin> set name"
  shows "env_get (la_Env cmd) name =
    (if name = ''RCC_ADAPTER_SOCK'' then Some (lc_AdapterSock c)
     else if name = ''RCC_EXECUTOR_SOCK'' then Some (lc_ExecutorSock c)
     else if name = ''RCC_SPAWN_PROXY'' then Some (lc_SpawnProxyPath c)
     else if name = ''RCC_REMOTE_PREFIXES'' then Some (Join (lc_RemotePrefixes c) '':'')
     else if name = ''RCC_SPAWN_SENTINEL'' then Some (lc_SpawnSentinel c)
     else if name = ''RCC_TARGET_PATH'' then Some (lc_TargetPath c)
     else if name = ''DYLD_INSERT_LIBRARIES'' \<and> goos = ''darwin'' then Some (lc_DylibPath c)
     else env_get environ name)"
proof -
  have "\<forall>kv \<in> set (added_vars c @ dylib_vars goos c). CHR ''='' \<notin> set (fst kv)"
    by (simp add: added_vars_def dylib_vars_def)
  note get = env_get_entries [OF this assms(3)]
  have "la_Env cmd = environ @ map entry (added_vars c @ dylib_vars goos c)"
    using BuildCommand_env [OF assms(1)] assms(2) by simp
  then show ?thesis
    unfolding env_get_append get \<open>la_Env cmd = _\<close> by (simp add: added_vars_def dylib_vars_def)
qed

text \<open>
  The target finds this run's configuration in its environment, whatever variables the launcher itself was
  started with: its sockets, its proxy, the routed prefixes, the sentinel, its own path and on macOS the
  library to load; every variable of another name it has as the launcher does.
\<close>

theorem target_configuration:
  assumes "BuildCommand goos environ c = Inr cmd" and "lc_ExtraEnv c = []" and "CHR ''='' \<notin> set name"
  shows "env_get (la_Env cmd) name =
    (if name = ''RCC_ADAPTER_SOCK'' then Some (lc_AdapterSock c)
     else if name = ''RCC_EXECUTOR_SOCK'' then Some (lc_ExecutorSock c)
     else if name = ''RCC_SPAWN_PROXY'' then Some (lc_SpawnProxyPath c)
     else if name = ''RCC_REMOTE_PREFIXES'' then Some (Join (lc_RemotePrefixes c) '':'')
     else if name = ''RCC_SPAWN_SENTINEL'' then Some (lc_SpawnSentinel c)
     else if name = ''RCC_TARGET_PATH'' then Some (lc_TargetPath c)
     else if name = ''DYLD_INSERT_LIBRARIES'' \<and> goos = ''darwin'' then Some (lc_DylibPath c)
     else env_get environ name)"
  by (rule build_env [OF assms])

definition sample_config :: LaunchConfig where
  "sample_config = \<lparr>lc_TargetPath = ''/bin/vi'', lc_Args = [''x''], lc_WorkDir = ''/w'', lc_AdapterSock = ''/s'',
     lc_ExecutorSock = ''/s.exec'', lc_SpawnProxyPath = ''/rca'', lc_RemotePrefixes = [''/w'', ''/v''],
     lc_SpawnSentinel = ''M'', lc_DylibPath = [], lc_SupervisorPath = ''/sup'', lc_ExtraEnv = []\<rparr>"

lemma sample_build:
  "\<exists>cmd. BuildCommand ''linux'' [''RCC_ADAPTER_SOCK=/old'', ''HOME=/h''] sample_config = Inr cmd"
  by (simp add: BuildCommand_def sample_config_def Let_def)

theorem target_configuration_witness:
  "\<exists>cmd. BuildCommand ''linux'' [''RCC_ADAPTER_SOCK=/old'', ''HOME=/h''] sample_config = Inr cmd \<and>
     env_get (la_Env cmd) ''RCC_ADAPTER_SOCK'' = Some ''/s'' \<and> env_get (la_Env cmd) ''HOME'' = Some ''/h'' \<and>
     env_get (la_Env cmd) ''RCC_REMOTE_PREFIXES'' = Some ''/w:/v''"
proof -
  obtain cmd where cmd: "BuildCommand ''linux'' [''RCC_ADAPTER_SOCK=/old'', ''HOME=/h''] sample_config = Inr cmd"
    using sample_build by blast
  have extra: "lc_ExtraEnv sample_config = []"
    by (simp add: sample_config_def)
  note get = target_configuration [OF cmd extra]
  show ?thesis
    using cmd get [of "''RCC_ADAPTER_SOCK''"] get [of "''HOME''"] get [of "''RCC_REMOTE_PREFIXES''"]
    by (intro exI [of _ cmd]) (simp add: sample_config_def env_get_def HasPrefix_def)
qed

text \<open>
  A subprocess of the target that runs on the executor gets the launcher's environment: of the variables
  the target was started with exactly the injected ones are gone, whatever the launch added, and the rest,
  \<open>PATH\<close> entries apart, reach the child unchanged and in order.
\<close>

theorem routed_child_environment:
  assumes "BuildCommand goos environ c = Inr cmd" and "lc_ExtraEnv c = []" and "sr_Env req = la_Env cmd"
  shows "others (cm_Env (exec_command h rg req)) =
           filter (\<lambda>kv. \<not> injected kv) (others environ) @ [''RCC_EXECUTOR=1'']"
proof -
  have gone: "filter (\<lambda>kv. \<not> injected kv) (others kvs) = []" if "list_all injected kvs" for kvs
    using that by (auto simp: others_def filter_empty_conv list_all_iff)
  have env: "la_Env cmd = environ @ map entry (added_vars c) @ map entry (dylib_vars goos c)"
    using BuildCommand_env [OF assms(1)] assms(2) by simp
  have "added_vars c \<noteq> []"
    by (simp add: added_vars_def)
  then show ?thesis
    using exec_env [of req h rg] gone [OF added_injected(1)] gone [OF added_injected(2)] assms(3)
    by (simp add: Let_def env others_append)
qed

theorem routed_child_environment_witness:
  "\<exists>cmd. BuildCommand ''linux'' [''RCC_ADAPTER_SOCK=/old'', ''HOME=/h''] sample_config = Inr cmd \<and>
     others (cm_Env (exec_command \<lparr>h_stat = (\<lambda>p. True), h_lookPath = (\<lambda>n. None), h_environ = [],
       h_stdin = (\<lambda>c. Drains)\<rparr> []
       \<lparr>sr_Path = ''/bin/ls'', sr_Argv = [''ls''], sr_Cwd = ''/w'', sr_Env = la_Env cmd\<rparr>)) = [''HOME=/h'', ''RCC_EXECUTOR=1'']"
proof -
  obtain cmd where cmd: "BuildCommand ''linux'' [''RCC_ADAPTER_SOCK=/old'', ''HOME=/h''] sample_config = Inr cmd"
    using sample_build by blast
  have extra: "lc_ExtraEnv sample_config = []"
    by (simp add: sample_config_def)
  show ?thesis
    using cmd routed_child_environment [OF cmd extra, of "\<lparr>sr_Path = ''/bin/ls'', sr_Argv = [''ls''], sr_Cwd = ''/w'', sr_Env = la_Env cmd\<rparr>"]
    by (intro exI [of _ cmd]) (simp add: others_def CutPrefix_def HasPrefix_def injected_def)
qed

end
