(* ===== verification/NsRun.thy ===== *)
theory NsRun
  imports GoFlag Launch
begin

section \<open>The command line of rca and the private mount namespace (main.go, run_fuse_linux.go, nsrun_linux.go)\<close>

text \<open>
  On Linux the launcher runs the target through its own executable twice: \<open>wrapMountNamespace\<close> prepends
  \<open>rca _nsrun\<close> to the command, the outer stage runs \<open>rca _nsrun -inner\<close> in a new mount namespace, and the
  inner stage mounts every routed directory, runs the target and tears the mounts down. Three processes thus
  pass one configuration along in their argument vectors; \<open>dispatch\<close> and \<open>cmdNsRun\<close> say which call a vector
  leads to. The inner stage acts on a kernel of any kind, given by the record \<open>ns_os\<close>.
\<close>

datatype subcommand =
    Usage
  | CmdServe "string list"
  | CmdRelay "string list"
  | CmdSpawnProxy "string list"
  | CmdFuse "string list"
  | CmdNsRun "string list"
  | Help
  | Version
  | CmdRun "string list"

definition dispatch :: "string list \<Rightarrow> subcommand" where
  "dispatch args =
     (if length args = 0 then Usage
      else if args ! 0 = ''serve'' then CmdServe (drop 1 args)
      else if args ! 0 = ''relay'' then CmdRelay (drop 1 args)
      else if args ! 0 = ''_spawn-proxy'' then CmdSpawnProxy (drop 1 args)
      else if args ! 0 = ''_fuse'' then CmdFuse (drop 1 args)
      else if args ! 0 = ''_nsrun'' then CmdNsRun (drop 1 args)
      else if args ! 0 \<in> set [''help'', ''-h'', ''--help''] then Help
      else if args ! 0 \<in> set [''version'', ''--version''] then Version
      else CmdRun args)"

definition rca_exitCode :: "wait_error option \<Rightarrow> i32" where
  "rca_exitCode err =
     (case err of
        None \<Rightarrow> 0
      | Some (ExitError st) \<Rightarrow> state_code st
      | Some OtherWaitError \<Rightarrow> 1)"

subsection \<open>The wrapped command\<close>

text \<open>\<open>self\<close> is \<open>os.Executable()\<close>. Off Linux the command is kept.\<close>

definition wrapMountNamespace ::
    "string \<Rightarrow> string option \<Rightarrow> launch_cmd \<Rightarrow> string \<Rightarrow> string \<Rightarrow> string list \<Rightarrow> launch_cmd option" where
  "wrapMountNamespace goos self cmd adapterSock workdir remotePrefixes =
     (if goos \<noteq> ''linux'' then Some cmd
      else case self of
        None \<Rightarrow> None
      | Some self \<Rightarrow>
          let args = [''_nsrun'', ''-adapter-sock'', adapterSock, ''-workdir'', workdir];
              args = args @ concat (map (\<lambda>p. [''-mount'', p]) remotePrefixes);
              args = args @ [''--''];
              args = args @ la_Args cmd
          in Some ((Command self args)\<lparr>la_Env := la_Env cmd\<rparr>))"

lemma wrap_env: "wrapMountNamespace goos self cmd sock workdir pres = Some wrapped \<Longrightarrow> la_Env wrapped = la_Env cmd"
  by (auto simp: wrapMountNamespace_def Let_def split: if_splits option.splits)

text \<open>The flags of \<open>_nsrun\<close>; a parse error ends the process with 2, a request for help with 0.\<close>

definition nsrun_formal :: "string \<Rightarrow> bool option" where
  "nsrun_formal = map_of [(''adapter-sock'', False), (''workdir'', False), (''inner'', True), (''mount'', False)]"

datatype nsrun_call = NsExit nat | NsOuter "string list" | NsInner string string "string list" "string list"

definition cmdNsRun :: "string list \<Rightarrow> nsrun_call" where
  "cmdNsRun args =
     (case parse_flags nsrun_formal args [] of
        Inl FlagHelp \<Rightarrow> NsExit 0
      | Inl _ \<Rightarrow> NsExit 2
      | Inr (vs, target) \<Rightarrow>
          let adapterSock = flag_string vs ''adapter-sock'' [];
              workdir = flag_string vs ''workdir'' [];
              inner = flag_bool vs ''inner'' False;
              mounts = flag_list vs ''mount''
          in if adapterSock = [] \<or> length target = 0 then NsExit 2
             else if \<not> inner then NsOuter args
             else NsInner adapterSock workdir mounts target)"

subsection \<open>The outer stage\<close>

text \<open>
  The process the outer stage starts: its command, and the namespaces, identity mappings and ambient
  capabilities it starts with.
\<close>

record ns_process =
  np_cmd :: launch_cmd
  np_newns :: bool
  np_newuser :: bool
  np_uidMap :: "(nat \<times> nat \<times> nat) list"
  np_gidMap :: "(nat \<times> nat \<times> nat) list"
  np_ambient :: "nat list"

definition outer_process :: "string \<Rightarrow> nat \<Rightarrow> nat \<Rightarrow> string list \<Rightarrow> ns_process" where
  "outer_process self uid gid args =
     (let cmd = Command self ([''_nsrun'', ''-inner''] @ args);
          p = \<lparr>np_cmd = cmd, np_newns = True, np_newuser = False, np_uidMap = [], np_gidMap = [], np_ambient = []\<rparr>
      in if uid \<noteq> 0
         then p\<lparr>np_newuser := True, np_uidMap := [(uid, uid, 1)], np_gidMap := [(gid, gid, 1)], np_ambient := [21]\<rparr>
         else p)"

text \<open>\<open>start\<close> starts a process and \<open>wait\<close> is the error of its \<open>Wait\<close>.\<close>

definition nsRunOuter ::
    "string option \<Rightarrow> nat \<Rightarrow> nat \<Rightarrow> (ns_process \<Rightarrow> 'w \<Rightarrow> 'p option \<times> 'w) \<Rightarrow> ('p \<Rightarrow> 'w \<Rightarrow> wait_error option \<times> 'w) \<Rightarrow>
     string list \<Rightarrow> 'w \<Rightarrow> i32 \<times> 'w" where
  "nsRunOuter self uid gid start wait args w =
     (case self of
        None \<Rightarrow> (1, w)
      | Some self \<Rightarrow>
          (case start (outer_process self uid gid args) w of
             (None, w) \<Rightarrow> (1, w)
           | (Some p, w) \<Rightarrow> (let (err, w) = wait p w in (rca_exitCode err, w))))"

subsection \<open>The inner stage\<close>

record ('s, 'p, 'w) ns_os =
  ns_NotExist :: "string \<Rightarrow> 'w \<Rightarrow> bool \<times> 'w"
  ns_MkdirAll :: "string \<Rightarrow> 'w \<Rightarrow> bool \<times> 'w"
  ns_Mount :: "string \<Rightarrow> 'w \<Rightarrow> 's option \<times> 'w"
  ns_Unmount :: "'s \<Rightarrow> 'w \<Rightarrow> 'w"
  ns_Remove :: "string \<Rightarrow> 'w \<Rightarrow> 'w"
  ns_Chdir :: "string \<Rightarrow> 'w \<Rightarrow> 'w"
  ns_ClearAmbient :: "'w \<Rightarrow> bool \<times> 'w"
  ns_Start :: "string list \<Rightarrow> string \<Rightarrow> 'w \<Rightarrow> 'p option \<times> 'w"
  ns_Wait :: "'p \<Rightarrow> 'w \<Rightarrow> wait_error option \<times> 'w"

definition unmountAll :: "('s, 'p, 'w) ns_os \<Rightarrow> 's list \<Rightarrow> string list \<Rightarrow> 'w \<Rightarrow> 'w" where
  "unmountAll sys servers created w = fold (ns_Remove sys) created (fold (ns_Unmount sys) servers w)"

text \<open>The loop over the directories: whether it reached the end, and the servers and directories made.\<close>

fun mount_loop ::
    "('s, 'p, 'w) ns_os \<Rightarrow> string list \<Rightarrow> 's list \<Rightarrow> string list \<Rightarrow> 'w \<Rightarrow> bool \<times> 's list \<times> string list \<times> 'w" where
  "mount_loop sys [] servers created w = (True, servers, created, w)"
| "mount_loop sys (dir # mounts) servers created w =
     (let (missing, w) = ns_NotExist sys dir w;
          (made, w) = (if missing then ns_MkdirAll sys dir w else (True, w))
      in if \<not> made then (False, servers, created, w)
         else
           let created = (if missing then created @ [dir] else created)
           in case ns_Mount sys dir w of
             (None, w) \<Rightarrow> (False, servers, created, w)
           | (Some srv, w) \<Rightarrow> mount_loop sys mounts (servers @ [srv]) created w)"

definition startWithoutAmbientCaps ::
    "('s, 'p, 'w) ns_os \<Rightarrow> string list \<Rightarrow> string \<Rightarrow> 'w \<Rightarrow> 'p option \<times> 'w" where
  "startWithoutAmbientCaps sys target workdir w =
     (case ns_ClearAmbient sys w of
        (False, w) \<Rightarrow> (None, w)
      | (True, w) \<Rightarrow> ns_Start sys target workdir w)"

definition nsRunInner ::
    "('s, 'p, 'w) ns_os \<Rightarrow> string \<Rightarrow> string list \<Rightarrow> string list \<Rightarrow> 'w \<Rightarrow> i32 \<times> 'w" where
  "nsRunInner sys workdir mounts target w =
     (case mount_loop sys mounts [] [] w of
        (False, servers, created, w) \<Rightarrow> (1, unmountAll sys servers created w)
      | (True, servers, created, w) \<Rightarrow>
          let w = ns_Chdir sys ''/'' w in
          case startWithoutAmbientCaps sys target workdir w of
            (None, w) \<Rightarrow> (1, unmountAll sys servers created w)
          | (Some p, w) \<Rightarrow>
              let (err, w) = ns_Wait sys p w; code = rca_exitCode err
              in (code, unmountAll sys servers created w))"

subsection \<open>One configuration through three processes\<close>

lemma nsrun_names:
  "plain_name ''adapter-sock''" "plain_name ''workdir''" "plain_name ''inner''" "plain_name ''mount''"
  "nsrun_formal ''adapter-sock'' = Some False" "nsrun_formal ''workdir'' = Some False"
  "nsrun_formal ''inner'' = Some True" "nsrun_formal ''mount'' = Some False"
  by (simp_all add: plain_name_def nsrun_formal_def)

lemma outer_argv: "tl (la_Args (np_cmd (outer_process self uid gid args))) = [''_nsrun'', ''-inner''] @ args"
  by (simp add: outer_process_def Command_def Let_def)

definition nsrun_args :: "string \<Rightarrow> string \<Rightarrow> string list \<Rightarrow> string list \<Rightarrow> string list" where
  "nsrun_args sock workdir pres target =
     [''-'' @ ''adapter-sock'', sock, ''-'' @ ''workdir'', workdir] @
     concat (map (\<lambda>p. [''-'' @ ''mount'', p]) pres) @ ''--'' # target"

lemma parse_nsrun_args:
  "parse_flags nsrun_formal (nsrun_args sock workdir pres target) vs =
     Inr (vs @ [(''adapter-sock'', sock), (''workdir'', workdir)] @ map (Pair ''mount'') pres, target)"
  unfolding nsrun_args_def append_Cons append_Nil(1)
  using parse_flags_value [of "''adapter-sock''" nsrun_formal, OF nsrun_names(1,5)]
    parse_flags_value [of "''workdir''" nsrun_formal, OF nsrun_names(2,6)]
    parse_flags_repeated [of "''mount''" nsrun_formal, OF nsrun_names(4,8)] parse_flags_end
  by (simp del: parse_flags.simps)

lemma nsrun_values:
  fixes pres :: "string list"
  assumes "vs = us @ [(''adapter-sock'', sock), (''workdir'', workdir)] @ map (Pair ''mount'') pres"
    and "us = [] \<or> us = [(''inner'', ''true'')]"
  shows "flag_string vs ''adapter-sock'' [] = sock" "flag_string vs ''workdir'' [] = workdir"
    "flag_list vs ''mount'' = pres" "flag_bool vs ''inner'' False \<longleftrightarrow> us \<noteq> []"
proof -
  have "map_of (rev (map (Pair ''mount'') pres)) k = None" if "k \<noteq> ''mount''" for k
    using that by (auto simp: map_of_eq_None_iff)
  then show "flag_string vs ''adapter-sock'' [] = sock" "flag_string vs ''workdir'' [] = workdir"
    "flag_bool vs ''inner'' False \<longleftrightarrow> us \<noteq> []"
    using assms by (auto simp: flag_string_def flag_bool_def map_add_def)
  have "filter (\<lambda>(n, v). n = ''mount'') (map (Pair ''mount'') pres) = map (Pair ''mount'') pres"
    by (simp add: filter_id_conv)
  then show "flag_list vs ''mount'' = pres"
    using assms by (auto simp: flag_list_def comp_def)
qed

lemma namespace_argv:
  assumes "wrapMountNamespace ''linux'' (Some self) cmd sock workdir pres = Some wrapped"
    and "sock \<noteq> []" and "la_Args cmd \<noteq> []"
  shows "\<exists>args. dispatch (tl (la_Args wrapped)) = CmdNsRun args \<and> cmdNsRun args = NsOuter args \<and>
    (\<exists>args'. dispatch (tl (la_Args (np_cmd (outer_process self uid gid args)))) = CmdNsRun args' \<and>
       cmdNsRun args' = NsInner sock workdir pres (la_Args cmd))"
proof -
  let ?args = "nsrun_args sock workdir pres (la_Args cmd)"
  have "tl (la_Args wrapped) = ''_nsrun'' # ?args"
    using assms(1) by (auto simp: wrapMountNamespace_def Command_def nsrun_args_def Let_def)
  then have "dispatch (tl (la_Args wrapped)) = CmdNsRun ?args"
    by (simp add: dispatch_def)
  moreover have "cmdNsRun ?args = NsOuter ?args"
    using assms nsrun_values [OF refl, of "[]" sock workdir pres]
    by (simp add: cmdNsRun_def parse_nsrun_args Let_def)
  moreover have "dispatch (tl (la_Args (np_cmd (outer_process self uid gid ?args)))) = CmdNsRun (''-inner'' # ?args)"
    by (simp add: outer_argv dispatch_def)
  moreover have "parse_flags nsrun_formal (''-inner'' # ?args) [] =
      Inr ([(''inner'', ''true''), (''adapter-sock'', sock), (''workdir'', workdir)] @ map (Pair ''mount'') pres, la_Args cmd)"
    using parse_flags_switch [of "''inner''" nsrun_formal ?args "[]", OF nsrun_names(3,7)] parse_nsrun_args by simp
  then have "cmdNsRun (''-inner'' # ?args) = NsInner sock workdir pres (la_Args cmd)"
    using assms nsrun_values [OF refl, of "[(''inner'', ''true'')]" sock workdir pres]
    by (simp add: cmdNsRun_def Let_def)
  ultimately show ?thesis by blast
qed

text \<open>
  The configuration passes unchanged through the argument vectors of the three processes: the command that
  \<open>wrapMountNamespace\<close> makes is dispatched to the outer stage, the command the outer stage starts is dispatched
  to the inner one, and the inner stage is called with the launcher's socket, working directory and routed
  prefixes and with the target's full argument vector, whatever these strings look like.
\<close>

theorem namespace_argv_roundtrip:
  assumes "wrapMountNamespace ''linux'' (Some self) cmd sock workdir pres = Some wrapped"
    and "sock \<noteq> []" and "la_Args cmd \<noteq> []"
  shows "\<exists>args. dispatch (tl (la_Args wrapped)) = CmdNsRun args \<and> cmdNsRun args = NsOuter args \<and>
    (\<exists>args'. dispatch (tl (la_Args (np_cmd (outer_process self uid gid args)))) = CmdNsRun args' \<and>
       cmdNsRun args' = NsInner sock workdir pres (la_Args cmd))"
  by (rule namespace_argv [OF assms])

definition sample_cmd :: launch_cmd where
  "sample_cmd = Command ''/sup'' [''/bin/vi'', ''-inner'']"

theorem namespace_argv_roundtrip_witness:
  "\<exists>wrapped args. wrapMountNamespace ''linux'' (Some ''/rca'') sample_cmd ''/s'' ''-w'' [''/a'', ''--''] = Some wrapped \<and>
     dispatch (tl (la_Args wrapped)) = CmdNsRun args \<and> cmdNsRun args = NsOuter args"
proof -
  obtain wrapped where w: "wrapMountNamespace ''linux'' (Some ''/rca'') sample_cmd ''/s'' ''-w'' [''/a'', ''--''] = Some wrapped"
    by (simp add: wrapMountNamespace_def Let_def)
  show ?thesis
    using w namespace_argv_roundtrip [OF w] by (auto simp: sample_cmd_def Command_def)
qed

subsection \<open>The mounts of the inner stage\<close>

text \<open>
  What the inner stage relies on: \<open>mt\<close> is the mount table in the order of mounting, each entry the server and
  its directory. Mounting appends an entry with a fresh server or fails without effect; only unmounting takes an entry
  away, and the target least of all, which runs without the capability to mount.
\<close>

definition ns_tracks :: "('s, 'p, 'w) ns_os \<Rightarrow> ('w \<Rightarrow> ('s \<times> string) list) \<Rightarrow> bool" where
  "ns_tracks sys mt \<longleftrightarrow>
     (\<forall>d w. mt (snd (ns_NotExist sys d w)) = mt w) \<and> (\<forall>d w. mt (snd (ns_MkdirAll sys d w)) = mt w) \<and>
     (\<forall>d w. case ns_Mount sys d w of
        (None, w') \<Rightarrow> mt w' = mt w
      | (Some s, w') \<Rightarrow> s \<notin> fst ` set (mt w) \<and> mt w' = mt w @ [(s, d)]) \<and>
     (\<forall>d w. mt (ns_Remove sys d w) = mt w) \<and> (\<forall>d w. mt (ns_Chdir sys d w) = mt w) \<and>
     (\<forall>w. mt (snd (ns_ClearAmbient sys w)) = mt w) \<and> (\<forall>t d w. mt (snd (ns_Start sys t d w)) = mt w) \<and>
     (\<forall>p w. mt (snd (ns_Wait sys p w)) = mt w)"

definition contains_dir :: "string \<Rightarrow> string \<Rightarrow> bool" where
  "contains_dir d e \<longleftrightarrow> prefix (path_elems d) (path_elems e)"

text \<open>
  Unmounting: \<open>own w s\<close> is whether this process has its working directory in the mount of \<open>s\<close>, \<open>busy w s\<close> whether
  any other process uses it. A mount in use, or with a later one below it, answers \<open>EBUSY\<close> and stays; any other goes,
  if no later mount hides it, at its directory or above: then it is not found by its path and nothing is assumed.
  Unmounting and removing directories change nobody's use of other mounts, and this process uses none once its
  working directory is \<open>/\<close>.
\<close>

definition ns_unmounts ::
    "('s, 'p, 'w) ns_os \<Rightarrow> ('w \<Rightarrow> ('s \<times> string) list) \<Rightarrow> ('w \<Rightarrow> 's \<Rightarrow> bool) \<Rightarrow> ('w \<Rightarrow> 's \<Rightarrow> bool) \<Rightarrow> bool" where
  "ns_unmounts sys mt own busy \<longleftrightarrow>
     (\<forall>s d xs ys w. mt w = xs @ (s, d) # ys \<longrightarrow> s \<notin> fst ` set (xs @ ys) \<longrightarrow> (\<forall>e \<in> set ys. \<not> contains_dir (snd e) d) \<longrightarrow>
        mt (ns_Unmount sys s w) = (if own w s \<or> busy w s \<or> (\<exists>e \<in> set ys. contains_dir d (snd e)) then mt w else xs @ ys)) \<and>
     (\<forall>s w. own (ns_Unmount sys s w) = own w \<and> busy (ns_Unmount sys s w) = busy w) \<and>
     (\<forall>d w. own (ns_Remove sys d w) = own w \<and> busy (ns_Remove sys d w) = busy w) \<and>
     (\<forall>w s. \<not> own (ns_Chdir sys ''/'' w) s) \<and> (\<forall>w. own (snd (ns_ClearAmbient sys w)) = own w) \<and>
     (\<forall>t d w. own (snd (ns_Start sys t d w)) = own w) \<and> (\<forall>p w. own (snd (ns_Wait sys p w)) = own w)"

text \<open>What the loop has mounted when it stands at some directory.\<close>

definition mounted_on :: "('s \<times> string) list \<Rightarrow> ('s \<times> string) list \<Rightarrow> 's list \<Rightarrow> string list \<Rightarrow> bool" where
  "mounted_on m0 m servers dirs \<longleftrightarrow>
     m = m0 @ zip servers dirs \<and> length servers = length dirs \<and> distinct servers \<and> set servers \<inter> fst ` set m0 = {}"

lemma mounted_on_snoc:
  assumes "mounted_on m0 m servers dirs" and "s \<notin> fst ` set m"
  shows "mounted_on m0 (m @ [(s, d)]) (servers @ [s]) (dirs @ [d])"
proof -
  have "set servers \<subseteq> fst ` set (zip servers dirs)" if "length servers = length dirs"
    using that by (metis map_fst_zip set_map subsetI)
  then show ?thesis
    using assms by (auto simp: mounted_on_def image_Un)
qed

lemma mount_loop_mounts:
  assumes "ns_tracks sys mt" and "mounted_on m0 (mt w) servers dirs"
    and "mount_loop sys mounts servers created w = (ok, servers', created', w')"
  shows "\<exists>k. mounted_on m0 (mt w') servers' (dirs @ take k mounts) \<and> (if ok then take k mounts = mounts else k < length mounts)"
  using assms(2,3)
proof (induction mounts arbitrary: servers dirs created w)
  case Nil
  then show ?case by auto
next
  case (Cons d mounts)
  have stay: "\<exists>k. mounted_on m0 (mt w1) servers (dirs @ take k (d # mounts)) \<and> k < length (d # mounts)" if "mt w1 = mt w" for w1
    using Cons.prems(1) that by (intro exI [of _ 0]) simp
  obtain missing w1 where w1: "ns_NotExist sys d w = (missing, w1)" by fastforce
  obtain made w2 where w2: "(if missing then ns_MkdirAll sys d w1 else (True, w1)) = (made, w2)" by fastforce
  obtain r w3 where w3: "ns_Mount sys d w2 = (r, w3)" by fastforce
  have mt2: "mt w2 = mt w"
    using assms(1) w1 w2 unfolding ns_tracks_def by (metis snd_conv)
  have mt3: "case r of None \<Rightarrow> mt w3 = mt w2 | Some s \<Rightarrow> s \<notin> fst ` set (mt w2) \<and> mt w3 = mt w2 @ [(s, d)]"
    using assms(1) w3 unfolding ns_tracks_def by (metis (no_types, lifting) case_prod_conv)
  show ?case
  proof (cases "made \<and> r \<noteq> None")
    case False
    then show ?thesis
      using Cons.prems(2) w1 w2 w3 mt2 mt3 stay by (auto split: if_splits)
  next
    case True
    then obtain s where s: "r = Some s" by blast
    then have "mounted_on m0 (mt w3) (servers @ [s]) (dirs @ [d])"
      using mt2 mt3 mounted_on_snoc [OF Cons.prems(1)] by simp
    moreover have "mount_loop sys mounts (servers @ [s]) (if missing then created @ [d] else created) w3 =
        (ok, servers', created', w')"
      using Cons.prems(2) w1 w2 w3 s True by (simp add: Let_def)
    ultimately obtain k where "mounted_on m0 (mt w') servers' ((dirs @ [d]) @ take k mounts)"
        "if ok then take k mounts = mounts else k < length mounts"
      using Cons.IH by blast
    then show ?thesis by (intro exI [of _ "Suc k"]) (simp split: if_splits)
  qed
qed

text \<open>What unmounting in the order of mounting leaves: what is used, and what has a later mount below it.\<close>

fun left_mounted :: "('s \<Rightarrow> bool) \<Rightarrow> ('s \<times> string) list \<Rightarrow> ('s \<times> string) list" where
  "left_mounted used [] = []"
| "left_mounted used ((s, d) # ms) =
     (if used s \<or> (\<exists>e \<in> set ms. contains_dir d (snd e)) then (s, d) # left_mounted used ms else left_mounted used ms)"

lemma unmount_servers:
  assumes "ns_unmounts sys mt own busy" and "mt w = m0 @ zip servers dirs"
    and "length servers = length dirs" and "distinct servers" and "set servers \<inter> fst ` set m0 = {}"
    and "sorted_wrt (\<lambda>d e. \<not> contains_dir e d) dirs"
  shows "mt (fold (ns_Unmount sys) servers w) = m0 @ left_mounted (\<lambda>s. own w s \<or> busy w s) (zip servers dirs) \<and>
    own (fold (ns_Unmount sys) servers w) = own w \<and> busy (fold (ns_Unmount sys) servers w) = busy w"
  using assms(2-)
proof (induction servers arbitrary: w dirs m0)
  case Nil
  then show ?case by simp
next
  case (Cons s servers)
  then obtain d ds where ds: "dirs = d # ds" by (cases dirs) auto
  let ?ms = "zip servers ds" and ?used = "\<lambda>s. own w s \<or> busy w s"
  have zip: "fst ` set ?ms = set servers" "snd ` set ?ms = set ds"
    using Cons.prems(2) ds by (simp_all flip: set_map)
  have w: "mt w = m0 @ (s, d) # ?ms" "s \<notin> fst ` set (m0 @ ?ms)" "\<forall>e \<in> set ?ms. \<not> contains_dir (snd e) d"
    using Cons.prems(1,3-5) ds zip by (auto dest: set_zip_leftD set_zip_rightD)
  have same: "own (ns_Unmount sys s w) = own w" "busy (ns_Unmount sys s w) = busy w"
    using assms(1) by (simp_all add: ns_unmounts_def)
  have mt: "mt (ns_Unmount sys s w) = (if ?used s \<or> (\<exists>e \<in> set ?ms. contains_dir d (snd e)) then mt w else m0 @ ?ms)"
    using assms(1) w unfolding ns_unmounts_def by (metis (no_types, lifting))
  show ?case
  proof (cases "?used s \<or> (\<exists>e \<in> set ?ms. contains_dir d (snd e))")
    case True
    then have "mt (ns_Unmount sys s w) = (m0 @ [(s, d)]) @ ?ms"
      using mt w(1) by simp
    moreover have "set servers \<inter> fst ` set (m0 @ [(s, d)]) = {}"
      using Cons.prems(3,4) by auto
    ultimately show ?thesis
      using Cons.IH [of "ns_Unmount sys s w" "m0 @ [(s, d)]" ds] Cons.prems ds True by (simp add: same)
  next
    case False
    then have "mt (ns_Unmount sys s w) = m0 @ ?ms"
      using mt by simp
    then show ?thesis
      using Cons.IH [of "ns_Unmount sys s w" m0 ds] Cons.prems ds False by (simp add: same)
  qed
qed

lemma unmountAll_mounts:
  assumes "ns_tracks sys mt" and "ns_unmounts sys mt own busy" and "mounted_on m0 (mt w) servers dirs"
    and "sorted_wrt (\<lambda>d e. \<not> contains_dir e d) dirs" and "w' = unmountAll sys servers created w"
  shows "mt w' = m0 @ left_mounted (\<lambda>s. own w' s \<or> busy w' s) (zip servers dirs) \<and> own w' = own w"
proof -
  let ?w = "fold (ns_Unmount sys) servers w"
  have "mt (fold (ns_Remove sys) created w1) = mt w1 \<and> own (fold (ns_Remove sys) created w1) = own w1 \<and>
      busy (fold (ns_Remove sys) created w1) = busy w1" for w1
    using assms(1,2) by (induction created arbitrary: w1) (simp_all add: ns_tracks_def ns_unmounts_def)
  moreover have "mt ?w = m0 @ left_mounted (\<lambda>s. own w s \<or> busy w s) (zip servers dirs) \<and> own ?w = own w \<and> busy ?w = busy w"
    using assms(3,4) by (intro unmount_servers [OF assms(2)]) (simp_all add: mounted_on_def)
  ultimately show ?thesis
    unfolding assms(5) unmountAll_def by simp
qed

lemma mounted_on_Nil: "mounted_on m m [] []"
  by (simp add: mounted_on_def)

text \<open>
  C22: The inner stage takes down the mounts it made, on every path: after an error at some directory, after a failed start
  and after the target has ended, the mount table is the one it started with, and behind it those of the mounts
  made that \<open>umount\<close> refuses, exactly: a mount that a process still uses, and one with a later mount below it,
  because they are unmounted in the order of mounting. Once all directories are mounted, this process itself
  uses none of them. No directory may be listed after itself or after a directory below it.
\<close>

theorem namespace_mounts_removed:
  assumes "ns_tracks sys mt" and "ns_unmounts sys mt own busy" and "sorted_wrt (\<lambda>d e. \<not> contains_dir e d) mounts"
    and "nsRunInner sys workdir mounts target w = (code, w')"
  shows "\<exists>servers dirs. prefix dirs mounts \<and> length servers = length dirs \<and>
    mt w' = mt w @ left_mounted (\<lambda>s. own w' s \<or> busy w' s) (zip servers dirs) \<and>
    (dirs = mounts \<longrightarrow> (\<forall>s. \<not> own w' s))"
proof -
  obtain ok servers created w1 where loop: "mount_loop sys mounts [] [] w = (ok, servers, created, w1)"
    by (cases "mount_loop sys mounts [] [] w") auto
  then obtain k where k: "mounted_on (mt w) (mt w1) servers (take k mounts)" "if ok then take k mounts = mounts else k < length mounts"
    using mount_loop_mounts [OF assms(1) mounted_on_Nil] by fastforce
  have len: "length servers = length (take k mounts)"
    using k(1) by (simp add: mounted_on_def)
  have down: "mt w' = mt w @ left_mounted (\<lambda>s. own w' s \<or> busy w' s) (zip servers (take k mounts)) \<and> own w' = own w2"
    if "mt w2 = mt w1" "w' = unmountAll sys servers created w2" for w2
    using unmountAll_mounts [OF assms(1,2) _ _ that(2), of "mt w" "take k mounts"] k(1) that(1) assms(3)
    by (simp add: sorted_wrt_take)
  show ?thesis
  proof (cases ok)
    case False
    then have "w' = unmountAll sys servers created w1" "take k mounts \<noteq> mounts"
      using assms(4) loop k(2) by (auto simp: nsRunInner_def)
    with down [OF refl] len show ?thesis
      by (intro exI [of _ servers] exI [of _ "take k mounts"]) (simp add: take_is_prefix)
  next
    case True
    obtain r w2 where start: "startWithoutAmbientCaps sys target workdir (ns_Chdir sys ''/'' w1) = (r, w2)"
      by fastforce
    obtain c w3 where c: "ns_ClearAmbient sys (ns_Chdir sys ''/'' w1) = (c, w3)" by fastforce
    have w3: "mt w3 = mt w1" "\<forall>s. \<not> own w3 s"
      using assms(1,2) c unfolding ns_tracks_def ns_unmounts_def by (metis snd_conv)+
    then have w2: "mt w2 = mt w1" "\<forall>s. \<not> own w2 s"
      using assms(1,2) start c unfolding startWithoutAmbientCaps_def ns_tracks_def ns_unmounts_def
      by (cases c; auto; metis snd_conv)+
    obtain w4 where w4: "w' = unmountAll sys servers created w4" "w4 = w2 \<or> (\<exists>p. w4 = snd (ns_Wait sys p w2))"
      using assms(4) loop True start
      by (auto simp: nsRunInner_def Let_def split: option.splits prod.splits) (metis snd_conv)
    then have "mt w4 = mt w1" "\<forall>s. \<not> own w4 s"
      using w2 assms(1,2) unfolding ns_tracks_def ns_unmounts_def by metis+
    with down [OF _ w4(1)] len show ?thesis
      by (intro exI [of _ servers] exI [of _ "take k mounts"]) (simp add: take_is_prefix)
  qed
qed

text \<open>
  A small kernel: the mount table, the working directory of this process, and the directories of others. Mounting
  \<open>/bad\<close> fails, and the target leaves a process in \<open>/data\<close> behind.
\<close>

type_synonym ns_world = "(nat \<times> string) list \<times> string \<times> string list"

definition small_own :: "ns_world \<Rightarrow> nat \<Rightarrow> bool" where
  "small_own = (\<lambda>(m, cwd, ds) s. (s, cwd) \<in> set m \<and> cwd \<noteq> ''/'')"

definition small_busy :: "ns_world \<Rightarrow> nat \<Rightarrow> bool" where
  "small_busy = (\<lambda>(m, cwd, ds) s. \<exists>d \<in> set ds. (s, d) \<in> set m)"

definition small_unmount :: "nat \<Rightarrow> ns_world \<Rightarrow> ns_world" where
  "small_unmount s = (\<lambda>(m, cwd, ds).
     (case dropWhile (\<lambda>e. fst e \<noteq> s) m of
        [] \<Rightarrow> (m, cwd, ds)
      | e # ys \<Rightarrow>
          if snd e = cwd \<and> cwd \<noteq> ''/'' \<or> snd e \<in> set ds \<or> list_ex (\<lambda>y. contains_dir (snd e) (snd y)) ys then (m, cwd, ds)
          else (takeWhile (\<lambda>e. fst e \<noteq> s) m @ ys, cwd, ds)))"

definition small_ns :: "(nat, nat, ns_world) ns_os" where
  "small_ns = \<lparr>ns_NotExist = (\<lambda>d w. (False, w)), ns_MkdirAll = (\<lambda>d w. (True, w)),
     ns_Mount = (\<lambda>d (m, r). if d = ''/bad'' then (None, m, r) else let s = Suc (sum_list (map fst m)) in (Some s, m @ [(s, d)], r)),
     ns_Unmount = small_unmount, ns_Remove = (\<lambda>d w. w), ns_Chdir = (\<lambda>d (m, cwd, ds). (m, d, ds)),
     ns_ClearAmbient = (\<lambda>w. (True, w)), ns_Start = (\<lambda>t d w. (Some (length (fst w)), w)),
     ns_Wait = (\<lambda>p (m, cwd, ds). (Some (ExitError (Exited (of_nat p))), m, cwd, [''/data'']))\<rparr>"

lemma small_ns_tracks: "ns_tracks small_ns fst"
proof -
  have "x \<le> sum_list (map fst m)" if "x \<in> fst ` set m" for x and m :: "(nat \<times> string) list"
    using that member_le_sum_list [of x "map fst m"] by simp
  then have "Suc (sum_list (map fst m)) \<notin> fst ` set m" for m :: "(nat \<times> string) list"
    using not_less_eq_eq by blast
  then show ?thesis
    by (simp add: ns_tracks_def small_ns_def Let_def)
qed

lemma small_unmount_uses:
  "small_own (small_unmount s w) = small_own w" "small_busy (small_unmount s w) = small_busy w"
proof -
  obtain m cwd ds where w: "w = (m, cwd, ds)" by (cases w)
  have "small_own (small_unmount s w) = small_own w \<and> small_busy (small_unmount s w) = small_busy w"
  proof (cases "dropWhile (\<lambda>e. fst e \<noteq> s) m")
    case Nil
    show ?thesis unfolding w small_unmount_def prod.case Nil list.case by simp
  next
    case (Cons e ys)
    then have "m = takeWhile (\<lambda>e. fst e \<noteq> s) m @ e # ys"
      by (metis takeWhile_dropWhile_id)
    then have m: "set m = set (takeWhile (\<lambda>e. fst e \<noteq> s) m @ ys) \<union> {e}"
      by (metis Un_insert_right list.simps(15) set_append sup_bot.right_neutral)
    show ?thesis
      using Cons m by (auto simp: w small_unmount_def small_own_def small_busy_def fun_eq_iff)
  qed
  then show "small_own (small_unmount s w) = small_own w" "small_busy (small_unmount s w) = small_busy w" by auto
qed

lemma small_ns_unmounts: "ns_unmounts small_ns fst small_own small_busy"
proof -
  have "fst (small_unmount s w) = (if small_own w s \<or> small_busy w s \<or> (\<exists>e \<in> set ys. contains_dir d (snd e)) then fst w else xs @ ys)"
    if m: "fst w = xs @ (s, d) # ys" and s: "s \<notin> fst ` set (xs @ ys)" for s d xs ys w
  proof -
    obtain cwd ds where w: "w = (xs @ (s, d) # ys, cwd, ds)"
      using m by (metis prod.collapse)
    have "\<forall>e \<in> set xs. fst e \<noteq> s" "\<forall>x. (s, x) \<notin> set xs \<and> (s, x) \<notin> set ys"
      using s by force+
    moreover from this have "dropWhile (\<lambda>e. fst e \<noteq> s) (xs @ (s, d) # ys) = (s, d) # ys"
        "takeWhile (\<lambda>e. fst e \<noteq> s) (xs @ (s, d) # ys) = xs"
      by (simp_all add: dropWhile_append2 takeWhile_append2)
    ultimately show ?thesis
      by (auto simp: w small_unmount_def small_own_def small_busy_def list_ex_iff)
  qed
  moreover have "small_own (snd (ns_Wait small_ns p w)) = small_own w" for p w
    by (cases w) (simp add: small_ns_def small_own_def)
  moreover have "\<not> small_own (ns_Chdir small_ns ''/'' w) s" for w s
    by (cases w) (simp add: small_ns_def small_own_def)
  ultimately show ?thesis
    unfolding ns_unmounts_def by (simp add: small_ns_def small_unmount_uses)
qed

lemma sample_contains: "\<not> contains_dir ''/data'' ''/work''" "\<not> contains_dir ''/work'' ''/data''"
  by (simp_all add: contains_dir_def path_elems_def clean_elems_def push_elem_def rooted_path_def elems.simps)

theorem namespace_mounts_removed_witness:
  "let w' = snd (nsRunInner small_ns ''/work'' [''/work'', ''/data''] [''vi''] ([(4, ''/'')], ''/work'', []))
   in fst w' = [(4, ''/''), (10, ''/data'')] \<and>
     (\<exists>servers dirs. fst w' = (4, ''/'') # left_mounted (\<lambda>s. small_own w' s \<or> small_busy w' s) (zip servers dirs))"
proof -
  obtain code w' where run: "nsRunInner small_ns ''/work'' [''/work'', ''/data''] [''vi''] ([(4, ''/'')], ''/work'', []) = (code, w')"
    by (metis surj_pair)
  moreover have "fst w' = [(4, ''/''), (10, ''/data'')]"
    using run by (auto simp: nsRunInner_def small_ns_def startWithoutAmbientCaps_def unmountAll_def small_unmount_def Let_def
        sample_contains)
  moreover have "\<exists>servers dirs. fst w' = (4, ''/'') # left_mounted (\<lambda>s. small_own w' s \<or> small_busy w' s) (zip servers dirs)"
    using namespace_mounts_removed [OF small_ns_tracks small_ns_unmounts _ run] sample_contains by auto
  ultimately show ?thesis by (simp add: Let_def)
qed

text \<open>A kernel that starts the target only under all the mounts.\<close>

definition start_guarded ::
    "('w \<Rightarrow> ('s \<times> string) list) \<Rightarrow> string list \<Rightarrow> ('s, 'p, 'w) ns_os \<Rightarrow> ('s, 'p, 'w) ns_os" where
  "start_guarded mt dirs sys =
     sys\<lparr>ns_Start := (\<lambda>t d w. if map snd (mt w) = dirs then ns_Start sys t d w else (None, w))\<rparr>"

lemma mount_loop_start:
  "mount_loop (sys\<lparr>ns_Start := f\<rparr>) mounts servers created w = mount_loop sys mounts servers created w"
proof (induction mounts arbitrary: servers created w)
  case Nil
  then show ?case by simp
next
  case (Cons d mounts)
  then show ?case by (simp add: Let_def split: prod.split option.split)
qed

lemma unmountAll_start: "unmountAll (sys\<lparr>ns_Start := f\<rparr>) servers created w = unmountAll sys servers created w"
  by (simp add: unmountAll_def)

text \<open>
  The target runs only with every routed directory mounted at its own path, in the order of the
  command line and on top of what was mounted before: a kernel that refuses to start it otherwise changes
  nothing.
\<close>

theorem target_starts_under_mounts:
  assumes "ns_tracks sys mt"
  shows "nsRunInner (start_guarded mt (map snd (mt w) @ mounts) sys) workdir mounts target w =
           nsRunInner sys workdir mounts target w"
proof -
  let ?sys = "start_guarded mt (map snd (mt w) @ mounts) sys"
  obtain ok servers created w1 where loop: "mount_loop sys mounts [] [] w = (ok, servers, created, w1)"
    by (cases "mount_loop sys mounts [] [] w") auto
  then obtain k where k: "mounted_on (mt w) (mt w1) servers (take k mounts)" "ok \<longrightarrow> take k mounts = mounts"
    using mount_loop_mounts [OF assms mounted_on_Nil] by (fastforce split: if_splits)
  have "startWithoutAmbientCaps ?sys target workdir (ns_Chdir sys ''/'' w1) =
      startWithoutAmbientCaps sys target workdir (ns_Chdir sys ''/'' w1)" if ok
  proof -
    obtain c w2 where w2: "ns_ClearAmbient sys (ns_Chdir sys ''/'' w1) = (c, w2)" by fastforce
    then have "mt w2 = mt w1"
      using assms unfolding ns_tracks_def by (metis snd_conv)
    then have "map snd (mt w2) = map snd (mt w) @ mounts"
      using k that by (simp add: mounted_on_def)
    then show ?thesis
      using w2 by (simp add: startWithoutAmbientCaps_def start_guarded_def split: bool.split)
  qed
  then show ?thesis
    using loop by (simp add: nsRunInner_def start_guarded_def mount_loop_start unmountAll_start Let_def
        split: bool.split prod.split option.split)
qed

theorem target_starts_under_mounts_witness:
  "nsRunInner (start_guarded fst [''/'', ''/work''] small_ns) [] [''/work''] [''vi''] ([(4, ''/'')], ''/'', []) =
     nsRunInner small_ns [] [''/work''] [''vi''] ([(4, ''/'')], ''/'', []) \<and>
   fst (nsRunInner small_ns [] [''/work''] [''vi''] ([(4, ''/'')], ''/'', [])) = 2"
  using target_starts_under_mounts [OF small_ns_tracks, of "([(4, ''/'')], ''/'', [])" "[''/work'']" "[]" "[''vi'']"]
  by (simp add: small_ns_def nsRunInner_def unmountAll_def startWithoutAmbientCaps_def rca_exitCode_def Let_def)

end
