(* ===== verification/Run.thy ===== *)
theory Run
  imports Adapter Libp2p Profile RunArgs NsRun
begin

section \<open>Run mode (cmdRun of cmd/rca/run.go)\<close>

text \<open>
  The local side from its command line to the exit code of the target. The host it runs on is the record
  \<open>run_host\<close>: each field is the answer of one call of the standard library, of the operating system or of a
  tool the launcher starts. What the launcher does is a list of events in their order, so a theorem can speak of everything that
  happened, and a value of type \<open>run_m\<close> is the events of a part of \<open>cmdRun\<close> with the exit code it returned early
  or the value it goes on with. Log lines are left out.
\<close>

datatype 'a dialer = StdioDialer string | Libp2pDialer "'a AddrInfo" | UnixDialer string

record ('a, 'c, 'w) run_host =
  rh_goos :: string
  rh_environ :: "string list"
  rh_tempDir :: string
  rh_pid :: nat
  rh_getwd :: "string option"
  rh_evalSymlinks :: "string \<Rightarrow> string option"
  rh_lookPath :: "string \<Rightarrow> string option"
  rh_exists :: "string \<Rightarrow> bool"
  rh_codesignInfo :: "string \<Rightarrow> string option"
  rh_prepareCopy :: "string \<Rightarrow> string \<Rightarrow> bool"
  rh_executable :: "string option"
  rh_extractNative :: "string \<Rightarrow> string option"
  rh_viaPipes :: bool
  rh_viaStart :: "string \<Rightarrow> bool"
  rh_viaDialer :: bool
  rh_net :: "'a net_lib"
  rh_libp2pHost :: bool
  rh_listen :: "string \<Rightarrow> bool"
  rh_link :: "'a dialer \<Rightarrow> ('c, 'w) link"
  rh_world :: 'w
  rh_start :: "launch_cmd \<Rightarrow> wait_error option option"

datatype 'a run_event =
    SignCopy string string
  | StartVia string
  | Listen string
  | CloseListener string
  | ServeAdapter Table "'a dialer"
  | ServeBridge string "'a dialer"
  | PrintLine string
  | StartTarget launch_cmd

type_synonym ('a, 'r) run_m = "'a run_event list \<times> (i32 + 'r)"

definition exit_run :: "i32 \<Rightarrow> ('a, 'r) run_m" where
  "exit_run code = ([], Inl code)"

definition ret_run :: "'r \<Rightarrow> ('a, 'r) run_m" where
  "ret_run r = ([], Inr r)"

definition emit :: "'a run_event \<Rightarrow> ('a, unit) run_m" where
  "emit e = ([e], Inr ())"

definition bind_run :: "('a, 'q) run_m \<Rightarrow> ('q \<Rightarrow> ('a, 'r) run_m) \<Rightarrow> ('a, 'r) run_m" where
  "bind_run m f =
     (case m of
        (ev, Inl code) \<Rightarrow> (ev, Inl code)
      | (ev, Inr q) \<Rightarrow> (case f q of (ev', r) \<Rightarrow> (ev @ ev', r)))"

text \<open>\<open>os.Getenv\<close>: empty for a variable that is not set.\<close>

definition Getenv :: "('a, 'c, 'w) run_host \<Rightarrow> string \<Rightarrow> string" where
  "Getenv h name = (case env_get (rh_environ h) name of None \<Rightarrow> [] | Some v \<Rightarrow> v)"

definition defaultAdapterSock :: "('a, 'c, 'w) run_host \<Rightarrow> string" where
  "defaultAdapterSock h = JoinPath [rh_tempDir h, ''rcc-adapter-'' @ dec_of_nat (rh_pid h) @ ''.sock'']"

definition resolvePrefixes :: "(string \<Rightarrow> string option) \<Rightarrow> string list \<Rightarrow> string list" where
  "resolvePrefixes evalSymlinks ps = map (\<lambda>p. case evalSymlinks p of Some r \<Rightarrow> r | None \<Rightarrow> p) ps"

definition isMacOSPlatformBinary :: "('a, 'c, 'w) run_host \<Rightarrow> string \<Rightarrow> bool" where
  "isMacOSPlatformBinary h path =
     (case rh_codesignInfo h path of None \<Rightarrow> False | Some out \<Rightarrow> Contains out ''Platform identifier='')"

definition run_profile :: "runOpts \<Rightarrow> string" where
  "run_profile opts = (if ro_profile opts = [] then detectProfile (ro_command opts) else ro_profile opts)"

subsection \<open>Routing\<close>

definition route_setup :: "('a, 'c, 'w) run_host \<Rightarrow> runOpts \<Rightarrow> ('a, runOpts \<times> Table) run_m" where
  "route_setup h opts =
     bind_run
       (if ro_defaultRemote opts then
          (let defs = profileLocalPrefixes (Getenv h) (run_profile opts)
           in ret_run (ModeLocalAllowlist,
                if length defs > 0 then opts\<lparr>ro_localPrefixes := defs @ ro_localPrefixes opts\<rparr> else opts))
        else if length (ro_remotePrefixes opts) = 0 then
          (if ro_workdir opts = [] then
             (case rh_getwd h of
                None \<Rightarrow> exit_run 1
              | Some wd \<Rightarrow> ret_run (ModeRemoteAllowlist, opts\<lparr>ro_remotePrefixes := [wd]\<rparr>))
           else ret_run (ModeRemoteAllowlist, opts\<lparr>ro_remotePrefixes := [ro_workdir opts]\<rparr>))
        else ret_run (ModeRemoteAllowlist, opts))
       (\<lambda>(mode, opts). ret_run (opts, New mode (resolvePrefixes (rh_evalSymlinks h) (ro_remotePrefixes opts))
          (resolvePrefixes (rh_evalSymlinks h) (ro_localPrefixes opts))))"

subsection \<open>The target and its tools\<close>

text \<open>The helpers an engine starts from its own directory are copied beside the copy of the target.\<close>

fun copy_helpers ::
    "('a, 'c, 'w) run_host \<Rightarrow> string \<Rightarrow> string \<Rightarrow> string list \<Rightarrow> ('a, unit) run_m" where
  "copy_helpers h realTarget dest [] = ret_run ()"
| "copy_helpers h realTarget dest (n # ns) =
     (let src = JoinPath [Dir realTarget, n] in
      if \<not> rh_exists h src then copy_helpers h realTarget dest ns
      else
        let hdest = JoinPath [Dir dest, n] in
        bind_run (emit (SignCopy src hdest)) (\<lambda>_.
          if \<not> rh_prepareCopy h src hdest then exit_run 1 else copy_helpers h realTarget dest ns))"

definition prepare_target :: "('a, 'c, 'w) run_host \<Rightarrow> runOpts \<Rightarrow> ('a, string) run_m" where
  "prepare_target h opts =
     (if ro_serveFSOnly opts then ret_run []
      else case rh_lookPath h (ro_command opts) of
        None \<Rightarrow> exit_run 127
      | Some target \<Rightarrow>
          if rh_goos h = ''darwin'' \<and> ro_resign opts then
            if isMacOSPlatformBinary h target then exit_run 1
            else
              let dest = JoinPath [Dir (ro_adapterSock opts), ''rcc-'' @ Base target @ ''-copy''] in
              bind_run (emit (SignCopy target dest)) (\<lambda>_.
                if \<not> rh_prepareCopy h target dest then exit_run 1
                else bind_run (copy_helpers h target dest (profileSpawnHelpers (run_profile opts))) (\<lambda>_. ret_run dest))
          else ret_run target)"

definition nativeArtifactName :: "string \<Rightarrow> string" where
  "nativeArtifactName goos =
     (if goos = ''darwin'' then ''rcc_interpose.dylib'' else if goos = ''linux'' then ''rcc_seccomp'' else [])"

definition default_tools :: "('a, 'c, 'w) run_host \<Rightarrow> runOpts \<Rightarrow> ('a, runOpts) run_m" where
  "default_tools h opts =
     bind_run
       (if ro_spawnProxy opts = [] then
          (case rh_executable h of None \<Rightarrow> exit_run 1 | Some self \<Rightarrow> ret_run (opts\<lparr>ro_spawnProxy := self\<rparr>))
        else ret_run opts)
       (\<lambda>opts.
          if ro_serveFSOnly opts then ret_run opts
          else if rh_goos h = ''darwin'' \<and> ro_dylib opts = [] then
            (case rh_extractNative h (nativeArtifactName (rh_goos h)) of
               None \<Rightarrow> exit_run 1
             | Some path \<Rightarrow> if path = [] then exit_run 1 else ret_run (opts\<lparr>ro_dylib := path\<rparr>))
          else if rh_goos h = ''linux'' \<and> ro_supervisor opts = [] then
            (case rh_extractNative h (nativeArtifactName (rh_goos h)) of
               None \<Rightarrow> exit_run 1
             | Some path \<Rightarrow> if path = [] then exit_run 1 else ret_run (opts\<lparr>ro_supervisor := path\<rparr>))
          else ret_run opts)"

subsection \<open>The transport\<close>

definition choose_dialer :: "('a, 'c, 'w) run_host \<Rightarrow> runOpts \<Rightarrow> ('a, 'a dialer) run_m" where
  "choose_dialer h opts =
     (if ro_via opts \<noteq> [] then
        (if \<not> rh_viaPipes h then exit_run 1
         else if \<not> rh_viaStart h (ro_via opts) then exit_run 1
         else bind_run (emit (StartVia (ro_via opts))) (\<lambda>_.
           if \<not> rh_viaDialer h then exit_run 1 else ret_run (StdioDialer (ro_via opts))))
      else if ro_code opts \<noteq> [] \<or> ro_peer opts \<noteq> [] then
        (if \<not> rh_libp2pHost h then exit_run 1
         else if ro_code opts \<noteq> [] then
           (case Decode (nl_lib (rh_net h)) (ro_code opts) of
              Inl _ \<Rightarrow> exit_run 2
            | Inr info \<Rightarrow> ret_run (Libp2pDialer info))
         else case DialLibp2pPeer (rh_net h) (ro_peer opts) of
           Inl _ \<Rightarrow> exit_run 2
         | Inr info \<Rightarrow> ret_run (Libp2pDialer info))
      else ret_run (UnixDialer (ro_sock opts)))"

text \<open>A listener is closed when \<open>cmdRun\<close> returns, on whatever path.\<close>

definition with_listener ::
    "('a, 'c, 'w) run_host \<Rightarrow> string \<Rightarrow> ('a, i32) run_m \<Rightarrow> ('a, i32) run_m" where
  "with_listener h sock body =
     (if \<not> rh_listen h sock then exit_run 1
      else case body of (ev, r) \<Rightarrow> (Listen sock # ev @ [CloseListener sock], r))"

subsection \<open>The arguments of the target\<close>

fun probe_loop :: "nat \<Rightarrow> ('c, 'w) link \<Rightarrow> 'w \<Rightarrow> (string \<times> string) option" where
  "probe_loop 0 lk w = None"
| "probe_loop (Suc n) lk w =
     (case QueryServerInfo lk w of
        (Inr info, w) \<Rightarrow> Some info
      | (Inl _, w) \<Rightarrow> probe_loop n lk w)"

definition cross_os_args :: "('a, 'c, 'w) run_host \<Rightarrow> 'a dialer \<Rightarrow> runOpts \<Rightarrow> runOpts" where
  "cross_os_args h d opts =
     (case probe_loop 2 (rh_link h d) (rh_world h) of
        None \<Rightarrow> opts
      | Some (execOS, execArch) \<Rightarrow>
          if execOS = rh_goos h then opts
          else
            let profileName = run_profile opts;
                hint = osHintArgs profileName (rh_goos h) execOS execArch;
                extra = profileCrossOSExtraArgs profileName;
                inject = hint @ extra
            in if length inject > 0 then opts\<lparr>ro_args := inject @ ro_args opts\<rparr> else opts)"

subsection \<open>The launch\<close>

definition injectedEnv :: "string \<Rightarrow> LaunchConfig \<Rightarrow> string list" where
  "injectedEnv goos cfg =
     (let env =
        [EnvAdapterSock @ ''='' @ lc_AdapterSock cfg,
         EnvExecutorSock @ ''='' @ lc_ExecutorSock cfg,
         EnvSpawnProxy @ ''='' @ lc_SpawnProxyPath cfg,
         EnvRemotePrefix @ ''='' @ Join (lc_RemotePrefixes cfg) '':'',
         EnvSpawnSentinel @ ''='' @ lc_SpawnSentinel cfg,
         EnvTargetPath @ ''='' @ lc_TargetPath cfg]
      in if goos = ''darwin'' then env @ [EnvDylib @ ''='' @ lc_DylibPath cfg] else env)"

definition launch_config :: "runOpts \<Rightarrow> string \<Rightarrow> string \<Rightarrow> Table \<Rightarrow> LaunchConfig" where
  "launch_config opts target bridgeSock route =
     \<lparr>lc_TargetPath = target, lc_Args = ro_args opts, lc_WorkDir = ro_workdir opts, lc_AdapterSock = ro_adapterSock opts,
      lc_ExecutorSock = bridgeSock, lc_SpawnProxyPath = ro_spawnProxy opts, lc_RemotePrefixes = RemotePrefixes route,
      lc_SpawnSentinel = ro_sentinel opts, lc_DylibPath = ro_dylib opts, lc_SupervisorPath = ro_supervisor opts,
      lc_ExtraEnv = []\<rparr>"

fun print_lines :: "string list \<Rightarrow> ('a, unit) run_m" where
  "print_lines [] = ret_run ()"
| "print_lines (l # ls) = bind_run (emit (PrintLine l)) (\<lambda>_. print_lines ls)"

definition run_target ::
    "('a, 'c, 'w) run_host \<Rightarrow> runOpts \<Rightarrow> string \<Rightarrow> string \<Rightarrow> Table \<Rightarrow> ('a, i32) run_m" where
  "run_target h opts target bridgeSock route =
     (let cfg = launch_config opts target bridgeSock route in
      case BuildCommand (rh_goos h) (rh_environ h) cfg of
        Inl _ \<Rightarrow> exit_run 1
      | Inr cmd \<Rightarrow>
          (case (if ro_workdir opts = [] then rh_getwd h else Some (ro_workdir opts)) of
             None \<Rightarrow> exit_run 1
           | Some workdir \<Rightarrow>
               (case wrapMountNamespace (rh_goos h) (rh_executable h) cmd (ro_adapterSock opts) workdir (RemotePrefixes route) of
                  None \<Rightarrow> exit_run 1
                | Some cmd \<Rightarrow>
                    if ro_printCmd opts then
                      bind_run (print_lines (Join (la_Args cmd) '' '' # map (\<lambda>kv. ''env: '' @ kv) (injectedEnv (rh_goos h) cfg)))
                        (\<lambda>_. ret_run 0)
                    else
                      (case rh_start h cmd of
                         None \<Rightarrow> exit_run 1
                       | Some err \<Rightarrow> bind_run (emit (StartTarget cmd)) (\<lambda>_. ret_run (rca_exitCode err))))))"

text \<open>With \<open>--serve-fs-only\<close> the launcher waits for a signal and returns 0.\<close>

definition run_services ::
    "('a, 'c, 'w) run_host \<Rightarrow> runOpts \<Rightarrow> string \<Rightarrow> Table \<Rightarrow> 'a dialer \<Rightarrow> ('a, i32) run_m" where
  "run_services h opts target route d =
     (let bridgeSock = ro_adapterSock opts @ ''.exec'' in
      with_listener h (ro_adapterSock opts)
        (with_listener h bridgeSock
          (bind_run (emit (ServeBridge bridgeSock d)) (\<lambda>_.
           bind_run (emit (ServeAdapter route d)) (\<lambda>_.
             if ro_serveFSOnly opts then ret_run 0
             else run_target h (cross_os_args h d opts) target bridgeSock route)))))"

definition cmdRun :: "('a, 'c, 'w) run_host \<Rightarrow> string list \<Rightarrow> 'a run_event list \<times> i32" where
  "cmdRun h args =
     (case parseRunArgs (rh_goos h) (defaultAdapterSock h) args of
        Inl _ \<Rightarrow> ([], 2)
      | Inr opts \<Rightarrow>
          (case bind_run (route_setup h opts) (\<lambda>(opts, route).
                bind_run (prepare_target h opts) (\<lambda>target.
                bind_run (default_tools h opts) (\<lambda>opts.
                bind_run (choose_dialer h opts) (\<lambda>d.
                  run_services h opts target route d)))) of
             (ev, Inl code) \<Rightarrow> (ev, code)
           | (ev, Inr code) \<Rightarrow> (ev, code)))"

subsection \<open>The parts of a run\<close>

lemma bind_runE:
  assumes "bind_run m f = (ev, r)"
  obtains c where "m = (ev, Inl c)" and "r = Inl c"
    | e1 q e2 where "m = (e1, Inr q)" and "f q = (e2, r)" and "ev = e1 @ e2"
  using assms by (cases m; cases "snd m") (auto simp: bind_run_def split: prod.splits)

lemma bind_run_simps [simp]:
  "bind_run (exit_run c) f = exit_run c" "bind_run (ret_run q) f = f q"
  "bind_run (emit e) g = (e # fst (g ()), snd (g ()))"
  by (simp_all add: bind_run_def exit_run_def ret_run_def emit_def split: prod.split)

lemma run_m_proj [simp]:
  "fst (exit_run c) = []" "snd (exit_run c) = Inl c" "fst (ret_run q) = []" "snd (ret_run q) = Inr q"
  by (simp_all add: exit_run_def ret_run_def)

text \<open>The preparations neither open a listener nor start or serve anything.\<close>

fun preparing :: "'a run_event \<Rightarrow> bool" where
  "preparing (SignCopy s d) = True"
| "preparing (StartVia c) = True"
| "preparing _ = False"

lemma preparing_bind:
  assumes "list_all preparing (fst m)" and "\<And>q. snd m = Inr q \<Longrightarrow> list_all preparing (fst (f q))"
  shows "list_all preparing (fst (bind_run m f))"
  using assms by (cases m; cases "snd m") (auto simp: bind_run_def split: prod.split)

lemma preparing_stages:
  "list_all preparing (fst (route_setup h opts))"
  "list_all preparing (fst (copy_helpers h t d ns))"
  "list_all preparing (fst (prepare_target h opts))"
  "list_all preparing (fst (default_tools h opts))"
  "list_all preparing (fst (choose_dialer h opts))"
proof -
  show helpers: "list_all preparing (fst (copy_helpers h t d ns))" for t d ns
    by (induction h t d ns rule: copy_helpers.induct) (auto simp: Let_def)
  show "list_all preparing (fst (route_setup h opts))"
    unfolding route_setup_def by (intro preparing_bind) (auto simp: Let_def split: option.splits)
  show "list_all preparing (fst (prepare_target h opts))"
    using helpers by (auto simp: prepare_target_def Let_def intro!: preparing_bind split: option.split)
  show "list_all preparing (fst (default_tools h opts))"
    unfolding default_tools_def by (intro preparing_bind) (auto split: option.split)
  show "list_all preparing (fst (choose_dialer h opts))"
    by (auto simp: choose_dialer_def split: option.split sum.split)
qed

lemma print_lines_events: "print_lines ls = (map PrintLine ls, Inr ())"
  by (induction ls) (simp_all add: ret_run_def)

text \<open>What follows the two listeners: a command printed, a target started, or nothing.\<close>

definition target_command :: "('a, 'c, 'w) run_host \<Rightarrow> runOpts \<Rightarrow> string \<Rightarrow> string \<Rightarrow> Table \<Rightarrow> launch_cmd \<Rightarrow> bool" where
  "target_command h opts target bridge route cmd \<longleftrightarrow>
     (\<exists>inner wd. BuildCommand (rh_goos h) (rh_environ h) (launch_config opts target bridge route) = Inr inner \<and>
        (if ro_workdir opts = [] then rh_getwd h else Some (ro_workdir opts)) = Some wd \<and>
        wrapMountNamespace (rh_goos h) (rh_executable h) inner (ro_adapterSock opts) wd (RemotePrefixes route) = Some cmd)"

lemma run_target_cases:
  obtains c where "run_target h opts target bridge route = ([], Inl c)"
  | cmd where "target_command h opts target bridge route cmd" and "ro_printCmd opts"
      and "run_target h opts target bridge route =
        (map PrintLine (Join (la_Args cmd) '' '' # map (\<lambda>kv. ''env: '' @ kv)
           (injectedEnv (rh_goos h) (launch_config opts target bridge route))), Inr 0)"
  | cmd err where "target_command h opts target bridge route cmd" and "\<not> ro_printCmd opts"
      and "rh_start h cmd = Some err"
      and "run_target h opts target bridge route = ([StartTarget cmd], Inr (rca_exitCode err))"
proof -
  let ?cfg = "launch_config opts target bridge route"
  let ?wd = "if ro_workdir opts = [] then rh_getwd h else Some (ro_workdir opts)"
  show thesis
  proof (cases "BuildCommand (rh_goos h) (rh_environ h) ?cfg")
    case (Inl e)
    then show thesis by (intro that(1)) (simp add: run_target_def exit_run_def)
  next
    case inner: (Inr inner)
    show thesis
    proof (cases ?wd)
      case None
      with inner show thesis by (intro that(1)) (simp add: run_target_def exit_run_def)
    next
      case wd: (Some wd)
      show thesis
      proof (cases "wrapMountNamespace (rh_goos h) (rh_executable h) inner (ro_adapterSock opts) wd (RemotePrefixes route)")
        case None
        with inner wd show thesis by (intro that(1)) (simp add: run_target_def exit_run_def)
      next
        case (Some cmd)
        then have cmd: "target_command h opts target bridge route cmd"
          using inner wd unfolding target_command_def by blast
        have run: "run_target h opts target bridge route =
            (if ro_printCmd opts then
               bind_run (print_lines (Join (la_Args cmd) '' '' # map (\<lambda>kv. ''env: '' @ kv) (injectedEnv (rh_goos h) ?cfg)))
                 (\<lambda>_. ret_run 0)
             else case rh_start h cmd of
               None \<Rightarrow> exit_run 1
             | Some err \<Rightarrow> bind_run (emit (StartTarget cmd)) (\<lambda>_. ret_run (rca_exitCode err)))"
          using inner wd Some by (simp add: run_target_def Let_def)
        show thesis
        proof (cases "ro_printCmd opts")
          case True
          with run show thesis
            by (intro that(2) [OF cmd]) (simp_all add: print_lines_events bind_run_def ret_run_def del: print_lines.simps)
        next
          case False
          show thesis
          proof (cases "rh_start h cmd")
            case None
            with run False show thesis by (intro that(1)) (simp add: exit_run_def)
          next
            case (Some err)
            with run False show thesis by (intro that(3) [OF cmd]) simp_all
          qed
        qed
      qed
    qed
  qed
qed

text \<open>The events between the two listeners.\<close>

definition serving :: "string \<Rightarrow> Table \<Rightarrow> 'a dialer \<Rightarrow> 'a run_event list \<Rightarrow> 'a run_event list" where
  "serving sock route d ev =
     [Listen sock, Listen (sock @ ''.exec''), ServeBridge (sock @ ''.exec'') d, ServeAdapter route d] @ ev @
     [CloseListener (sock @ ''.exec''), CloseListener sock]"

lemma run_services_cases:
  obtains "\<not> rh_listen h (ro_adapterSock opts)" and "run_services h opts target route d = ([], Inl 1)"
  | "\<not> rh_listen h (ro_adapterSock opts @ ''.exec'')"
      and "run_services h opts target route d = ([Listen (ro_adapterSock opts), CloseListener (ro_adapterSock opts)], Inl 1)"
  | ev r where "run_services h opts target route d = (serving (ro_adapterSock opts) route d ev, r)"
      and "if ro_serveFSOnly opts then ev = [] \<and> r = Inr 0
           else run_target h (cross_os_args h d opts) target (ro_adapterSock opts @ ''.exec'') route = (ev, r)"
proof -
  let ?s = "ro_adapterSock opts"
  consider "\<not> rh_listen h ?s" | "rh_listen h ?s" "\<not> rh_listen h (?s @ ''.exec'')" | "rh_listen h ?s" "rh_listen h (?s @ ''.exec'')"
    by blast
  then show thesis
  proof cases
    case 1
    then show thesis by (intro that(1)) (simp_all add: run_services_def with_listener_def exit_run_def)
  next
    case 2
    then show thesis by (intro that(2)) (simp_all add: run_services_def with_listener_def exit_run_def)
  next
    case 3
    then show thesis
      by (intro that(3) [of "if ro_serveFSOnly opts then [] else fst (run_target h (cross_os_args h d opts) target (?s @ ''.exec'') route)"
            "if ro_serveFSOnly opts then Inr 0 else snd (run_target h (cross_os_args h d opts) target (?s @ ''.exec'') route)"])
        (simp_all add: run_services_def with_listener_def serving_def Let_def split: prod.split)
  qed
qed

text \<open>Every run ends in the preparations, or serves with the options, table and transport they ended with.\<close>

lemma cmdRun_cases:
  assumes "cmdRun h args = (ev, code)"
  obtains "list_all preparing ev"
  | opts0 opts1 opts pre route target d ev1 r where
      "parseRunArgs (rh_goos h) (defaultAdapterSock h) args = Inr opts0"
      "snd (route_setup h opts0) = Inr (opts1, route)" "snd (prepare_target h opts1) = Inr target"
      "snd (default_tools h opts1) = Inr opts" "snd (choose_dialer h opts) = Inr d"
      "list_all preparing pre" "run_services h opts target route d = (ev1, r)" "ev = pre @ ev1"
      "code = (case r of Inl c \<Rightarrow> c | Inr c \<Rightarrow> c)"
proof (cases "parseRunArgs (rh_goos h) (defaultAdapterSock h) args")
  case (Inl e)
  with assms show thesis by (intro that(1)) (simp add: cmdRun_def)
next
  case (Inr opts0)
  let ?rest = "\<lambda>(opts, route). bind_run (prepare_target h opts) (\<lambda>target. bind_run (default_tools h opts) (\<lambda>opts.
      bind_run (choose_dialer h opts) (\<lambda>d. run_services h opts target route d)))"
  obtain r where r: "bind_run (route_setup h opts0) ?rest = (ev, r)" "code = (case r of Inl c \<Rightarrow> c | Inr c \<Rightarrow> c)"
    using assms Inr by (cases "bind_run (route_setup h opts0) ?rest") (auto simp: cmdRun_def split: sum.splits)
  note prep = preparing_stages(1,3,4,5) [of h]
  from r(1) show thesis
  proof (cases rule: bind_runE)
    case 1
    then show thesis using prep(1) [of opts0] by (intro that(1)) simp
  next
    case (2 e1 q e2)
    obtain opts1 route where q: "q = (opts1, route)" by fastforce
    have q1: "list_all preparing e1" "snd (route_setup h opts0) = Inr (opts1, route)"
      using 2 prep(1) [of opts0] q by simp_all
    have "bind_run (prepare_target h opts1) (\<lambda>target. bind_run (default_tools h opts1) (\<lambda>opts.
        bind_run (choose_dialer h opts) (\<lambda>d. run_services h opts target route d))) = (e2, r)"
      using 2 q by simp
    then show thesis
    proof (cases rule: bind_runE)
      case 1
      then show thesis using prep(2) [of opts1] q1 2 by (intro that(1)) simp
    next
      case p: (2 e3 target e4)
      from p(2) show thesis
      proof (cases rule: bind_runE)
        case 1
        then show thesis using prep(2,3) [of opts1] q1 2 p by (intro that(1)) simp
      next
        case t: (2 e5 opts e6)
        from t(2) show thesis
        proof (cases rule: bind_runE)
          case 1
          then show thesis using prep(2,3) [of opts1] prep(4) [of opts] q1 2 p t by (intro that(1)) simp
        next
          case d: (2 e7 d e8)
          show thesis
            using prep(2,3) [of opts1] prep(4) [of opts] q1 2 p t d Inr r(2)
            by (intro that(2) [of opts0 opts1 route target opts d "e1 @ e3 @ e5 @ e7" e8 r]) simp_all
        qed
      qed
    qed
  qed
qed

lemma cross_os_frame [simp]:
  "ro_adapterSock (cross_os_args h d opts) = ro_adapterSock opts" "ro_workdir (cross_os_args h d opts) = ro_workdir opts"
  "ro_printCmd (cross_os_args h d opts) = ro_printCmd opts" "ro_supervisor (cross_os_args h d opts) = ro_supervisor opts"
  by (simp_all add: cross_os_args_def Let_def split: option.split)

fun launching :: "'a run_event \<Rightarrow> bool" where
  "launching (PrintLine l) = True"
| "launching (StartTarget c) = True"
| "launching _ = False"

lemma launchingI: "launching (PrintLine l)" "launching (StartTarget c)"
  by simp_all

text \<open>A run that prints or starts a command does it while it serves.\<close>

lemma launching_run:
  assumes "cmdRun h args = (ev, code)" and "e \<in> set ev" and "launching e"
  obtains opts0 opts1 opts pre route target d ev1 r where
      "parseRunArgs (rh_goos h) (defaultAdapterSock h) args = Inr opts0"
      "snd (route_setup h opts0) = Inr (opts1, route)" "snd (prepare_target h opts1) = Inr target"
      "snd (default_tools h opts1) = Inr opts" "list_all preparing pre"
      "ev = pre @ serving (ro_adapterSock opts) route d ev1" "e \<in> set ev1" "\<not> ro_serveFSOnly opts"
      "run_target h (cross_os_args h d opts) target (ro_adapterSock opts @ ''.exec'') route = (ev1, r)"
      "code = (case r of Inl c \<Rightarrow> c | Inr c \<Rightarrow> c)"
proof -
  have quiet: "e \<notin> set xs" if "list_all preparing xs" for xs
    using that assms(3) by (cases e) (auto simp: list_all_iff)
  from assms(1) show thesis
  proof (cases rule: cmdRun_cases)
    case 1
    with quiet assms(2) show thesis by blast
  next
    case run: (2 opts0 opts1 opts pre route target d ev1 r)
    have ev1: "e \<in> set ev1"
      using run(6,8) quiet assms(2) by auto
    show thesis
    proof (cases rule: run_services_cases [of h opts target route d])
      case 1
      with run(7) ev1 show thesis by auto
    next
      case 2
      with run(7) ev1 assms(3) show thesis by auto
    next
      case (3 ev2 r2)
      then have served: "ev1 = serving (ro_adapterSock opts) route d ev2" "r2 = r"
        using run(7) by simp_all
      then have "e \<in> set ev2"
        using ev1 assms(3) by (auto simp: serving_def)
      with 3(2) served run show thesis
        by (intro that [of opts0 opts1 route target opts pre d ev2 r]) (auto split: if_splits)
    qed
  qed
qed

lemma started_run:
  assumes "cmdRun h args = (ev, code)" and "StartTarget cmd \<in> set ev"
  obtains opts0 opts1 opts pre route target d err where
      "parseRunArgs (rh_goos h) (defaultAdapterSock h) args = Inr opts0"
      "snd (route_setup h opts0) = Inr (opts1, route)" "snd (prepare_target h opts1) = Inr target"
      "snd (default_tools h opts1) = Inr opts" "list_all preparing pre"
      "ev = pre @ serving (ro_adapterSock opts) route d [StartTarget cmd]"
      "target_command h (cross_os_args h d opts) target (ro_adapterSock opts @ ''.exec'') route cmd"
      "rh_start h cmd = Some err" "code = rca_exitCode err" "\<not> ro_serveFSOnly opts"
proof (rule launching_run [OF assms launchingI(2)])
  fix opts0 opts1 opts :: runOpts and pre route target d ev1 r
  let ?bridge = "ro_adapterSock opts @ ''.exec''"
  assume run: "parseRunArgs (rh_goos h) (defaultAdapterSock h) args = Inr opts0"
      "snd (route_setup h opts0) = Inr (opts1, route)" "snd (prepare_target h opts1) = Inr target"
      "snd (default_tools h opts1) = Inr opts" "list_all preparing pre"
      "ev = pre @ serving (ro_adapterSock opts) route d ev1" "StartTarget cmd \<in> set ev1" "\<not> ro_serveFSOnly opts"
      "run_target h (cross_os_args h d opts) target ?bridge route = (ev1, r)"
      "code = (case r of Inl c \<Rightarrow> c | Inr c \<Rightarrow> c)"
  show thesis
  proof (cases rule: run_target_cases [of h "cross_os_args h d opts" target ?bridge route])
    case (1 c)
    then show thesis using run by simp
  next
    case (2 c)
    then show thesis using run by auto
  next
    case (3 c err)
    then have "c = cmd" "ev1 = [StartTarget cmd]" "r = Inr (rca_exitCode err)"
      using run by auto
    with 3 run show thesis
      by (intro that [of opts0 opts1 route target opts pre d err]) simp_all
  qed
qed

subsection \<open>Properties\<close>

fun listener_event :: "'a run_event \<Rightarrow> bool" where
  "listener_event (Listen s) = True"
| "listener_event (CloseListener s) = True"
| "listener_event _ = False"

lemma preparing_no_listener: "list_all preparing ev \<Longrightarrow> filter listener_event ev = []"
proof (induction ev)
  case (Cons e ev)
  then show ?case by (cases e) simp_all
qed simp

text \<open>
  Every listener the launcher opens is closed when it returns, in reverse order, on every path: at most the
  adapter's socket and, inside it, the socket of the exec bridge are opened, once each.
\<close>

theorem run_listeners_closed:
  "\<exists>sock. filter listener_event (fst (cmdRun h args)) \<in>
     {[], [Listen sock, CloseListener sock],
      [Listen sock, Listen (sock @ ''.exec''), CloseListener (sock @ ''.exec''), CloseListener sock]}"
proof -
  obtain ev code where run: "cmdRun h args = (ev, code)" by fastforce
  have quiet: "filter listener_event ev = []" if "run_target h o' t b r = (ev, x)" for o' t b r ev x
    using that by (cases rule: run_target_cases [of h o' t b r]) (auto simp: comp_def)
  from run show ?thesis
  proof (cases rule: cmdRun_cases)
    case 1
    with run show ?thesis by (simp add: preparing_no_listener)
  next
    case (2 opts0 opts1 opts pre route target d ev1 r)
    show ?thesis
    proof (cases rule: run_services_cases [of h opts target route d])
      case (3 ev2 r2)
      then have "filter listener_event ev2 = []"
        using quiet by (auto split: if_splits)
      then show ?thesis
        using 2 3 run by (auto simp: preparing_no_listener serving_def)
    qed (use 2 run in \<open>auto simp: preparing_no_listener\<close>)
  qed
qed

text \<open>
  C23: What the target is told is what the launcher serves: the target is started between the opening and the
  closing of both sockets, its environment names these two sockets and the remote prefixes of the very table the
  adapter routes by, adapter and bridge dial the same transport, and the launcher returns the target's exit
  code.
\<close>

theorem run_launch_consistent:
  assumes "cmdRun h args = (ev, code)" and "StartTarget cmd \<in> set ev"
  shows "\<exists>pre sock route d err. list_all preparing pre \<and>
    ev = pre @ [Listen sock, Listen (sock @ ''.exec''), ServeBridge (sock @ ''.exec'') d, ServeAdapter route d,
      StartTarget cmd, CloseListener (sock @ ''.exec''), CloseListener sock] \<and>
    env_get (la_Env cmd) ''RCC_ADAPTER_SOCK'' = Some sock \<and>
    env_get (la_Env cmd) ''RCC_EXECUTOR_SOCK'' = Some (sock @ ''.exec'') \<and>
    env_get (la_Env cmd) ''RCC_REMOTE_PREFIXES'' = Some (Join (RemotePrefixes route) '':'') \<and>
    rh_start h cmd = Some err \<and> code = rca_exitCode err"
proof -
  from assms obtain opts pre route target d err where run:
      "list_all preparing pre" "ev = pre @ serving (ro_adapterSock opts) route d [StartTarget cmd]"
      "target_command h (cross_os_args h d opts) target (ro_adapterSock opts @ ''.exec'') route cmd"
      "rh_start h cmd = Some err" "code = rca_exitCode err"
    by (rule started_run)
  let ?cfg = "launch_config (cross_os_args h d opts) target (ro_adapterSock opts @ ''.exec'') route"
  obtain inner wd where inner: "BuildCommand (rh_goos h) (rh_environ h) ?cfg = Inr inner"
      "wrapMountNamespace (rh_goos h) (rh_executable h) inner (ro_adapterSock opts) wd (RemotePrefixes route) = Some cmd"
    using run(3) by (auto simp: target_command_def)
  note cfg = build_env [OF inner(1)]
  show ?thesis
    using run wrap_env [OF inner(2)] cfg [of "''RCC_ADAPTER_SOCK''"] cfg [of "''RCC_EXECUTOR_SOCK''"] cfg [of "''RCC_REMOTE_PREFIXES''"]
    by (intro exI [of _ pre] exI [of _ "ro_adapterSock opts"] exI [of _ route] exI [of _ d] exI [of _ err])
      (simp add: serving_def launch_config_def)
qed

lemma route_setup_result:
  assumes "snd (route_setup h opts) = Inr (opts', route)"
  shows "ro_args opts' = ro_args opts \<and> ro_command opts' = ro_command opts \<and> ro_workdir opts' = ro_workdir opts \<and>
      ro_serveFSOnly opts' = ro_serveFSOnly opts \<and> ro_printCmd opts' = ro_printCmd opts \<and>
      ro_adapterSock opts' = ro_adapterSock opts \<and> ro_supervisor opts' = ro_supervisor opts \<and> ro_profile opts' = ro_profile opts"
    and "route = New (if ro_defaultRemote opts then ModeLocalAllowlist else ModeRemoteAllowlist)
      (resolvePrefixes (rh_evalSymlinks h) (ro_remotePrefixes opts'))
      (resolvePrefixes (rh_evalSymlinks h) (ro_localPrefixes opts'))"
    and "ro_defaultRemote opts \<Longrightarrow> ro_remotePrefixes opts' = ro_remotePrefixes opts \<and>
      ro_localPrefixes opts' = profileLocalPrefixes (Getenv h) (run_profile opts) @ ro_localPrefixes opts"
    and "\<not> ro_defaultRemote opts \<Longrightarrow> ro_remotePrefixes opts = [] \<Longrightarrow>
      (\<exists>wd. ro_remotePrefixes opts' = [wd] \<and> (if ro_workdir opts = [] then rh_getwd h else Some (ro_workdir opts)) = Some wd)"
  using assms
  by (auto simp: route_setup_def bind_run_def exit_run_def ret_run_def Let_def split: if_splits option.splits)


text \<open>A relative prefix is compared with paths as it is, and none that begins with a slash matches it.\<close>

lemma relative_unmatched:
  assumes "rooted_path path" and "\<not> rooted_path (TrimSpace r)"
  shows "\<not> matchesAny (Clean path) (cleanPrefixes [r])"
proof -
  have path: "rooted_path (Clean path)" and r: "\<not> rooted_path (Clean (TrimSpace r))" "Clean (TrimSpace r) \<noteq> []"
    using assms by simp_all
  have "\<not> HasPrefix (Clean path) (Clean (TrimSpace r) @ ''/'')"
  proof
    assume "HasPrefix (Clean path) (Clean (TrimSpace r) @ ''/'')"
    then obtain rest where "Clean path = Clean (TrimSpace r) @ ''/'' @ rest"
      unfolding HasPrefix_def by (metis append.assoc append_take_drop_id)
    with path r show False by (simp add: rooted_path_def hd_append)
  qed
  moreover have "Clean path \<noteq> Clean (TrimSpace r)"
    using path r(1) by metis
  ultimately show ?thesis by (simp add: Let_def)
qed

text \<open>
  C20: Under \<open>--default-remote\<close> the engine's own state stays local, whatever prefixes the user gives. For each place its
  profile names, after \<open>filepath.EvalSymlinks\<close>, where that succeeds: if that is an absolute path of a directory below
  the root, a path that by its elements is at or below it is never routed to the executor. Paths are compared as they
  are written, so a path that leads there through a symbolic link is not meant. If it is relative, as
  \<open>CODEX_HOME\<close> may be, it protects nothing: no absolute path matches it.
\<close>

theorem engine_state_stays_local:
  assumes "snd (route_setup h opts) = Inr (opts', route)" and "ro_defaultRemote opts"
    and "d \<in> set (profileLocalPrefixes (Getenv h) (run_profile opts))"
    and "r = (case rh_evalSymlinks h d of None \<Rightarrow> d | Some r \<Rightarrow> r)" and "rooted_path path"
  shows "(proper_prefix r \<and> covered [r] path \<longrightarrow> \<not> IsRemote route path) \<and>
    (\<not> rooted_path (TrimSpace r) \<longrightarrow> \<not> matchesAny (Clean path) (cleanPrefixes [r]))"
proof
  show "proper_prefix r \<and> covered [r] path \<longrightarrow> \<not> IsRemote route path"
  proof
    assume r: "proper_prefix r \<and> covered [r] path"
    then have "matchesAny (Clean path) (cleanPrefixes [r])"
      using matchesAny_covered [OF assms(5), of "[r]"] by simp
    moreover have "r \<in> set (resolvePrefixes (rh_evalSymlinks h) (ro_localPrefixes opts'))"
      using route_setup_result(3) [OF assms(1,2)] assms(3,4) by (auto simp: resolvePrefixes_def split: option.split)
    ultimately have "matchesAny (Clean path) (cleanPrefixes (resolvePrefixes (rh_evalSymlinks h) (ro_localPrefixes opts')))"
      using matchesAny_mono [of "[r]"] by simp
    then show "\<not> IsRemote route path"
      using route_setup_result(2) [OF assms(1)] assms(2,5) by (auto simp: IsRemote_def New_def rooted_path_def)
  qed
  show "\<not> rooted_path (TrimSpace r) \<longrightarrow> \<not> matchesAny (Clean path) (cleanPrefixes [r])"
    using relative_unmatched [OF assms(5)] by blast
qed

text \<open>
  With no routing flag exactly the working directory is remote: the one given by \<open>--workdir\<close>, else the
  launcher's own, after \<open>filepath.EvalSymlinks\<close>, and all below it.
\<close>

theorem default_routes_workdir:
  assumes "snd (route_setup h opts) = Inr (opts', route)" and "\<not> ro_defaultRemote opts" and "ro_remotePrefixes opts = []"
    and "(if ro_workdir opts = [] then rh_getwd h else Some (ro_workdir opts)) = Some wd"
    and "r = (case rh_evalSymlinks h wd of None \<Rightarrow> wd | Some r \<Rightarrow> r)"
    and "proper_prefix r" and "rooted_path path"
  shows "IsRemote route path \<longleftrightarrow> covered [r] path"
proof -
  have "resolvePrefixes (rh_evalSymlinks h) (ro_remotePrefixes opts') = [r]"
    using route_setup_result(4) [OF assms(1-3)] assms(4,5) by (auto simp: resolvePrefixes_def split: option.split)
  then show ?thesis
    using route_setup_result(2) [OF assms(1)] assms(2,6,7) matchesAny_covered [OF assms(7), of "[r]"]
    by (auto simp: IsRemote_def New_def rooted_path_def)
qed

lemma injectedEnv_added: "injectedEnv goos cfg = map entry (added_vars cfg) @ map entry (dylib_vars goos cfg)"
  by (simp add: injectedEnv_def added_vars_def dylib_vars_def entry_def env_names Let_def)

text \<open>
  \<open>--print-cmd\<close> tells the truth: what it prints is the argument vector of the command the launcher would
  start and exactly the variables that command's environment has beyond the launcher's, and nothing is started.
\<close>

theorem print_cmd_accurate:
  assumes "cmdRun h args = (ev, code)" and "PrintLine l \<in> set ev"
  shows "\<exists>opts target route cmd envs.
    target_command h opts target (ro_adapterSock opts @ ''.exec'') route cmd \<and> la_Env cmd = rh_environ h @ envs \<and>
    filter (\<lambda>e. \<exists>l. e = PrintLine l) ev = map PrintLine (Join (la_Args cmd) '' '' # map (\<lambda>kv. ''env: '' @ kv) envs) \<and>
    (\<forall>c. StartTarget c \<notin> set ev) \<and> code = 0"
proof (rule launching_run [OF assms launchingI(1)])
  fix opts0 opts1 opts :: runOpts and pre route target d ev1 r
  let ?opts = "cross_os_args h d opts"
  let ?bridge = "ro_adapterSock opts @ ''.exec''"
  let ?cfg = "launch_config ?opts target ?bridge route"
  assume run: "list_all preparing pre" "ev = pre @ serving (ro_adapterSock opts) route d ev1" "PrintLine l \<in> set ev1"
      "run_target h ?opts target ?bridge route = (ev1, r)" "code = (case r of Inl c \<Rightarrow> c | Inr c \<Rightarrow> c)"
  have quiet: "filter (\<lambda>e. \<exists>l. e = PrintLine l) pre = []" "StartTarget c \<notin> set pre" for c
    using run(1) by (auto simp: list_all_iff filter_empty_conv)
  show ?thesis
  proof (cases rule: run_target_cases [of h ?opts target ?bridge route])
    case (1 c)
    then show ?thesis using run by simp
  next
    case (3 c err)
    then show ?thesis using run by simp
  next
    case printed: (2 cmd)
    then obtain inner wd where inner: "BuildCommand (rh_goos h) (rh_environ h) ?cfg = Inr inner"
        "wrapMountNamespace (rh_goos h) (rh_executable h) inner (ro_adapterSock opts) wd (RemotePrefixes route) = Some cmd"
      by (auto simp: target_command_def)
    have env: "la_Env cmd = rh_environ h @ injectedEnv (rh_goos h) ?cfg"
      using BuildCommand_env [OF inner(1)] wrap_env [OF inner(2)] by (simp add: injectedEnv_added launch_config_def)
    have ev1: "ev1 = map PrintLine (Join (la_Args cmd) '' '' # map (\<lambda>kv. ''env: '' @ kv) (injectedEnv (rh_goos h) ?cfg))"
        and r: "r = Inr 0"
      using printed run by simp_all
    have "filter (\<lambda>e. \<exists>l. e = PrintLine l) ev1 = ev1" "\<forall>c. StartTarget c \<notin> set ev1"
      unfolding ev1 by (auto simp: filter_id_conv)
    then show ?thesis
      using printed(1) env ev1 r run(2,5) quiet
      by (intro exI [of _ ?opts] exI [of _ target] exI [of _ route] exI [of _ cmd] exI [of _ "injectedEnv (rh_goos h) ?cfg"])
        (simp add: serving_def)
  qed
qed



lemma linux_command:
  assumes "target_command h opts target bridge route cmd" and "rh_goos h = ''linux''" and "ro_adapterSock opts \<noteq> []"
  shows "\<exists>self wd a. rh_executable h = Some self \<and>
    (if ro_workdir opts = [] then rh_getwd h else Some (ro_workdir opts)) = Some wd \<and>
    dispatch (tl (la_Args cmd)) = CmdNsRun a \<and> cmdNsRun a = NsOuter a \<and>
    (\<exists>a'. dispatch (tl (la_Args (np_cmd (outer_process self uid gid a)))) = CmdNsRun a' \<and>
       cmdNsRun a' = NsInner (ro_adapterSock opts) wd (RemotePrefixes route) (ro_supervisor opts # target # ro_args opts))"
proof -
  obtain inner wd where inner: "BuildCommand ''linux'' (rh_environ h) (launch_config opts target bridge route) = Inr inner"
      "(if ro_workdir opts = [] then rh_getwd h else Some (ro_workdir opts)) = Some wd"
      "wrapMountNamespace ''linux'' (rh_executable h) inner (ro_adapterSock opts) wd (RemotePrefixes route) = Some cmd"
    using assms(1,2) by (auto simp: target_command_def)
  then obtain self where self: "rh_executable h = Some self"
    by (cases "rh_executable h") (auto simp: wrapMountNamespace_def)
  have args: "la_Args inner = ro_supervisor opts # target # ro_args opts"
    using inner(1) by (auto simp: BuildCommand_def Let_def launch_config_def Command_def split: if_splits)
  then obtain a where "dispatch (tl (la_Args cmd)) = CmdNsRun a" "cmdNsRun a = NsOuter a"
      "\<exists>a'. dispatch (tl (la_Args (np_cmd (outer_process self uid gid a)))) = CmdNsRun a' \<and>
         cmdNsRun a' = NsInner (ro_adapterSock opts) wd (RemotePrefixes route) (la_Args inner)"
    using namespace_argv [of self inner "ro_adapterSock opts" wd "RemotePrefixes route" cmd uid gid] inner(3) self assms(3)
    by fastforce
  with self inner(2) args show ?thesis by (intro exI [of _ self] exI [of _ wd] exI [of _ a]) simp
qed


text \<open>
  C35: \<open>--default-remote\<close> without \<open>--remote-prefix\<close> routes nothing: the adapter would send every path outside the
  local prefixes to the executor, but the target is told an empty list of remote prefixes and on Linux not one
  directory is mounted, so none of its accesses ever reaches the adapter.
\<close>

theorem default_remote_reaches_nothing:
  assumes "parseRunArgs (rh_goos h) (defaultAdapterSock h) args = Inr opts" and "ro_defaultRemote opts"
    and "ro_remotePrefixes opts = []" and "cmdRun h args = (ev, code)" and "StartTarget cmd \<in> set ev"
    and "Listen [] \<notin> set ev"
  shows "env_get (la_Env cmd) ''RCC_REMOTE_PREFIXES'' = Some [] \<and>
    (\<exists>route d. ServeAdapter route d \<in> set ev \<and> tb_mode route = ModeLocalAllowlist) \<and>
    (rh_goos h = ''linux'' \<longrightarrow> (\<exists>self sock wd a a' target. dispatch (tl (la_Args cmd)) = CmdNsRun a \<and>
       dispatch (tl (la_Args (np_cmd (outer_process self uid gid a)))) = CmdNsRun a' \<and>
       cmdNsRun a' = NsInner sock wd [] target))"
proof (rule started_run [OF assms(4,5)])
  fix opts0 opts1 opts2 :: runOpts and pre route target d err
  assume run: "parseRunArgs (rh_goos h) (defaultAdapterSock h) args = Inr opts0"
      "snd (route_setup h opts0) = Inr (opts1, route)"
      "ev = pre @ serving (ro_adapterSock opts2) route d [StartTarget cmd]"
      "target_command h (cross_os_args h d opts2) target (ro_adapterSock opts2 @ ''.exec'') route cmd"
  have opts: "opts0 = opts"
    using run(1) assms(1) by simp
  have route: "RemotePrefixes route = []" "tb_mode route = ModeLocalAllowlist"
    using route_setup_result(2,3) [OF run(2)] assms(2,3) opts
    by (simp_all add: New_def RemotePrefixes_def resolvePrefixes_def)
  let ?cfg = "launch_config (cross_os_args h d opts2) target (ro_adapterSock opts2 @ ''.exec'') route"
  obtain inner wd where inner: "BuildCommand (rh_goos h) (rh_environ h) ?cfg = Inr inner"
      "wrapMountNamespace (rh_goos h) (rh_executable h) inner (ro_adapterSock opts2) wd (RemotePrefixes route) = Some cmd"
    using run(4) by (auto simp: target_command_def)
  have "env_get (la_Env cmd) ''RCC_REMOTE_PREFIXES'' = Some []"
    using build_env [OF inner(1), of "''RCC_REMOTE_PREFIXES''"] wrap_env [OF inner(2)] route
    by (simp add: launch_config_def)
  moreover have "ro_adapterSock opts2 \<noteq> []"
    using assms(6) run(3) by (auto simp: serving_def)
  then have "rh_goos h = ''linux'' \<longrightarrow> (\<exists>self sock wd a a' target. dispatch (tl (la_Args cmd)) = CmdNsRun a \<and>
       dispatch (tl (la_Args (np_cmd (outer_process self uid gid a)))) = CmdNsRun a' \<and>
       cmdNsRun a' = NsInner sock wd [] target)"
    using linux_command [OF run(4), unfolded cross_os_frame, of uid gid] route(1) by metis
  moreover have "ServeAdapter route d \<in> set ev"
    using run(3) by (simp add: serving_def)
  ultimately show ?thesis
    using route(2) by blast
qed

subsection \<open>A run on Linux, for the witnesses\<close>

definition linux_host :: "(bytes, unit, unit) run_host" where
  "linux_host = \<lparr>rh_goos = ''linux'', rh_environ = [''RCC_ADAPTER_SOCK=/old'', ''HOME=/h''], rh_tempDir = ''/tmp'',
     rh_pid = 7, rh_getwd = Some ''/w'', rh_evalSymlinks = (\<lambda>p. None), rh_lookPath = (\<lambda>n. Some ''/bin/vi''),
     rh_exists = (\<lambda>p. False), rh_codesignInfo = (\<lambda>p. None), rh_prepareCopy = (\<lambda>s d. False),
     rh_executable = Some ''/rca'', rh_extractNative = (\<lambda>n. Some ''/sup''), rh_viaPipes = True,
     rh_viaStart = (\<lambda>c. True), rh_viaDialer = True, rh_net = plain_net, rh_libp2pHost = True,
     rh_listen = (\<lambda>s. True),
     rh_link = (\<lambda>d. \<lparr>lk_dial = (\<lambda>w. (None, w)), lk_write = (\<lambda>c bs w. (None, w)),
       lk_read = (\<lambda>c n w. (Inl EOF, w)), lk_close = (\<lambda>c w. w)\<rparr>),
     rh_world = (), rh_start = (\<lambda>c. Some (Some (ExitError (Exited 3))))\<rparr>"

definition sample_line :: "string list" where
  "sample_line = [''vi'', ''--sock=/x'', ''a'', ''--adapter-sock=/s'']"

definition sample_opts :: runOpts where
  "sample_opts = (default_opts ''linux'' (defaultAdapterSock linux_host))
     \<lparr>ro_command := ''vi'', ro_args := [''a''], ro_sock := ''/x'', ro_adapterSock := ''/s''\<rparr>"

definition sample_flags :: "bool \<Rightarrow> bool \<Rightarrow> string list" where
  "sample_flags dr pr = (if dr then [''--default-remote''] else []) @ (if pr then [''--print-cmd''] else [])"

definition sample_run_opts :: "bool \<Rightarrow> bool \<Rightarrow> runOpts" where
  "sample_run_opts dr pr = sample_opts\<lparr>ro_defaultRemote := dr, ro_printCmd := pr\<rparr>"

lemma sample_parse:
  "parseRunArgs ''linux'' (defaultAdapterSock linux_host) (sample_line @ sample_flags dr pr) = Inr (sample_run_opts dr pr)"
  by (simp add: sample_line_def sample_flags_def parseRunArgs_def is_flag_def HasPrefix_def split_flag_def ownedFlags_def
      set_flag_def setBool_flag_def take_word_def check_opts_def btoi_def sample_run_opts_def sample_opts_def default_opts_def)

lemma route_setup_returns:
  assumes "rh_getwd h = Some wd"
  shows "\<exists>ls rs r. route_setup h opts = ret_run (opts\<lparr>ro_localPrefixes := ls, ro_remotePrefixes := rs\<rparr>, r)"
proof (cases opts)
  case (fields a b c d e f g h i j k l m n o p q r s)
  then show ?thesis
    using assms by (auto simp: route_setup_def Let_def)
qed

lemma sample_fields:
  "ro_remotePrefixes (sample_run_opts dr pr) = []" "ro_defaultRemote (sample_run_opts dr pr) = dr"
  "ro_printCmd (sample_run_opts dr pr) = pr" "ro_workdir (sample_run_opts dr pr) = []"
  "ro_serveFSOnly (sample_run_opts dr pr) = False" "ro_command (sample_run_opts dr pr) = ''vi''"
  "ro_spawnProxy (sample_run_opts dr pr) = []" "ro_dylib (sample_run_opts dr pr) = []"
  "ro_supervisor (sample_run_opts dr pr) = []" "ro_via (sample_run_opts dr pr) = []"
  "ro_code (sample_run_opts dr pr) = []" "ro_peer (sample_run_opts dr pr) = []"
  "ro_sock (sample_run_opts dr pr) = ''/x''" "ro_adapterSock (sample_run_opts dr pr) = ''/s''"
  by (simp_all add: sample_run_opts_def sample_opts_def default_opts_def)

lemma linux_host_fields:
  "rh_goos linux_host = ''linux''" "rh_getwd linux_host = Some ''/w''" "rh_evalSymlinks linux_host p = None"
  "rh_lookPath linux_host n = Some ''/bin/vi''" "rh_executable linux_host = Some ''/rca''"
  "rh_extractNative linux_host n = Some ''/sup''" "rh_listen linux_host n = True"
  "rh_start linux_host c = Some (Some (ExitError (Exited 3)))"
  "rh_environ linux_host = [''RCC_ADAPTER_SOCK=/old'', ''HOME=/h'']"
  by (simp_all add: linux_host_def)

lemma sample_run:
  "\<exists>cmd route ls. cmdRun linux_host (sample_line @ sample_flags dr pr) =
     (serving ''/s'' route (UnixDialer ''/x'') (if pr then PrintLine (Join (la_Args cmd) '' '') # ls else [StartTarget cmd]),
      if pr then 0 else 3)"
proof -
  have probe: "probe_loop 2 (rh_link linux_host d) w = None" for d w
    by (simp add: linux_host_def numeral_2_eq_2 QueryServerInfo_def)
  have route: "\<exists>ls rs r. route_setup linux_host (sample_run_opts dr pr) =
      ret_run ((sample_run_opts dr pr)\<lparr>ro_localPrefixes := ls, ro_remotePrefixes := rs\<rparr>, r)"
    by (rule route_setup_returns) (rule linux_host_fields(2))
  show ?thesis
    unfolding cmdRun_def linux_host_fields(1) sample_parse
    using route
    by (auto simp: bind_run_def prepare_target_def default_tools_def choose_dialer_def run_services_def ret_run_def emit_def
        with_listener_def run_target_def cross_os_args_def probe sample_fields linux_host_fields BuildCommand_def
        launch_config_def wrapMountNamespace_def Let_def serving_def rca_exitCode_def nativeArtifactName_def
        print_lines_events simp del: print_lines.simps)
qed

lemma linux_starts:
  obtains ev cmd where "cmdRun linux_host (sample_line @ sample_flags dr False) = (ev, 3)" and "StartTarget cmd \<in> set ev"
    and "Listen [] \<notin> set ev"
  using sample_run [of dr False] by (auto simp: serving_def)

theorem run_launch_consistent_witness:
  "\<exists>ev cmd sock. cmdRun linux_host (sample_line @ sample_flags False False) = (ev, 3) \<and> StartTarget cmd \<in> set ev \<and>
     Listen sock \<in> set ev \<and> env_get (la_Env cmd) ''RCC_ADAPTER_SOCK'' = Some sock"
proof -
  obtain ev cmd where run: "cmdRun linux_host (sample_line @ sample_flags False False) = (ev, 3)" "StartTarget cmd \<in> set ev"
    by (rule linux_starts)
  then show ?thesis
    using run_launch_consistent [OF run] by fastforce
qed


theorem default_remote_reaches_nothing_witness:
  "\<exists>ev cmd route d. cmdRun linux_host (sample_line @ sample_flags True False) = (ev, 3) \<and> StartTarget cmd \<in> set ev \<and>
     env_get (la_Env cmd) ''RCC_REMOTE_PREFIXES'' = Some [] \<and>
     ServeAdapter route d \<in> set ev \<and> tb_mode route = ModeLocalAllowlist"
proof -
  obtain ev cmd where run: "cmdRun linux_host (sample_line @ sample_flags True False) = (ev, 3)" "StartTarget cmd \<in> set ev"
      "Listen [] \<notin> set ev"
    by (rule linux_starts)
  have opts: "parseRunArgs (rh_goos linux_host) (defaultAdapterSock linux_host) (sample_line @ sample_flags True False) =
      Inr (sample_run_opts True False)"
    unfolding linux_host_fields(1) by (rule sample_parse)
  show ?thesis
    using run default_remote_reaches_nothing [OF opts _ _ run] by (fastforce simp: sample_fields)
qed

theorem print_cmd_accurate_witness:
  "\<exists>ev envs. \<exists>cmd :: launch_cmd. cmdRun linux_host (sample_line @ sample_flags False True) = (ev, 0) \<and>
     filter (\<lambda>e. \<exists>l. e = PrintLine l) ev = map PrintLine (Join (la_Args cmd) '' '' # map (\<lambda>kv. ''env: '' @ kv) envs) \<and>
     la_Env cmd = [''RCC_ADAPTER_SOCK=/old'', ''HOME=/h''] @ envs"
proof -
  obtain cmd :: launch_cmd and route ls where "cmdRun linux_host (sample_line @ sample_flags False True) =
      (serving ''/s'' route (UnixDialer ''/x'') (PrintLine (Join (la_Args cmd) '' '') # ls), 0)"
    using sample_run [of False True] unfolding if_True by blast
  moreover have "PrintLine l \<in> set (serving s route d (PrintLine l # ls))" for l s d
    by (simp add: serving_def)
  ultimately obtain ev l where run: "cmdRun linux_host (sample_line @ sample_flags False True) = (ev, 0)" "PrintLine l \<in> set ev"
    by blast
  then show ?thesis
    using print_cmd_accurate [OF run] unfolding linux_host_fields by blast
qed

lemma workdir_prefix: "proper_prefix ''/w''" "rooted_path ''/w/a''" "covered [''/w''] ''/w/a''" "\<not> covered [''/w''] ''/wa''"
proof -
  have trim: "TrimSpace ''/w'' = ''/w''"
    by (rule TrimSpace_graphic) (simp add: graphic_def)
  show "proper_prefix ''/w''" "rooted_path ''/w/a''" "covered [''/w''] ''/w/a''" "\<not> covered [''/w''] ''/wa''"
    by (simp_all add: proper_prefix_def covered_def trim rooted_path_def path_elems_def clean_elems_def push_elem_def
        elems.simps)
qed

theorem default_routes_workdir_witness:
  "\<exists>opts' route. snd (route_setup linux_host (sample_run_opts False False)) = Inr (opts', route) \<and>
     IsRemote route ''/w/a'' \<and> \<not> IsRemote route ''/wa''"
proof -
  obtain opts' route where returns: "snd (route_setup linux_host (sample_run_opts False False)) = Inr (opts', route)"
    using route_setup_returns [OF linux_host_fields(2), of "sample_run_opts False False"] by auto
  have "rooted_path ''/wa''" by (simp add: rooted_path_def)
  then show ?thesis
    using returns workdir_prefix default_routes_workdir [OF returns, of "''/w''" "''/w''"]
    by (auto simp: sample_fields linux_host_fields)
qed

lemma home_state:
  "''/h/.claude'' \<in> set (profileLocalPrefixes (Getenv linux_host) ''claude'')"
  "proper_prefix ''/h/.claude''" "covered [''/h/.claude''] ''/h/.claude/credentials''"
proof -
  have trim: "TrimSpace ''/h/.claude'' = ''/h/.claude''"
    by (rule TrimSpace_graphic) (simp add: graphic_def)
  have path: "JoinPath [''/h'', ''.claude''] = ''/h/.claude''"
    by (simp add: JoinPath_def Clean_def clean_loop.simps)
  then show "''/h/.claude'' \<in> set (profileLocalPrefixes (Getenv linux_host) ''claude'')"
    by (simp add: profileLocalPrefixes_def engineProfiles_def Getenv_def linux_host_fields env_get_def HasPrefix_def Let_def)
  show "proper_prefix ''/h/.claude''" "covered [''/h/.claude''] ''/h/.claude/credentials''"
    by (simp_all add: proper_prefix_def covered_def trim rooted_path_def path_elems_def clean_elems_def push_elem_def
        elems.simps)
qed

theorem engine_state_stays_local_witness:
  "\<exists>opts' route. snd (route_setup linux_host ((sample_run_opts True False)\<lparr>ro_profile := ''claude''\<rparr>)) = Inr (opts', route) \<and>
     \<not> IsRemote route ''/h/.claude/credentials''"
proof -
  let ?opts = "(sample_run_opts True False)\<lparr>ro_profile := ''claude''\<rparr>"
  obtain opts' route where returns: "snd (route_setup linux_host ?opts) = Inr (opts', route)"
    using route_setup_returns [OF linux_host_fields(2), of ?opts] by auto
  have "run_profile ?opts = ''claude''"
    by (simp add: run_profile_def)
  then show ?thesis
    using returns home_state engine_state_stays_local [OF returns, of "''/h/.claude''" "''/h/.claude''" "''/h/.claude/credentials''", THEN conjunct1]
    by (auto simp: sample_fields linux_host_fields rooted_path_def)
qed

end
