(* ===== verification/RelayClient.thy ===== *)
theory RelayClient
  imports Libp2p
begin

section \<open>Relay reservations (internal/transport/relay_client.go)\<close>

text \<open>
  A host behind a NAT reserves a slot on each relay and renews it in time. Times are integers in nanoseconds, as
  the clock of the host counts them; a \<open>time.Duration\<close> is a 64-bit word, and \<open>time.Until\<close> saturates at its
  bounds. The record \<open>relay_host\<close> says whether a relay can be connected and until when it grants a slot.
\<close>

record 'a relay_host =
  rl_Connect :: "'a AddrInfo \<Rightarrow> bool"
  rl_Reserve :: "'a AddrInfo \<Rightarrow> int option"

definition reserveOnce :: "'a relay_host \<Rightarrow> 'a AddrInfo \<Rightarrow> int option" where
  "reserveOnce h ai = (if length (ai_Addrs ai) > 0 \<and> \<not> rl_Connect h ai then None else rl_Reserve h ai)"

text \<open>The relays reserved, with the end of each reservation, which starts the loop that renews it.\<close>

fun reserve_loop :: "'a relay_host \<Rightarrow> 'a AddrInfo list \<Rightarrow> (string \<times> int) list" where
  "reserve_loop h [] = []"
| "reserve_loop h (ai # ais) =
     (case reserveOnce h ai of
        None \<Rightarrow> reserve_loop h ais
      | Some expiration \<Rightarrow> (ai_ID ai, expiration) # reserve_loop h ais)"

definition ReserveRelays :: "'a net_lib \<Rightarrow> 'a relay_host \<Rightarrow> string list \<Rightarrow> string list" where
  "ReserveRelays nl h relayAddrs = map fst (reserve_loop h (parseAddrInfos nl relayAddrs))"

lemma reserve_loop_iff:
  "(i, e) \<in> set (reserve_loop h ais) \<longleftrightarrow> (\<exists>ai \<in> set ais. ai_ID ai = i \<and> reserveOnce h ai = Some e)"
  by (induction ais) (auto split: option.split)

lemma ReserveRelays_iff:
  "i \<in> set (ReserveRelays nl h relays) \<longleftrightarrow>
     (\<exists>ai \<in> set (parseAddrInfos nl relays). ai_ID ai = i \<and> reserveOnce h ai \<noteq> None)"
  using reserve_loop_iff [of i _ h] by (force simp: ReserveRelays_def)

subsection \<open>Renewal\<close>

definition Second :: int where
  "Second = 1000000000"

definition Minute :: int where
  "Minute = 60 * Second"

definition Until :: "int \<Rightarrow> int \<Rightarrow> i64" where
  "Until now t = word_of_int (max (- (2 ^ 63)) (min (2 ^ 63 - 1) (t - now)))"

text \<open>How long the loop sleeps before it renews: until five minutes before the end, at least a minute.\<close>

definition refresh_wait :: "int \<Rightarrow> int \<Rightarrow> i64" where
  "refresh_wait now expiry =
     (let wait = Until now expiry - word_of_int (5 * Minute)
      in if sint wait < Minute then word_of_int Minute else wait)"

text \<open>
  A renewal: how late the timer fires, how long the exchange with the relay takes, and its result, the new end of
  the reservation.
\<close>

record renewal =
  rn_late :: int
  rn_takes :: int
  rn_result :: "int option"

text \<open>
  The loop on a list of renewals, up to the end of its context: when each of them ended and what it gave. After
  a failure the end is set to two minutes from then, which makes the loop try again after a minute.
\<close>

fun refreshLoop :: "int \<Rightarrow> int \<Rightarrow> renewal list \<Rightarrow> (int \<times> int option) list" where
  "refreshLoop now expiry [] = []"
| "refreshLoop now expiry (a # as) =
     (let now = now + sint (refresh_wait now expiry) + rn_late a + rn_takes a
      in (now, rn_result a) #
         (case rn_result a of
            None \<Rightarrow> refreshLoop now (now + 2 * Minute) as
          | Some expiry \<Rightarrow> refreshLoop now expiry as))"

text \<open>
  Each time the loop sleeps on such a list, the last one included, at whose end its context may end: when, the end of the
  reservation it then has, and how long.
\<close>

fun refresh_sleeps :: "int \<Rightarrow> int \<Rightarrow> renewal list \<Rightarrow> (int \<times> int \<times> int) list" where
  "refresh_sleeps now expiry [] = [(now, expiry, sint (refresh_wait now expiry))]"
| "refresh_sleeps now expiry (a # as) =
     (now, expiry, sint (refresh_wait now expiry)) #
     (let now = now + sint (refresh_wait now expiry) + rn_late a + rn_takes a
      in refresh_sleeps now (case rn_result a of None \<Rightarrow> now + 2 * Minute | Some expiry \<Rightarrow> expiry) as)"

text \<open>The slot is never lost: each renewal that succeeds ends before the reservation it renews.\<close>

fun slot_held :: "int \<Rightarrow> (int \<times> int option) list \<Rightarrow> bool" where
  "slot_held expiry [] = True"
| "slot_held expiry ((t, r) # rs) =
     (case r of None \<Rightarrow> slot_held expiry rs | Some e \<Rightarrow> t \<le> expiry \<and> slot_held e rs)"

text \<open>
  Renewals that behave: each takes at most half a minute (the timeout of \<open>reserveOnce\<close>) with its delay, a slot
  granted lasts six minutes, and at most \<open>k\<close> failures come first, three between two successes.
\<close>

fun renewals_ok :: "nat \<Rightarrow> int \<Rightarrow> int \<Rightarrow> renewal list \<Rightarrow> bool" where
  "renewals_ok k now expiry [] = True"
| "renewals_ok k now expiry (a # as) =
     (let now = now + sint (refresh_wait now expiry) + rn_late a + rn_takes a
      in 0 \<le> rn_late a \<and> 0 \<le> rn_takes a \<and> rn_late a + rn_takes a \<le> 30 * Second \<and>
         (case rn_result a of
            None \<Rightarrow> 0 < k \<and> renewals_ok (k - 1) now (now + 2 * Minute) as
          | Some e \<Rightarrow> now + 6 * Minute \<le> e \<and> renewals_ok 3 now e as))"

lemma sint_i64: "- (2 ^ 63) \<le> n \<Longrightarrow> n < 2 ^ 63 \<Longrightarrow> sint (word_of_int n :: i64) = n"
  by (simp add: sint_sbintrunc' signed_take_bit_int_eq_self)

lemmas minutes = Minute_def Second_def

text \<open>No overflow: the wait is what the text says, in integers, for a reservation that has not ended long ago.\<close>

lemma refresh_wait_int:
  assumes "now - Minute \<le> expiry"
  shows "sint (refresh_wait now expiry) = max Minute (min (2 ^ 63 - 1) (expiry - now) - 5 * Minute)"
proof -
  let ?u = "max (- (2 ^ 63)) (min (2 ^ 63 - 1) (expiry - now)) :: int"
  have u: "- (10 * Minute) \<le> ?u - 5 * Minute" "?u - 5 * Minute < 2 ^ 63" "?u = min (2 ^ 63 - 1) (expiry - now)"
    using assms by (simp_all add: minutes)
  have "sint (Until now expiry - word_of_int (5 * Minute)) = ?u - 5 * Minute"
    unfolding Until_def wi_hom_sub using u by (intro sint_i64) (simp_all add: minutes)
  moreover have "sint (word_of_int Minute :: i64) = Minute"
    by (rule sint_i64) (simp_all add: minutes)
  ultimately show ?thesis
    unfolding refresh_wait_def Let_def u(3) by (simp only: if_distrib [of sint] max_def) auto
qed

text \<open>After \<open>3 - k\<close> failures in a row the clock has not passed the last moment from which \<open>k\<close> more leave time.\<close>

lemma slot_held_loop:
  assumes "renewals_ok k now expiry as" and "k \<le> 3"
    and "expiry = held \<and> now + 6 * Minute \<le> expiry \<and> k = 3 \<or>
      expiry = now + 2 * Minute \<and> now + (int k + 1) * (90 * Second) \<le> held"
  shows "slot_held held (refreshLoop now expiry as)"
  using assms
proof (induction as arbitrary: k now expiry held)
  case Nil
  then show ?case by simp
next
  case (Cons a as)
  let ?now = "now + sint (refresh_wait now expiry) + rn_late a + rn_takes a"
  have late: "rn_late a + rn_takes a \<le> 30 * Second"
    using Cons.prems(1) by (simp add: Let_def)
  have "now - Minute \<le> expiry"
    using Cons.prems(3) by (auto simp: minutes)
  note wait = refresh_wait_int [OF this]
  have ends: "?now + int k * (90 * Second) \<le> held"
    using Cons.prems(3)
  proof
    assume fresh: "expiry = held \<and> now + 6 * Minute \<le> expiry \<and> k = 3"
    then have "sint (refresh_wait now expiry) \<le> expiry - now - 5 * Minute"
      unfolding wait by (auto simp: minutes)
    with late fresh show ?thesis by (simp add: minutes)
  next
    assume retry: "expiry = now + 2 * Minute \<and> now + (int k + 1) * (90 * Second) \<le> held"
    then have "sint (refresh_wait now expiry) = Minute"
      unfolding wait by (simp add: minutes)
    with late retry show ?thesis by (simp add: minutes algebra_simps)
  qed
  show ?case
  proof (cases "rn_result a")
    case None
    then have k: "0 < k" "renewals_ok (k - 1) ?now (?now + 2 * Minute) as"
      using Cons.prems(1) by (simp_all add: Let_def)
    have "int (k - 1) + 1 = int k"
      using k(1) by simp
    then have "slot_held held (refreshLoop ?now (?now + 2 * Minute) as)"
      using Cons.IH [OF k(2), of held] Cons.prems(2) ends by simp
    with None show ?thesis by (simp add: Let_def)
  next
    case (Some e)
    then have "?now + 6 * Minute \<le> e" "renewals_ok 3 ?now e as"
      using Cons.prems(1) by (simp_all add: Let_def)
    moreover have "0 \<le> int k * (90 * Second)"
      by (simp add: Second_def)
    with ends have "?now \<le> held" by linarith
    ultimately show ?thesis
      using Cons.IH [of 3 ?now e e] Some by (simp add: Let_def)
  qed
qed

text \<open>No sleep is computed with an overflow: a failure leaves two minutes, a success at least six.\<close>

lemma refresh_sleeps_exact:
  "renewals_ok k now expiry as \<Longrightarrow> now - Minute \<le> expiry \<Longrightarrow>
   (t, e, d) \<in> set (refresh_sleeps now expiry as) \<Longrightarrow> d = max Minute (min (2 ^ 63 - 1) (e - t) - 5 * Minute)"
proof (induction as arbitrary: k now expiry)
  case Nil
  then show ?case by (simp add: refresh_wait_int)
next
  case (Cons a as)
  let ?now = "now + sint (refresh_wait now expiry) + rn_late a + rn_takes a"
  let ?e = "case rn_result a of None \<Rightarrow> ?now + 2 * Minute | Some e \<Rightarrow> e"
  have "\<exists>k. renewals_ok k ?now ?e as" "?now - Minute \<le> ?e"
    using Cons.prems(1) by (auto simp: Let_def minutes split: option.splits)
  then have later: "(t, e, d) \<in> set (refresh_sleeps ?now ?e as) \<Longrightarrow> ?case"
    using Cons.IH by blast
  have "(t, e, d) = (now, expiry, sint (refresh_wait now expiry)) \<or> (t, e, d) \<in> set (refresh_sleeps ?now ?e as)"
    using Cons.prems(3) by (simp add: Let_def)
  with later refresh_wait_int [OF Cons.prems(2)] show ?case by blast
qed

subsection \<open>Properties\<close>

text \<open>
  C17: A reservation does not lapse: if the relay grants a slot for six minutes or more and each renewal ends
  within half a minute, the loop renews it before it ends however long it runs, also when up to three renewals in a
  row fail. Each time it sleeps exactly until five minutes before the end, but at least a minute: the 64-bit arithmetic
  does not overflow on the way, and for a slot granted for ever the time left saturates at the largest duration.
\<close>

theorem reservation_never_lapses:
  assumes "now + 6 * Minute \<le> expiry" and "renewals_ok 3 now expiry as"
  shows "slot_held expiry (refreshLoop now expiry as) \<and>
    (\<forall>(t, e, d) \<in> set (refresh_sleeps now expiry as). d = max Minute (min (2 ^ 63 - 1) (e - t) - 5 * Minute))"
proof
  show "slot_held expiry (refreshLoop now expiry as)"
    using slot_held_loop [OF assms(2), of expiry] assms(1) by simp
  have "now - Minute \<le> expiry"
    using assms(1) by (simp add: minutes)
  with refresh_sleeps_exact [OF assms(2)]
  show "\<forall>(t, e, d) \<in> set (refresh_sleeps now expiry as). d = max Minute (min (2 ^ 63 - 1) (e - t) - 5 * Minute)"
    by blast
qed

theorem reservation_never_lapses_witness:
  "let fail = \<lparr>rn_late = 0, rn_takes = 30 * Second, rn_result = None\<rparr>; renew = fail\<lparr>rn_result := Some (10 ^ 20)\<rparr>
   in slot_held (60 * Minute) (refreshLoop 0 (60 * Minute) [fail, fail, fail, renew]) \<and>
      fst (refreshLoop 0 (60 * Minute) [fail, fail, fail, renew] ! 3) = 60 * Minute \<and>
      refresh_sleeps 0 (10 ^ 20) [] = [(0, 10 ^ 20, 2 ^ 63 - 1 - 5 * Minute)]"
proof -
  let ?fail = "\<lparr>rn_late = 0, rn_takes = 30 * Second, rn_result = None\<rparr>"
  let ?renew = "?fail\<lparr>rn_result := Some (10 ^ 20)\<rparr>"
  have waits: "sint (refresh_wait 0 (60 * Minute)) = 55 * Minute"
    "sint (refresh_wait t (t + 2 * Minute)) = Minute" for t
    by (subst refresh_wait_int, simp_all add: minutes)+
  have "slot_held (60 * Minute) (refreshLoop 0 (60 * Minute) [?fail, ?fail, ?fail, ?renew])"
    by (rule reservation_never_lapses [THEN conjunct1]) (simp_all add: waits Let_def, simp_all add: minutes)
  moreover have "fst (refreshLoop 0 (60 * Minute) [?fail, ?fail, ?fail, ?renew] ! 3) = 60 * Minute"
    by (simp add: waits Let_def) (simp add: minutes)
  moreover have "refresh_sleeps 0 (10 ^ 20) [] = [(0, 10 ^ 20, 2 ^ 63 - 1 - 5 * Minute)]"
    using reservation_never_lapses [of 0 "10 ^ 20" "[]", THEN conjunct2] by (simp add: minutes)
  ultimately show ?thesis by (simp only: Let_def simp_thms)
qed

end
