(* ===== verification/Pairing.thy ===== *)
theory Pairing
  imports Run RelayClient
begin

section \<open>Serving and pairing (cmd/rca/serve.go, cmd/rca/pairing.go)\<close>

text \<open>
  The remote side: \<open>rca serve\<close> listens, reserves a slot on each relay it is given, and prints the pairing code
  that the local side takes with \<open>--code\<close>.
\<close>

fun nonempty_trimmed :: "string list \<Rightarrow> string list" where
  "nonempty_trimmed [] = []"
| "nonempty_trimmed (p # ps) =
     (let p = TrimSpace p in if p \<noteq> [] then p # nonempty_trimmed ps else nonempty_trimmed ps)"

definition splitCSV :: "string \<Rightarrow> string list" where
  "splitCSV s = (if TrimSpace s = [] then [] else nonempty_trimmed (SplitByte s (CHR '','')))"

subsection \<open>The pairing code\<close>

text \<open>The loop of \<open>appendCircuitAddrs\<close>, with the printed forms of the addresses already there.\<close>

fun circuit_loop ::
    "'a net_lib \<Rightarrow> 'a \<Rightarrow> string list \<Rightarrow> string list \<Rightarrow> 'a list \<Rightarrow> string list \<Rightarrow> 'a list" where
  "circuit_loop nl circuit reserved [] addrs printed = addrs"
| "circuit_loop nl circuit reserved (r # relays) addrs printed =
     (let r = TrimSpace r in
      if r = [] then circuit_loop nl circuit reserved relays addrs printed
      else case nl_NewMultiaddr nl r of
        None \<Rightarrow> circuit_loop nl circuit reserved relays addrs printed
      | Some rma \<Rightarrow>
          (case nl_AddrInfo nl rma of
             None \<Rightarrow> circuit_loop nl circuit reserved relays addrs printed
           | Some info \<Rightarrow>
               if ai_ID info \<notin> set reserved then circuit_loop nl circuit reserved relays addrs printed
               else
                 let relayed = nl_Encapsulate nl rma circuit; s = nl_String nl relayed in
                 if s \<notin> set printed then circuit_loop nl circuit reserved relays (addrs @ [relayed]) (s # printed)
                 else circuit_loop nl circuit reserved relays addrs printed))"

definition appendCircuitAddrs :: "'a net_lib \<Rightarrow> 'a list \<Rightarrow> string list \<Rightarrow> string list \<Rightarrow> 'a list" where
  "appendCircuitAddrs nl addrs relays reserved =
     (if length reserved = 0 then addrs
      else case nl_NewMultiaddr nl ''/p2p-circuit'' of
        None \<Rightarrow> addrs
      | Some circuit \<Rightarrow> circuit_loop nl circuit reserved relays addrs (map (nl_String nl) addrs))"

definition dialable_addrs :: "'a net_lib \<Rightarrow> 'a list \<Rightarrow> 'a list" where
  "dialable_addrs nl addrs =
     (let dialable = filter (\<lambda>a. \<not> nl_IsIPLoopback nl a) addrs in if length dialable = 0 then addrs else dialable)"

text \<open>What is printed: the code, or a hint to dial with \<open>--peer\<close> (a log line).\<close>

definition printPairingCode ::
    "'a net_lib \<Rightarrow> string \<Rightarrow> 'a list \<Rightarrow> string list \<Rightarrow> string list \<Rightarrow> string option" where
  "printPairingCode nl hostID addrs relays reserved =
     (let dialable = appendCircuitAddrs nl (dialable_addrs nl addrs) relays reserved
      in case Encode (nl_lib nl) \<lparr>ai_ID = hostID, ai_Addrs = dialable\<rparr> of
           Inl _ \<Rightarrow> None
         | Inr code \<Rightarrow> Some code)"

subsection \<open>The command\<close>

text \<open>
  The host of \<open>rca serve\<close>: a libp2p host is its identity with its addresses, as \<open>libp2p.New\<close> makes it.
\<close>

record ('k, 'a) serve_host =
  sv_announceEnv :: string
  sv_listenUnix :: "string \<Rightarrow> bool"
  sv_listenStdio :: bool
  sv_generateKey :: "'k option"
  sv_libp2pNew :: "('k, 'a) host_option list \<Rightarrow> (string \<times> 'a list) option"
  sv_relay :: "'a relay_host"
  sv_extractRg :: "string option"
  sv_serve :: bool

datatype 'k serve_event =
    ServeUnix string
  | ServeStdio
  | ServeLibp2p "'k HostConfig"
  | PrintCode string
  | SetRg string
  | Serve
  | CloseServe

definition serve_formal :: "string \<Rightarrow> bool option" where
  "serve_formal = map_of [(''sock'', False), (''stdio'', True), (''listen'', False), (''hole-punch'', True),
     (''relays'', False), (''announce'', False)]"

text \<open>The listener of the mode chosen, and in libp2p mode the code it prints.\<close>

definition serve_config :: "('k, 'a) serve_host \<Rightarrow> (string \<times> string) list \<Rightarrow> 'k HostConfig" where
  "serve_config h vs =
     (let announce = flag_string vs ''announce'' [];
          announce = (if announce = [] then sv_announceEnv h else announce);
          relayList = splitCSV (flag_string vs ''relays'' [])
      in \<lparr>hc_ListenAddrs = splitCSV (flag_string vs ''listen'' ''/ip4/0.0.0.0/tcp/0''), hc_PrivKey = None,
          hc_EnableHolePunching = flag_bool vs ''hole-punch'' True,
          hc_ForceReachabilityPrivate = length relayList > 0, hc_AnnounceAddrs = splitCSV announce\<rparr>)"

definition serve_listener ::
    "'a net_lib \<Rightarrow> ('k, 'a) serve_host \<Rightarrow> (string \<times> string) list \<Rightarrow> 'k serve_event list option" where
  "serve_listener nl h vs =
     (let sock = flag_string vs ''sock'' []
      in if sock \<noteq> [] then (if sv_listenUnix h sock then Some [ServeUnix sock] else None)
         else if flag_bool vs ''stdio'' False then (if sv_listenStdio h then Some [ServeStdio] else None)
         else
           let relayList = splitCSV (flag_string vs ''relays'' []); cfg = serve_config h vs
           in case NewLibp2pHost nl (sv_generateKey h) (sv_libp2pNew h) cfg of
             None \<Rightarrow> None
           | Some (hostID, addrs) \<Rightarrow>
               let reserved = (if length relayList > 0 then ReserveRelays nl (sv_relay h) relayList else [])
               in Some ([ServeLibp2p cfg] @
                    (case printPairingCode nl hostID addrs relayList reserved of None \<Rightarrow> [] | Some code \<Rightarrow> [PrintCode code])))"

definition cmdServe :: "'a net_lib \<Rightarrow> ('k, 'a) serve_host \<Rightarrow> string list \<Rightarrow> 'k serve_event list \<times> nat" where
  "cmdServe nl h args =
     (case parse_flags serve_formal args [] of
        Inl FlagHelp \<Rightarrow> ([], 0)
      | Inl _ \<Rightarrow> ([], 2)
      | Inr (vs, rest) \<Rightarrow>
          (case serve_listener nl h vs of
             None \<Rightarrow> ([], 1)
           | Some ev \<Rightarrow>
               (ev @ (case sv_extractRg h of None \<Rightarrow> [] | Some rg \<Rightarrow> if rg \<noteq> [] then [SetRg rg] else []) @ [Serve, CloseServe],
                if sv_serve h then 0 else 1)))"

subsection \<open>The addresses of a code\<close>

text \<open>The relayed address of a relay on which a slot is reserved.\<close>

definition relayed_addr :: "'a net_lib \<Rightarrow> 'a \<Rightarrow> string list \<Rightarrow> string \<Rightarrow> 'a \<Rightarrow> bool" where
  "relayed_addr nl circuit reserved r a \<longleftrightarrow>
     (\<exists>rma info. TrimSpace r \<noteq> [] \<and> nl_NewMultiaddr nl (TrimSpace r) = Some rma \<and> nl_AddrInfo nl rma = Some info \<and>
        ai_ID info \<in> set reserved \<and> a = nl_Encapsulate nl rma circuit)"

lemma circuit_loop_relays:
  assumes "set printed = nl_String nl ` set addrs"
  shows "\<exists>extra. circuit_loop nl circuit reserved relays addrs printed = addrs @ extra \<and>
      (\<forall>a \<in> set extra. \<exists>r \<in> set relays. relayed_addr nl circuit reserved r a) \<and>
      (\<forall>r \<in> set relays. \<forall>a. relayed_addr nl circuit reserved r a \<longrightarrow> nl_String nl a \<in> nl_String nl ` set (addrs @ extra)) \<and>
      distinct (map (nl_String nl) extra) \<and> nl_String nl ` set extra \<inter> nl_String nl ` set addrs = {}"
  using assms
proof (induction relays arbitrary: addrs printed)
  case Nil
  then show ?case by simp
next
  case (Cons r relays)
  let ?loop = "circuit_loop nl circuit reserved"
  show ?case
  proof (cases "\<exists>a. relayed_addr nl circuit reserved r a \<and> nl_String nl a \<notin> set printed")
    case False
    then have same: "?loop (r # relays) addrs printed = ?loop relays addrs printed"
      by (auto simp: Let_def relayed_addr_def split: option.split)
    have old: "nl_String nl a \<in> nl_String nl ` set addrs" if "relayed_addr nl circuit reserved r a" for a
      using False that Cons.prems by blast
    from Cons.IH [OF Cons.prems] obtain extra where
      "?loop relays addrs printed = addrs @ extra"
      "\<forall>a \<in> set extra. \<exists>r \<in> set relays. relayed_addr nl circuit reserved r a"
      "\<forall>r \<in> set relays. \<forall>a. relayed_addr nl circuit reserved r a \<longrightarrow> nl_String nl a \<in> nl_String nl ` set (addrs @ extra)"
      "distinct (map (nl_String nl) extra)" "nl_String nl ` set extra \<inter> nl_String nl ` set addrs = {}"
      by blast
    with old show ?thesis
      unfolding same by (intro exI [of _ extra]) (auto simp: image_Un)
  next
    case True
    then obtain a where a: "relayed_addr nl circuit reserved r a" "nl_String nl a \<notin> set printed" by blast
    then have loop: "?loop (r # relays) addrs printed = ?loop relays (addrs @ [a]) (nl_String nl a # printed)"
      by (auto simp: Let_def relayed_addr_def)
    have only: "b = a" if "relayed_addr nl circuit reserved r b" for b
      using a(1) that by (auto simp: relayed_addr_def)
    have "set (nl_String nl a # printed) = nl_String nl ` set (addrs @ [a])"
      using Cons.prems by simp
    from Cons.IH [OF this] obtain extra where extra:
      "?loop relays (addrs @ [a]) (nl_String nl a # printed) = (addrs @ [a]) @ extra"
      "\<forall>a \<in> set extra. \<exists>r \<in> set relays. relayed_addr nl circuit reserved r a"
      "\<forall>r \<in> set relays. \<forall>b. relayed_addr nl circuit reserved r b \<longrightarrow> nl_String nl b \<in> nl_String nl ` set ((addrs @ [a]) @ extra)"
      "distinct (map (nl_String nl) extra)" "nl_String nl ` set extra \<inter> nl_String nl ` set (addrs @ [a]) = {}"
      by blast
    show ?thesis
    proof (intro exI [of _ "a # extra"] conjI ballI allI impI)
      show "?loop (r # relays) addrs printed = addrs @ a # extra"
        unfolding loop using extra(1) by simp
      show "\<exists>q \<in> set (r # relays). relayed_addr nl circuit reserved q b" if "b \<in> set (a # extra)" for b
        using that a(1) extra(2) by auto
      show "nl_String nl b \<in> nl_String nl ` set (addrs @ a # extra)"
        if "q \<in> set (r # relays)" "relayed_addr nl circuit reserved q b" for q b
        using that only extra(3) by (cases "q = r") simp_all
      show "distinct (map (nl_String nl) (a # extra))"
        using extra(4,5) by auto
      show "nl_String nl ` set (a # extra) \<inter> nl_String nl ` set addrs = {}"
        using extra(5) a(2) Cons.prems by auto
    qed
  qed
qed

lemma appendCircuitAddrs_relays:
  assumes "nl_NewMultiaddr nl ''/p2p-circuit'' = Some circuit"
  shows "\<exists>extra. appendCircuitAddrs nl addrs relays reserved = addrs @ extra \<and>
      (\<forall>a \<in> set extra. \<exists>r \<in> set relays. relayed_addr nl circuit reserved r a) \<and>
      (\<forall>r \<in> set relays. \<forall>a. relayed_addr nl circuit reserved r a \<longrightarrow> nl_String nl a \<in> nl_String nl ` set (addrs @ extra)) \<and>
      distinct (map (nl_String nl) extra) \<and> nl_String nl ` set extra \<inter> nl_String nl ` set addrs = {}"
proof (cases "reserved = []")
  case True
  then have "\<not> relayed_addr nl circuit reserved r a" for r a
    by (simp add: relayed_addr_def)
  with True show ?thesis by (simp add: appendCircuitAddrs_def)
next
  case False
  then have "appendCircuitAddrs nl addrs relays reserved = circuit_loop nl circuit reserved relays addrs (map (nl_String nl) addrs)"
    using assms by (simp add: appendCircuitAddrs_def)
  then show ?thesis
    using circuit_loop_relays [of "map (nl_String nl) addrs" nl addrs circuit reserved relays] by simp
qed

lemma dialable_addrs_set:
  "set (dialable_addrs nl addrs) \<subseteq> set addrs" "a \<in> set addrs \<Longrightarrow> \<not> nl_IsIPLoopback nl a \<Longrightarrow> a \<in> set (dialable_addrs nl addrs)"
  "(\<exists>a \<in> set addrs. \<not> nl_IsIPLoopback nl a) \<Longrightarrow> a \<in> set (dialable_addrs nl addrs) \<Longrightarrow> \<not> nl_IsIPLoopback nl a"
  by (auto simp: dialable_addrs_def Let_def filter_empty_conv split: if_splits)

text \<open>
  A printed code makes the launcher on the other host dial the host that printed it, at its dialable addresses
  and the relayed ones.
\<close>

lemma printed_code_dialed:
  assumes "printPairingCode nl hostID addrs relays reserved = Some code"
    and "nl_NewMultiaddr nl ''/p2p-circuit'' = Some circuit"
    and "\<And>a. lp_NewMultiaddrBytes (nl_lib nl) (lp_Bytes (nl_lib nl) a) = Some a"
    and "lp_IDFromBytes (nl_lib nl) (bytes_of_str hostID) = Some hostID"
    and "go_sized (nl_lib nl) \<lparr>ai_ID = hostID, ai_Addrs = appendCircuitAddrs nl (dialable_addrs nl addrs) relays reserved\<rparr>"
    and "rh_net h = nl" and "rh_libp2pHost h" and "ro_via opts = []" and "ro_code opts = code"
  shows "\<exists>extra. choose_dialer h opts = ret_run (Libp2pDialer \<lparr>ai_ID = hostID, ai_Addrs = dialable_addrs nl addrs @ extra\<rparr>) \<and>
    (\<forall>a \<in> set extra. \<exists>r \<in> set relays. relayed_addr nl circuit reserved r a) \<and>
    (\<forall>r \<in> set relays. \<forall>a. relayed_addr nl circuit reserved r a \<longrightarrow>
       nl_String nl a \<in> nl_String nl ` set (dialable_addrs nl addrs @ extra)) \<and>
    distinct (map (nl_String nl) extra)"
proof -
  let ?addrs = "appendCircuitAddrs nl (dialable_addrs nl addrs) relays reserved"
  have code: "Encode (nl_lib nl) \<lparr>ai_ID = hostID, ai_Addrs = ?addrs\<rparr> = Inr code"
    using assms(1) by (simp add: printPairingCode_def Let_def split: sum.splits)
  moreover have "reads_back (nl_lib nl) \<lparr>ai_ID = hostID, ai_Addrs = ?addrs\<rparr>"
    using assms(3,4) by (simp add: reads_back_def)
  ultimately have "Decode (nl_lib (rh_net h)) code = Inr \<lparr>ai_ID = hostID, ai_Addrs = ?addrs\<rparr>"
    using decode_code assms(5,6) by simp
  moreover have "code \<noteq> []"
    using Encode_code [OF code] by (simp add: PairPrefix_def)
  ultimately have "choose_dialer h opts = ret_run (Libp2pDialer \<lparr>ai_ID = hostID, ai_Addrs = ?addrs\<rparr>)"
    using assms(7-9) by (simp add: choose_dialer_def)
  then show ?thesis
    using appendCircuitAddrs_relays [OF assms(2), of "dialable_addrs nl addrs" relays reserved] by auto
qed

text \<open>The code a run of \<open>rca serve\<close> prints, and the host it prints it for.\<close>

lemma cmdServe_prints:
  assumes "PrintCode code \<in> set (fst (cmdServe nl h args))" and "parse_flags serve_formal args [] = Inr (vs, rest)"
  defines "relays \<equiv> splitCSV (flag_string vs ''relays'' [])"
  obtains hostID addrs where
    "NewLibp2pHost nl (sv_generateKey h) (sv_libp2pNew h) (serve_config h vs) = Some (hostID, addrs)"
    "printPairingCode nl hostID addrs relays (ReserveRelays nl (sv_relay h) relays) = Some code"
proof -
  have none: "ReserveRelays nl (sv_relay h) [] = []"
    by (simp add: ReserveRelays_def)
  show thesis
    using assms(1,2) that none
    by (auto simp: cmdServe_def serve_listener_def Let_def relays_def split: option.splits if_splits)
qed

text \<open>
  C16: Serving pairs the two sides: the code \<open>rca serve\<close> prints makes the launcher on the other host dial the very
  host that serves, at all its addresses but the loopback ones (at these when it has no others), at every
  address the operator announces, and at the relayed address of every relay that granted a reservation.
\<close>

theorem serve_code_pairs:
  assumes "PrintCode code \<in> set (fst (cmdServe nl h args))" and "parse_flags serve_formal args [] = Inr (vs, rest)"
    and "honours_options peer_id (sv_libp2pNew h)" and "nl_NewMultiaddr nl ''/p2p-circuit'' = Some circuit"
    and "\<And>a. lp_NewMultiaddrBytes (nl_lib nl) (lp_Bytes (nl_lib nl) a) = Some a"
    and "\<And>i. lp_Validate (nl_lib nl) i \<Longrightarrow> lp_IDFromBytes (nl_lib nl) (bytes_of_str i) = Some i"
    and "relays = splitCSV (flag_string vs ''relays'' [])" and "reserved = ReserveRelays nl (sv_relay h) relays"
    and "\<And>i as. NewLibp2pHost nl (sv_generateKey h) (sv_libp2pNew h) (serve_config h vs) = Some (i, as) \<Longrightarrow>
      go_sized (nl_lib nl) \<lparr>ai_ID = i, ai_Addrs = appendCircuitAddrs nl (dialable_addrs nl as) relays reserved\<rparr>"
    and "rh_net rh = nl" and "rh_libp2pHost rh" and "ro_via opts = []" and "ro_code opts = code"
  shows "\<exists>hostID addrs extra.
    NewLibp2pHost nl (sv_generateKey h) (sv_libp2pNew h) (serve_config h vs) = Some (hostID, addrs) \<and>
    choose_dialer rh opts = ret_run (Libp2pDialer \<lparr>ai_ID = hostID, ai_Addrs = dialable_addrs nl addrs @ extra\<rparr>) \<and>
    (\<forall>a \<in> set (parseMultiaddrs nl (hc_AnnounceAddrs (serve_config h vs))).
       \<not> nl_IsIPLoopback nl a \<longrightarrow> a \<in> set (dialable_addrs nl addrs)) \<and>
    (\<forall>a \<in> set extra. \<exists>r \<in> set relays. relayed_addr nl circuit reserved r a) \<and>
    (\<forall>r \<in> set relays. \<forall>a. relayed_addr nl circuit reserved r a \<longrightarrow>
       nl_String nl a \<in> nl_String nl ` set (dialable_addrs nl addrs @ extra))"
proof -
  obtain hostID addrs where host:
    "NewLibp2pHost nl (sv_generateKey h) (sv_libp2pNew h) (serve_config h vs) = Some (hostID, addrs)"
    and code: "printPairingCode nl hostID addrs relays reserved = Some code"
    using cmdServe_prints [OF assms(1,2)] assms(7,8) by metis
  have "lp_Validate (nl_lib nl) hostID"
    using code by (auto simp: printPairingCode_def Let_def Encode_def split: sum.splits if_splits)
  then have id: "lp_IDFromBytes (nl_lib nl) (bytes_of_str hostID) = Some hostID"
    by (rule assms(6))
  obtain extra where extra:
      "choose_dialer rh opts = ret_run (Libp2pDialer \<lparr>ai_ID = hostID, ai_Addrs = dialable_addrs nl addrs @ extra\<rparr>)"
      "\<forall>a \<in> set extra. \<exists>r \<in> set relays. relayed_addr nl circuit reserved r a"
      "\<forall>r \<in> set relays. \<forall>a. relayed_addr nl circuit reserved r a \<longrightarrow>
         nl_String nl a \<in> nl_String nl ` set (dialable_addrs nl addrs @ extra)"
    by (rule exE [OF printed_code_dialed [OF code assms(4,5) id assms(9) [OF host] assms(10-13)]])
      (elim conjE, rule that)
  have "set (parseMultiaddrs nl (hc_AnnounceAddrs (serve_config h vs))) \<subseteq> set addrs"
    by (rule NewLibp2pHost_announces [OF host assms(3)])
  then have "\<forall>a \<in> set (parseMultiaddrs nl (hc_AnnounceAddrs (serve_config h vs))).
       \<not> nl_IsIPLoopback nl a \<longrightarrow> a \<in> set (dialable_addrs nl addrs)"
    by (intro ballI impI dialable_addrs_set(2)) (rule subsetD)
  then show ?thesis
    by (intro exI conjI) (rule host, rule extra(1), assumption, rule extra(2), rule extra(3))
qed

text \<open>A host that is called \<open>me\<close> and listens on one address besides the loopback one.\<close>

fun is_factory :: "('k, 'a) host_option \<Rightarrow> bool" where
  "is_factory (AddrsFactory f) = True"
| "is_factory _ = False"

definition sample_new :: "(unit, bytes) host_option list \<Rightarrow> (string \<times> bytes list) option" where
  "sample_new opts =
     (case filter is_factory opts of
        [] \<Rightarrow> Some (''me'', [[0x7F], [6]])
      | [AddrsFactory f] \<Rightarrow> Some (''me'', f [[0x7F], [6]])
      | _ \<Rightarrow> None)"

lemma sample_new_honours: "honours_options (\<lambda>_. ''me'') sample_new"
proof -
  have "\<exists>own. addrs = f own" if new: "sample_new opts = Some (i, addrs)" and f: "AddrsFactory f \<in> set opts" for opts i addrs f
  proof -
    have in_f: "AddrsFactory f \<in> set (filter is_factory opts)"
      using f by simp
    obtain g where g: "filter is_factory opts = [AddrsFactory g]" "addrs = g [[0x7F], [6]]"
      using new in_f by (cases "filter is_factory opts") (auto simp: sample_new_def split: list.splits host_option.splits)
    with in_f show ?thesis by auto
  qed
  moreover have "i = ''me''" if "sample_new opts = Some (i, addrs)" for opts i addrs
    using that by (auto simp: sample_new_def split: list.splits host_option.splits)
  ultimately show ?thesis
    unfolding honours_options_def by blast
qed

definition sample_serve :: "(unit, bytes) serve_host" where
  "sample_serve = \<lparr>sv_announceEnv = ''B'', sv_listenUnix = (\<lambda>p. True), sv_listenStdio = True, sv_generateKey = Some (),
     sv_libp2pNew = sample_new, sv_relay = \<lparr>rl_Connect = (\<lambda>r. True), rl_Reserve = (\<lambda>r. if ai_ID r = ''r1'' then Some 0 else None)\<rparr>,
     sv_extractRg = None, sv_serve = True\<rparr>"

lemma sample_args:
  "parse_flags serve_formal [''-relays'', ''r1:x,r2'', ''-announce'', ''A''] [] =
     Inr ([(''relays'', ''r1:x,r2''), (''announce'', ''A'')], [])"
  by (simp add: serve_formal_def flag_name_def)

lemma sample_trim:
  "TrimSpace ''r1:x'' = ''r1:x''" "TrimSpace ''r2'' = ''r2''" "TrimSpace ''r1:x,r2'' = ''r1:x,r2''" "TrimSpace ''A'' = ''A''"
  by (rule TrimSpace_graphic, simp add: graphic_def)+

lemma filter_factory:
  "filter is_factory (host_options nl k cfg) =
     (let announce = parseMultiaddrs nl (hc_AnnounceAddrs cfg)
      in if announce = [] then [] else [AddrsFactory (\<lambda>addrs. announce @ addrs)])"
  by (simp add: host_options_def Let_def)

lemma byte_A: "bytes_of_str ''A'' = [0x41]"
  by code_simp

lemma sample_serve_values:
  defines "vs \<equiv> [(''relays'', ''r1:x,r2''), (''announce'', ''A'')]"
  shows "splitCSV (flag_string vs ''relays'' []) = [''r1:x'', ''r2'']"
    and "ReserveRelays plain_net (sv_relay sample_serve) [''r1:x'', ''r2''] = [''r1'']"
    and "hc_AnnounceAddrs (serve_config sample_serve vs) = [''A'']"
    and "NewLibp2pHost plain_net (sv_generateKey sample_serve) (sv_libp2pNew sample_serve) (serve_config sample_serve vs) =
      Some (''me'', [[0x41], [0x7F], [6]])"
proof -
  show relays: "splitCSV (flag_string vs ''relays'' []) = [''r1:x'', ''r2'']"
    by (simp add: vs_def flag_string_def splitCSV_def sample_trim)
  show "ReserveRelays plain_net (sv_relay sample_serve) [''r1:x'', ''r2''] = [''r1'']"
    by (simp add: ReserveRelays_def sample_trim plain_net_fields reserveOnce_def sample_serve_def Let_def)
  show announce: "hc_AnnounceAddrs (serve_config sample_serve vs) = [''A'']"
    by (simp add: vs_def serve_config_def Let_def flag_string_def splitCSV_def sample_trim)
  have key: "hc_PrivKey (serve_config sample_serve vs) = None"
    by (simp add: serve_config_def Let_def)
  have "sv_libp2pNew sample_serve = sample_new" "sv_generateKey sample_serve = Some ()"
    by (simp_all add: sample_serve_def)
  with key show "NewLibp2pHost plain_net (sv_generateKey sample_serve) (sv_libp2pNew sample_serve) (serve_config sample_serve vs) =
      Some (''me'', [[0x41], [0x7F], [6]])"
    by (simp add: NewLibp2pHost_def sample_new_def filter_factory announce sample_trim plain_net_fields Let_def byte_A)
qed

theorem serve_code_pairs_witness:
  "\<exists>code info. PrintCode code \<in> set (fst (cmdServe plain_net sample_serve [''-relays'', ''r1:x,r2'', ''-announce'', ''A''])) \<and>
     choose_dialer linux_host ((sample_run_opts False False)\<lparr>ro_code := code\<rparr>) = ret_run (Libp2pDialer info) \<and>
     ai_ID info = ''me'' \<and> bytes_of_str ''A'' \<in> set (ai_Addrs info) \<and>
     bytes_of_str ''r1:x'' @ bytes_of_str ''/p2p-circuit'' \<in> set (ai_Addrs info)"
proof -
  let ?vs = "[(''relays'', ''r1:x,r2''), (''announce'', ''A'')]" and ?rs = "[''r1:x'', ''r2'']"
  let ?relayed = "bytes_of_str ''r1:x'' @ bytes_of_str ''/p2p-circuit''"
  note vals = sample_serve_values
  have circuit: "nl_NewMultiaddr plain_net ''/p2p-circuit'' = Some (bytes_of_str ''/p2p-circuit'')"
    by (simp add: plain_net_def)
  have dialable: "dialable_addrs plain_net [[0x41], [0x7F], [6]] = [[0x41], [6]]"
    by (simp add: dialable_addrs_def plain_net_def)
  have other: "str_of_bytes [6] \<noteq> ''r1:x/p2p-circuit''" "str_of_bytes [0x41] \<noteq> ''r1:x/p2p-circuit''"
    by (simp_all add: str_of_bytes_def)
  have addrs: "appendCircuitAddrs plain_net [[0x41], [6]] ?rs [''r1''] = [[0x41], [6], ?relayed]"
    by (simp add: appendCircuitAddrs_def sample_trim Let_def plain_net_fields other [symmetric])
  obtain code where code: "printPairingCode plain_net ''me'' [[0x41], [0x7F], [6]] ?rs [''r1''] = Some code"
    by (simp add: printPairingCode_def Encode_def Let_def) (simp add: plain_net_fields plain_libp2p_def)
  have "PrintCode code \<in> set (fst (cmdServe plain_net sample_serve [''-relays'', ''r1:x,r2'', ''-announce'', ''A'']))"
    unfolding cmdServe_def sample_args
    by (simp add: serve_listener_def Let_def vals code) (simp add: flag_string_def flag_bool_def)
  note printed = this
  note pairs = serve_code_pairs [OF printed sample_args _ circuit, of "\<lambda>_. ''me''" ?rs "[''r1'']" linux_host
      "(sample_run_opts False False)\<lparr>ro_code := code\<rparr>"]
  have "\<exists>hostID addrs extra.
    NewLibp2pHost plain_net (sv_generateKey sample_serve) (sv_libp2pNew sample_serve) (serve_config sample_serve ?vs) = Some (hostID, addrs) \<and>
    choose_dialer linux_host ((sample_run_opts False False)\<lparr>ro_code := code\<rparr>) =
      ret_run (Libp2pDialer \<lparr>ai_ID = hostID, ai_Addrs = dialable_addrs plain_net addrs @ extra\<rparr>) \<and>
    (\<forall>a \<in> set (parseMultiaddrs plain_net (hc_AnnounceAddrs (serve_config sample_serve ?vs))).
       \<not> nl_IsIPLoopback plain_net a \<longrightarrow> a \<in> set (dialable_addrs plain_net addrs)) \<and>
    (\<forall>a \<in> set extra. \<exists>r \<in> set ?rs. relayed_addr plain_net (bytes_of_str ''/p2p-circuit'') [''r1''] r a) \<and>
    (\<forall>r \<in> set ?rs. \<forall>a. relayed_addr plain_net (bytes_of_str ''/p2p-circuit'') [''r1''] r a \<longrightarrow>
       nl_String plain_net a \<in> nl_String plain_net ` set (dialable_addrs plain_net addrs @ extra))"
  proof (rule pairs)
    show "honours_options (\<lambda>_. ''me'') (sv_libp2pNew sample_serve)"
      using sample_new_honours by (simp add: sample_serve_def)
    show "go_sized (nl_lib plain_net) \<lparr>ai_ID = i, ai_Addrs = appendCircuitAddrs plain_net (dialable_addrs plain_net as) ?rs [''r1'']\<rparr>"
      if "NewLibp2pHost plain_net (sv_generateKey sample_serve) (sv_libp2pNew sample_serve) (serve_config sample_serve ?vs) = Some (i, as)" for i as
      using that unfolding vals by (auto simp: dialable addrs go_sized_def plain_net_fields plain_libp2p_def)
  qed (simp_all add: vals, simp_all add: plain_net_def plain_libp2p_def linux_host_def sample_run_opts_def sample_opts_def default_opts_def)
  then obtain extra where extra: "choose_dialer linux_host ((sample_run_opts False False)\<lparr>ro_code := code\<rparr>) =
      ret_run (Libp2pDialer \<lparr>ai_ID = ''me'', ai_Addrs = [[0x41], [6]] @ extra\<rparr>)"
      "\<forall>a. relayed_addr plain_net (bytes_of_str ''/p2p-circuit'') [''r1''] ''r1:x'' a \<longrightarrow>
         nl_String plain_net a \<in> nl_String plain_net ` set ([[0x41], [6]] @ extra)"
    unfolding vals by (auto simp: dialable)
  have "relayed_addr plain_net (bytes_of_str ''/p2p-circuit'') [''r1''] ''r1:x'' ?relayed"
    by (simp add: relayed_addr_def sample_trim plain_net_fields)
  with extra(2) have "nl_String plain_net ?relayed \<in> nl_String plain_net ` set ([[0x41], [6]] @ extra)"
    by blast
  then have relayed: "?relayed \<in> set ([[0x41], [6]] @ extra)"
    by (rule plain_net_image)
  have "bytes_of_str ''A'' \<in> set ([[0x41], [6]] @ extra)"
    by (simp add: byte_A)
  with relayed printed extra(1) show ?thesis by fastforce
qed

end
