(* ===== verification/Relay.thy ===== *)
theory Relay
  imports Pairing
begin

section \<open>The relay (cmd/rca/relay.go)\<close>

text \<open>
  The command \<open>rca relay\<close>: a libp2p host with a circuit-relay service. Its identity is part of the addresses the
  operator hands out, so it must survive a restart: it is read from the environment, or generated and logged in
  the form the environment takes. Keys are libp2p's, with the record \<open>key_lib\<close>.
\<close>

record 'k key_lib =
  kl_Generate :: "'k option"
  kl_Marshal :: "'k \<Rightarrow> bytes option"
  kl_Unmarshal :: "bytes \<Rightarrow> 'k option"

record ('k, 'a) relay_env =
  rc_announceEnv :: string
  rc_keyEnv :: string
  rc_keys :: "'k key_lib"
  rc_libp2pNew :: "('k, 'a) host_option list \<Rightarrow> (string \<times> 'a list) option"
  rc_relayNew :: bool

text \<open>What a run does: \<open>LogKey\<close> is the value logged for \<open>RCA_RELAY_KEY\<close>, \<open>LogPeer\<close> the identity that is logged.\<close>

datatype 'k relay_event =
    LogKey string
  | RelayHost "'k HostConfig"
  | RelayService
  | LogPeer string
  | AwaitSignal
  | CloseService
  | CloseHost

definition relayIdentity :: "('k, 'a) relay_env \<Rightarrow> 'k relay_event list \<times> 'k option" where
  "relayIdentity h =
     (let enc = rc_keyEnv h in
      if enc \<noteq> [] then
        (case StdDecodeString enc of
           None \<Rightarrow> ([], None)
         | Some raw \<Rightarrow> ([], kl_Unmarshal (rc_keys h) raw))
      else case kl_Generate (rc_keys h) of
        None \<Rightarrow> ([], None)
      | Some priv \<Rightarrow>
          (case kl_Marshal (rc_keys h) priv of
             None \<Rightarrow> ([], None)
           | Some raw \<Rightarrow> ([LogKey (StdEncodeToString raw)], Some priv)))"

definition relay_formal :: "string \<Rightarrow> bool option" where
  "relay_formal = map_of [(''listen'', False), (''announce'', False)]"

definition relay_config :: "('k, 'a) relay_env \<Rightarrow> (string \<times> string) list \<Rightarrow> 'k \<Rightarrow> 'k HostConfig" where
  "relay_config h vs priv =
     \<lparr>hc_ListenAddrs = splitCSV (flag_string vs ''listen'' ''/ip4/0.0.0.0/tcp/8080/ws''), hc_PrivKey = Some priv,
      hc_EnableHolePunching = False, hc_ForceReachabilityPrivate = False,
      hc_AnnounceAddrs = splitCSV (flag_string vs ''announce'' (rc_announceEnv h))\<rparr>"

definition run_relay ::
    "'a net_lib \<Rightarrow> ('k, 'a) relay_env \<Rightarrow> (string \<times> string) list \<Rightarrow> 'k relay_event list \<times> nat" where
  "run_relay nl h vs =
     (case relayIdentity h of
        (ev, None) \<Rightarrow> (ev, 1)
      | (ev, Some priv) \<Rightarrow>
          (let cfg = relay_config h vs priv in
           case NewLibp2pHost nl (kl_Generate (rc_keys h)) (rc_libp2pNew h) cfg of
             None \<Rightarrow> (ev, 1)
           | Some (relayID, addrs) \<Rightarrow>
               if \<not> rc_relayNew h then (ev @ [RelayHost cfg, CloseHost], 1)
               else (ev @ [RelayHost cfg, RelayService, LogPeer relayID, AwaitSignal, CloseService, CloseHost], 0)))"

definition cmdRelay :: "'a net_lib \<Rightarrow> ('k, 'a) relay_env \<Rightarrow> string list \<Rightarrow> 'k relay_event list \<times> nat" where
  "cmdRelay nl h args =
     (case parse_flags relay_formal args [] of
        Inl FlagHelp \<Rightarrow> ([], 0)
      | Inl _ \<Rightarrow> ([], 2)
      | Inr (vs, rest) \<Rightarrow> run_relay nl h vs)"

lemma relayIdentity_events:
  "LogPeer i \<notin> set (fst (relayIdentity h))" "LogKey enc \<in> set (fst (relayIdentity h)) \<Longrightarrow> rc_keyEnv h = []"
  by (auto simp: relayIdentity_def Let_def split: option.splits if_splits)

text \<open>The identity that is logged is that of the key.\<close>

lemma cmdRelay_peer:
  assumes "LogPeer i \<in> set (fst (cmdRelay nl h args))" and "honours_options peer_id (rc_libp2pNew h)"
  obtains k where "snd (relayIdentity h) = Some k" and "i = peer_id k"
proof -
  obtain vs where vs: "LogPeer i \<in> set (fst (run_relay nl h vs))"
    using assms(1) by (auto simp: cmdRelay_def split: sum.splits flag_error.splits)
  obtain ev r where id: "relayIdentity h = (ev, r)" by fastforce
  have ev: "LogPeer i \<notin> set ev"
    using relayIdentity_events(1) [of i h] id by simp
  obtain k addrs where "r = Some k"
      and host: "NewLibp2pHost nl (kl_Generate (rc_keys h)) (rc_libp2pNew h) (relay_config h vs k) = Some (i, addrs)"
    using vs ev by (auto simp: run_relay_def id Let_def split: option.splits if_splits)
  moreover have "hc_PrivKey (relay_config h vs k) = Some k"
    by (simp add: relay_config_def)
  with host assms(2) have "i = peer_id k" by (rule NewLibp2pHost_identity)
  ultimately show thesis using that id by simp
qed

lemma cmdRelay_key:
  assumes "LogKey enc \<in> set (fst (cmdRelay nl h args))"
  obtains k raw where "relayIdentity h = ([LogKey enc], Some k)" and "kl_Marshal (rc_keys h) k = Some raw"
    and "enc = StdEncodeToString raw"
proof -
  obtain vs where "LogKey enc \<in> set (fst (run_relay nl h vs))"
    using assms by (auto simp: cmdRelay_def split: sum.splits flag_error.splits)
  then have "LogKey enc \<in> set (fst (relayIdentity h))"
    by (auto simp: run_relay_def Let_def split: prod.splits option.splits if_splits)
  then show thesis
    using that by (auto simp: relayIdentity_def Let_def split: option.splits if_splits)
qed

text \<open>
  C18: A pinned relay keeps its identity: when the key a relay logged at its first start is given to it in
  \<open>RCA_RELAY_KEY\<close>, a later start, whatever its flags, its announced addresses and the key it would generate, gets its key
  from there and logs no other, and shows the identity of the first one.
\<close>

theorem relay_identity_pinned:
  assumes "LogKey enc \<in> set (fst (cmdRelay nl h args))"
    and "\<And>k raw. kl_Marshal (rc_keys h) k = Some raw \<Longrightarrow> raw \<noteq> [] \<and> kl_Unmarshal (rc_keys h) raw = Some k"
    and "honours_options peer_id (rc_libp2pNew h)"
    and "h' = h\<lparr>rc_keyEnv := enc, rc_announceEnv := announce, rc_keys := (rc_keys h)\<lparr>kl_Generate := generate\<rparr>\<rparr>"
  shows "(\<exists>k. relayIdentity h' = ([], Some k)) \<and>
    (\<forall>i j. LogPeer i \<in> set (fst (cmdRelay nl h args)) \<longrightarrow> LogPeer j \<in> set (fst (cmdRelay nl h' args')) \<longrightarrow> i = j)"
proof -
  obtain k raw where k: "relayIdentity h = ([LogKey enc], Some k)" "kl_Marshal (rc_keys h) k = Some raw"
      "enc = StdEncodeToString raw"
    by (rule cmdRelay_key [OF assms(1)])
  have "raw \<noteq> []" "kl_Unmarshal (rc_keys h) raw = Some k"
    using assms(2) [OF k(2)] by simp_all
  then have again: "relayIdentity h' = ([], Some k)"
    using StdEncode_neq_Nil [of raw] k(3) by (simp add: relayIdentity_def assms(4) StdDecode_StdEncode)
  moreover have "i = j"
    if "LogPeer i \<in> set (fst (cmdRelay nl h args))" "LogPeer j \<in> set (fst (cmdRelay nl h' args'))" for i j
  proof -
    have "honours_options peer_id (rc_libp2pNew h')"
      using assms(3,4) by simp
    then have "j = peer_id k"
      using cmdRelay_peer [OF that(2)] again by (metis option.inject snd_conv)
    moreover have "i = peer_id k"
      using cmdRelay_peer [OF that(1) assms(3)] k(1) by (metis option.inject snd_conv)
    ultimately show ?thesis by simp
  qed
  ultimately show ?thesis by blast
qed

text \<open>A host that is called after the first byte of its key, and keys that are written as they are.\<close>

definition key_new :: "(bytes, bytes) host_option list \<Rightarrow> (string \<times> bytes list) option" where
  "key_new opts = (case opts of [Identity k, ListenAddrStrings l] \<Rightarrow> Some (str_of_bytes k, []) | _ \<Rightarrow> None)"

definition sample_relay :: "(bytes, bytes) relay_env" where
  "sample_relay = \<lparr>rc_announceEnv = [], rc_keyEnv = [],
     rc_keys = \<lparr>kl_Generate = Some [0x6B], kl_Marshal = (\<lambda>k. if k = [] then None else Some k), kl_Unmarshal = Some\<rparr>,
     rc_libp2pNew = key_new, rc_relayNew = True\<rparr>"

theorem relay_identity_pinned_witness:
  "\<exists>enc. LogKey enc \<in> set (fst (cmdRelay plain_net sample_relay [])) \<and>
     relayIdentity (sample_relay\<lparr>rc_keyEnv := enc, rc_keys := (rc_keys sample_relay)\<lparr>kl_Generate := Some [0x6C]\<rparr>\<rparr>) = ([], Some [0x6B]) \<and>
     LogPeer ''k'' \<in> set (fst (cmdRelay plain_net (sample_relay\<lparr>rc_keyEnv := enc,
       rc_keys := (rc_keys sample_relay)\<lparr>kl_Generate := Some [0x6C]\<rparr>\<rparr>) []))"
proof -
  let ?enc = "StdEncodeToString [0x6B]"
  let ?h' = "sample_relay\<lparr>rc_keyEnv := ?enc, rc_announceEnv := [], rc_keys := (rc_keys sample_relay)\<lparr>kl_Generate := Some [0x6C]\<rparr>\<rparr>"
  have same: "?h' = sample_relay\<lparr>rc_keyEnv := ?enc, rc_keys := (rc_keys sample_relay)\<lparr>kl_Generate := Some [0x6C]\<rparr>\<rparr>"
    by (simp add: sample_relay_def)
  have trim: "TrimSpace ''/ip4/0.0.0.0/tcp/8080/ws'' = ''/ip4/0.0.0.0/tcp/8080/ws''"
    by (rule TrimSpace_graphic) (simp add: graphic_def)
  have csv: "splitCSV [] = []" "splitCSV ''/ip4/0.0.0.0/tcp/8080/ws'' = [''/ip4/0.0.0.0/tcp/8080/ws'']"
    by (simp_all add: splitCSV_def trim TrimSpace_graphic [of "[]"])
  have run: "run_relay plain_net h [] = (fst (relayIdentity h) @ [RelayHost (relay_config h [] k), RelayService,
      LogPeer (str_of_bytes k), AwaitSignal, CloseService, CloseHost], 0)"
    if "snd (relayIdentity h) = Some k" "rc_libp2pNew h = key_new" "rc_announceEnv h = []" "rc_relayNew h"
    for h :: "(bytes, bytes) relay_env" and k
    using that by (cases "relayIdentity h")
      (simp add: run_relay_def NewLibp2pHost_def host_options_def relay_config_def flag_string_def csv key_new_def Let_def)
  have first: "relayIdentity sample_relay = ([LogKey ?enc], Some [0x6B])"
    by (simp add: relayIdentity_def sample_relay_def)
  have logged: "LogKey ?enc \<in> set (fst (cmdRelay plain_net sample_relay []))"
    using run [of sample_relay "[0x6B]"] first by (simp add: cmdRelay_def sample_relay_def)
  have name: "str_of_bytes [0x6B] = ''k''" by code_simp
  have "honours_options str_of_bytes key_new"
    by (auto simp: honours_options_def key_new_def split: list.splits host_option.splits)
  moreover have "raw \<noteq> [] \<and> kl_Unmarshal (rc_keys sample_relay) raw = Some k"
    if "kl_Marshal (rc_keys sample_relay) k = Some raw" for k raw
    using that by (simp add: sample_relay_def split: if_splits)
  moreover have "rc_libp2pNew sample_relay = key_new"
    by (simp add: sample_relay_def)
  ultimately have pinned: "\<exists>k. relayIdentity ?h' = ([], Some k)"
    by (intro conjunct1 [OF relay_identity_pinned [OF logged, where peer_id = str_of_bytes and args' = "[]"]]) auto
  then have again: "relayIdentity ?h' = ([], Some [0x6B])"
    by (auto simp: relayIdentity_def sample_relay_def StdDecode_StdEncode Let_def split: if_splits)
  have "LogPeer ''k'' \<in> set (fst (cmdRelay plain_net ?h' []))"
    using run [of ?h' "[0x6B]"] again name by (simp add: cmdRelay_def sample_relay_def)
  with logged again show ?thesis unfolding same by blast
qed

end
