(* ===== verification/MacCopy.thy ===== *)
theory MacCopy
  imports Run
begin

section \<open>The re-signed copy on macOS (PrepareMacOSCopy of internal/adapter/launch.go)\<close>

text \<open>
  On macOS the target runs from a copy that is signed anew. Files are a map from paths to contents, and \<open>mh_file\<close>
  gives the file a path leads to when its links are followed: writing at a path changes what every path of that file
  shows (\<open>write_file\<close>), so that a destination that is a link, or that names the source in another way, is within
  the model. The rest of the record \<open>mac_host\<close> says which calls succeed, where the temporary file is made, and what
  \<open>codesign\<close> prints and makes of the file it signs. A copy reads its source after it has emptied its destination, so
  the two being one file matters.
\<close>

type_synonym file_contents = "string \<Rightarrow> string option"

record mac_host =
  mh_goos :: string
  mh_file :: "string \<Rightarrow> string"
  mh_mkdirAll :: "string \<Rightarrow> bool"
  mh_open :: "string \<Rightarrow> bool"
  mh_create :: "string \<Rightarrow> bool"
  mh_copyFails :: "string \<Rightarrow> string \<Rightarrow> nat option"
  mh_close :: "string \<Rightarrow> bool"
  mh_entitlements :: "string \<Rightarrow> string option"
  mh_createTemp :: "string option"
  mh_tempWrite :: bool
  mh_tempClose :: bool
  mh_remove :: "string \<Rightarrow> bool"
  mh_codesign :: "string list \<Rightarrow> string \<Rightarrow> bool \<times> string"

definition contents :: "file_contents \<Rightarrow> string \<Rightarrow> string" where
  "contents fs p = (case fs p of None \<Rightarrow> [] | Some c \<Rightarrow> c)"

definition write_file :: "mac_host \<Rightarrow> string \<Rightarrow> string option \<Rightarrow> file_contents \<Rightarrow> file_contents" where
  "write_file h p c fs = (\<lambda>q. if mh_file h q = mh_file h p then c else fs q)"

definition copyFile :: "mac_host \<Rightarrow> string \<Rightarrow> string \<Rightarrow> file_contents \<Rightarrow> bool \<times> file_contents" where
  "copyFile h src dst fs =
     (if fs src = None \<or> \<not> mh_open h src then (False, fs)
      else if \<not> mh_create h dst then (False, fs)
      else
        let fs = write_file h dst (Some []) fs; c = contents fs src in
        case mh_copyFails h src dst of
          Some n \<Rightarrow> (False, write_file h dst (Some (take n c)) fs)
        | None \<Rightarrow> (mh_close h dst, write_file h dst (Some c) fs))"

text \<open>A removal that fails is ignored.\<close>

definition remove_temp :: "mac_host \<Rightarrow> string \<Rightarrow> file_contents \<Rightarrow> file_contents" where
  "remove_temp h f fs = (if mh_remove h f then write_file h f None fs else fs)"

text \<open>The path of the file with the entitlements, empty when there are none; \<open>None\<close> is an error.\<close>

definition extractEntitlements :: "mac_host \<Rightarrow> string \<Rightarrow> file_contents \<Rightarrow> string option \<times> file_contents" where
  "extractEntitlements h bin fs =
     (case mh_entitlements h bin of
        None \<Rightarrow> (Some [], fs)
      | Some out \<Rightarrow>
          if length (TrimSpace out) = 0 \<or> \<not> Contains out ''<key>'' then (Some [], fs)
          else case mh_createTemp h of
            None \<Rightarrow> (None, fs)
          | Some f \<Rightarrow>
              if \<not> mh_tempWrite h then (None, remove_temp h f (write_file h f (Some []) fs))
              else if \<not> mh_tempClose h then (None, remove_temp h f (write_file h f (Some out) fs))
              else (Some f, write_file h f (Some out) fs))"

definition PrepareMacOSCopy :: "mac_host \<Rightarrow> string \<Rightarrow> string \<Rightarrow> file_contents \<Rightarrow> string option \<times> file_contents" where
  "PrepareMacOSCopy h realTarget dest fs =
     (if mh_goos h \<noteq> ''darwin'' then (None, fs)
      else if \<not> mh_mkdirAll h (Dir dest) then (None, fs)
      else case copyFile h realTarget dest fs of
        (False, fs) \<Rightarrow> (None, fs)
      | (True, fs) \<Rightarrow>
          (case extractEntitlements h realTarget fs of
             (None, fs) \<Rightarrow> (None, fs)
           | (Some ent, fs) \<Rightarrow>
               let args = [''--force'', ''--sign'', ''-''] @ (if ent \<noteq> [] then [''--entitlements'', ent] else []) @ [dest];
                   (ok, c) = mh_codesign h args (contents fs dest);
                   fs = write_file h dest (Some c) fs;
                   fs = (if ent \<noteq> [] then remove_temp h ent fs else fs)
               in (if ok then Some dest else None, fs)))"

subsection \<open>Lemmas\<close>

text \<open>What \<open>os.CreateTemp\<close> promises: a new file, so no path led to it before, and it is not the destination.\<close>

definition temp_fresh :: "mac_host \<Rightarrow> string \<Rightarrow> file_contents \<Rightarrow> bool" where
  "temp_fresh h dest fs \<longleftrightarrow> (\<forall>f. mh_createTemp h = Some f \<longrightarrow>
     f \<noteq> [] \<and> mh_file h f \<noteq> mh_file h dest \<and> (\<forall>p. mh_file h p = mh_file h f \<longrightarrow> fs p = None))"

text \<open>The path is one of the temporary file, and the removal of that file fails.\<close>

definition temp_left :: "mac_host \<Rightarrow> string \<Rightarrow> bool" where
  "temp_left h p \<longleftrightarrow> (\<exists>f. mh_createTemp h = Some f \<and> mh_file h p = mh_file h f \<and> \<not> mh_remove h f)"

lemma write_file_other [simp]: "mh_file h q \<noteq> mh_file h p \<Longrightarrow> write_file h p c fs q = fs q"
  by (simp add: write_file_def)

lemma write_file_same [simp]: "mh_file h q = mh_file h p \<Longrightarrow> write_file h p c fs q = c"
  by (simp add: write_file_def)

lemma remove_temp_other [simp]: "mh_file h q \<noteq> mh_file h f \<Longrightarrow> remove_temp h f fs q = fs q"
  by (simp add: remove_temp_def)

text \<open>A file that was written at the path of the temporary one and then removed again.\<close>

lemma remove_temp_restores:
  assumes "temp_fresh h dest fs" and "mh_createTemp h = Some f"
    and "\<And>q. mh_file h q \<noteq> mh_file h f \<Longrightarrow> fs' q = fs q" and "\<not> temp_left h p"
  shows "remove_temp h f fs' p = fs p"
proof (cases "mh_file h p = mh_file h f")
  case True
  with assms(2,4) have "mh_remove h f" by (auto simp: temp_left_def)
  moreover have "fs p = None" using assms(1,2) True by (auto simp: temp_fresh_def)
  ultimately show ?thesis using True by (simp add: remove_temp_def)
qed (simp add: assms(3))

lemma copyFile_other: "mh_file h p \<noteq> mh_file h dst \<Longrightarrow> snd (copyFile h src dst fs) p = fs p"
  by (simp add: copyFile_def Let_def split: option.split)

lemma copyFile_ok:
  assumes "copyFile h src dst fs = (True, fs')"
  shows "fs src \<noteq> None"
    and "fs' dst = Some (if mh_file h src = mh_file h dst then [] else contents fs src)"
  using assms by (auto simp: copyFile_def Let_def contents_def split: if_splits option.splits)

text \<open>The arguments \<open>codesign\<close> is given: the entitlements, when there are any, are those of the temporary file.\<close>

definition sign_args :: "string \<Rightarrow> string \<Rightarrow> string list" where
  "sign_args ent dest = [''--force'', ''--sign'', ''-''] @ (if ent \<noteq> [] then [''--entitlements'', ent] else []) @ [dest]"

lemma entitlements_files:
  assumes "extractEntitlements h bin fs = (r, fs')"
  shows "r = Some ent \<Longrightarrow> ent \<noteq> [] \<Longrightarrow> mh_createTemp h = Some ent"
    and "mh_createTemp h = Some f \<Longrightarrow> mh_file h q \<noteq> mh_file h f \<Longrightarrow> fs' q = fs q"
    and "mh_createTemp h = None \<Longrightarrow> fs' q = fs q"
    and "temp_fresh h dest fs \<Longrightarrow> r = None \<or> r = Some [] \<Longrightarrow> \<not> temp_left h p \<Longrightarrow> fs' p = fs p"
proof -
  show "r = Some ent \<Longrightarrow> ent \<noteq> [] \<Longrightarrow> mh_createTemp h = Some ent"
    using assms by (auto simp: extractEntitlements_def split: option.splits if_splits)
  show "mh_createTemp h = Some f \<Longrightarrow> mh_file h q \<noteq> mh_file h f \<Longrightarrow> fs' q = fs q"
    using assms by (auto simp: extractEntitlements_def split: option.splits if_splits)
  show "mh_createTemp h = None \<Longrightarrow> fs' q = fs q"
    using assms by (auto simp: extractEntitlements_def split: option.splits if_splits)
  show "temp_fresh h dest fs \<Longrightarrow> r = None \<or> r = Some [] \<Longrightarrow> \<not> temp_left h p \<Longrightarrow> fs' p = fs p"
    using assms remove_temp_restores [of h dest fs _ "write_file h _ _ fs" p]
    by (auto simp: extractEntitlements_def temp_fresh_def split: option.splits if_splits)
qed

text \<open>What the steps after a copy that succeeded come to.\<close>

lemma PrepareMacOSCopy_cases:
  assumes "PrepareMacOSCopy h src dest fs = (r, fs')" and "fs' \<noteq> fs \<or> r \<noteq> None"
  obtains (failed) fs1 where "copyFile h src dest fs = (False, fs1)" "r = None" "fs' = fs1"
  | (no_entitlements) fs1 where "copyFile h src dest fs = (True, fs1)" "extractEntitlements h src fs1 = (None, fs')" "r = None"
  | (signed) fs1 ent fs2 c where "copyFile h src dest fs = (True, fs1)" "extractEntitlements h src fs1 = (Some ent, fs2)"
      "c = snd (mh_codesign h (sign_args ent dest) (contents fs2 dest))"
      "fs' = (if ent \<noteq> [] then remove_temp h ent (write_file h dest (Some c) fs2) else write_file h dest (Some c) fs2)"
      "r = None \<or> r = Some dest"
  using assms
  by (fastforce simp: PrepareMacOSCopy_def sign_args_def Let_def split: if_splits prod.splits bool.splits option.splits)

lemma prepare_other_files:
  assumes prep: "PrepareMacOSCopy h src dest fs = (r, fs')" and fresh: "temp_fresh h dest fs"
    and other: "mh_file h p \<noteq> mh_file h dest" and gone: "\<not> temp_left h p"
  shows "fs' p = fs p"
proof (cases "fs' = fs")
  case False
  have fresh': "temp_fresh h dest fs1" if "copyFile h src dest fs = (ok, fs1)" for ok fs1
    using fresh copyFile_other [of h _ dest src fs] that by (fastforce simp: temp_fresh_def)
  have "fs' \<noteq> fs \<or> r \<noteq> None" using False by simp
  with prep show ?thesis
  proof (cases rule: PrepareMacOSCopy_cases)
    case failed
    then show ?thesis using copyFile_other [OF other, of src fs] by simp
  next
    case no_entitlements
    then show ?thesis
      using copyFile_other [OF other, of src fs] entitlements_files(4) [OF _ fresh' _ gone] by fastforce
  next
    case (signed fs1 ent fs2 c)
    have copied: "fs1 p = fs p" using copyFile_other [OF other, of src fs] signed(1) by simp
    show ?thesis
    proof (cases "ent = []")
      case True
      then show ?thesis
        using signed entitlements_files(4) [OF signed(2) fresh' _ gone] copied other by simp
    next
      case False
      note temp = entitlements_files(1) [OF signed(2) refl False]
      let ?fs = "write_file h dest (Some c) fs2"
      have "remove_temp h ent ?fs p = fs p"
      proof (cases "mh_file h p = mh_file h ent")
        case True
        then have "mh_remove h ent" "fs p = None"
          using gone temp fresh by (auto simp: temp_left_def temp_fresh_def)
        then show ?thesis using True by (simp add: remove_temp_def)
      next
        case False
        then show ?thesis using entitlements_files(2) [OF signed(2) temp False] copied other by simp
      qed
      then show ?thesis using signed False by simp
    qed
  qed
qed simp

lemma prepare_signs_copy:
  assumes prep: "PrepareMacOSCopy h src dest fs = (Some dest, fs')" and fresh: "temp_fresh h dest fs"
  obtains ent where "ent = [] \<or> mh_createTemp h = Some ent" "fs src \<noteq> None"
    "fs' dest = Some (snd (mh_codesign h (sign_args ent dest) (if mh_file h src = mh_file h dest then [] else contents fs src)))"
proof -
  have "fs' \<noteq> fs \<or> Some dest \<noteq> None" by simp
  with prep show ?thesis
  proof (cases rule: PrepareMacOSCopy_cases)
    case (signed fs1 ent fs2 c)
    note copied = copyFile_ok [OF signed(1)]
    have temp: "ent \<noteq> [] \<Longrightarrow> mh_createTemp h = Some ent \<and> mh_file h ent \<noteq> mh_file h dest"
      using entitlements_files(1) [OF signed(2)] fresh by (auto simp: temp_fresh_def)
    have "fs2 dest = fs1 dest"
      using entitlements_files(2,3) [OF signed(2)] fresh by (cases "mh_createTemp h") (auto simp: temp_fresh_def)
    with copied have "contents fs2 dest = (if mh_file h src = mh_file h dest then [] else contents fs src)"
      by (simp add: contents_def)
    moreover have "fs' dest = Some c"
      using signed(4) temp by auto
    ultimately show ?thesis
      using that [of ent] copied(1) signed(3) temp by auto
  qed simp_all
qed

subsection \<open>Properties\<close>

text \<open>
  C29: Making the copy changes no other file: on every path, errors included, what each path shows that does not
  lead to the destination's file is in the end as it was, and the temporary file is gone unless its own removal fails
  (the code ignores that error, and the file with the entitlements is then left behind). A destination that is a link
  changes the file it leads to, which is the one exempted. A success from another file leaves at the destination what
  \<open>codesign\<close>, told that destination and the temporary file's entitlements if there are any, makes of that file's
  contents. \<open>os.CreateTemp\<close> makes a new file, and \<open>codesign\<close> writes only the file it signs.
\<close>

theorem prepare_copy_touches_only_dest:
  assumes "temp_fresh h dest fs" and "mh_file h p \<noteq> mh_file h dest"
  shows "(snd (PrepareMacOSCopy h realTarget dest fs) p = fs p \<or>
      (\<exists>f. mh_createTemp h = Some f \<and> mh_file h p = mh_file h f \<and> \<not> mh_remove h f)) \<and>
    (fst (PrepareMacOSCopy h realTarget dest fs) = Some dest \<longrightarrow> mh_file h realTarget \<noteq> mh_file h dest \<longrightarrow>
       (\<exists>ent c. (ent = [] \<or> mh_createTemp h = Some ent) \<and> fs realTarget = Some c \<and>
          snd (PrepareMacOSCopy h realTarget dest fs) dest = Some (snd (mh_codesign h (sign_args ent dest) c))))"
proof -
  obtain r fs' where prep: "PrepareMacOSCopy h realTarget dest fs = (r, fs')" by fastforce
  have "\<exists>ent c. (ent = [] \<or> mh_createTemp h = Some ent) \<and> fs realTarget = Some c \<and>
      fs' dest = Some (snd (mh_codesign h (sign_args ent dest) c))"
    if success: "r = Some dest" and differ: "mh_file h realTarget \<noteq> mh_file h dest"
  proof -
    obtain ent where ent: "ent = [] \<or> mh_createTemp h = Some ent" "fs realTarget \<noteq> None"
        "fs' dest = Some (snd (mh_codesign h (sign_args ent dest) (contents fs realTarget)))"
      using prepare_signs_copy [of h realTarget dest fs fs'] prep assms(1) success differ by metis
    then show ?thesis by (intro exI [of _ ent] exI [of _ "contents fs realTarget"]) (auto simp: contents_def)
  qed
  then show ?thesis
    using prepare_other_files [OF prep assms] prep by (auto simp: temp_left_def)
qed

definition sample_mac :: mac_host where
  "sample_mac = \<lparr>mh_goos = ''darwin'', mh_file = (\<lambda>p. p), mh_mkdirAll = (\<lambda>p. True), mh_open = (\<lambda>p. True), mh_create = (\<lambda>p. True),
     mh_copyFails = (\<lambda>s d. None), mh_close = (\<lambda>p. True), mh_entitlements = (\<lambda>p. None), mh_createTemp = Some ''/t/e'',
     mh_tempWrite = True, mh_tempClose = True,
     mh_remove = (\<lambda>p. True), mh_codesign = (\<lambda>args c. (True, c @ ''!''))\<rparr>"

theorem prepare_copy_touches_only_dest_witness:
  "snd (PrepareMacOSCopy sample_mac ''/b/codex'' ''/t/copy'' [''/b/codex'' \<mapsto> ''ELF'']) ''/b/codex'' = Some ''ELF'' \<and>
   snd (PrepareMacOSCopy sample_mac ''/b/codex'' ''/t/copy'' [''/b/codex'' \<mapsto> ''ELF'']) ''/t/copy'' = Some ''ELF!''"
proof -
  have "temp_fresh sample_mac ''/t/copy'' [''/b/codex'' \<mapsto> ''ELF'']"
    by (simp add: temp_fresh_def sample_mac_def)
  moreover have "fst (PrepareMacOSCopy sample_mac ''/b/codex'' ''/t/copy'' [''/b/codex'' \<mapsto> ''ELF'']) = Some ''/t/copy''"
    by (simp add: PrepareMacOSCopy_def copyFile_def extractEntitlements_def sample_mac_def contents_def write_file_def)
  ultimately show ?thesis
    using prepare_copy_touches_only_dest [of sample_mac "''/t/copy''" "[''/b/codex'' \<mapsto> ''ELF'']" "''/b/codex''" "''/b/codex''"]
    by (simp add: sample_mac_def)
qed

text \<open>
  C39: A helper beside the target is destroyed when the target lies in the directory of the adapter's socket: the
  launcher then copies the helper onto itself, and a copy onto itself that succeeds leaves only what \<open>codesign\<close>
  makes of an empty file, whatever the helper was.
\<close>

theorem helper_copied_onto_itself:
  assumes "rh_exists h (JoinPath [Dir t, n])" and "Dir t = Dir dest" and "temp_fresh mac (JoinPath [Dir t, n]) fs"
    and "fst (PrepareMacOSCopy mac (JoinPath [Dir t, n]) (JoinPath [Dir t, n]) fs) = Some (JoinPath [Dir t, n])"
  shows "SignCopy (JoinPath [Dir t, n]) (JoinPath [Dir t, n]) \<in> set (fst (copy_helpers h t dest (n # ns))) \<and>
    (\<exists>args. snd (PrepareMacOSCopy mac (JoinPath [Dir t, n]) (JoinPath [Dir t, n]) fs) (JoinPath [Dir t, n]) =
       Some (snd (mh_codesign mac args [])))"
proof -
  obtain fs' where "PrepareMacOSCopy mac (JoinPath [Dir t, n]) (JoinPath [Dir t, n]) fs = (Some (JoinPath [Dir t, n]), fs')"
    using assms(4) by (metis prod.collapse)
  then show ?thesis
    using prepare_signs_copy [OF _ assms(3), of "JoinPath [Dir t, n]" fs'] assms(1,2) by (auto simp: Let_def)
qed

theorem helper_copied_onto_itself_witness:
  "\<exists>p. SignCopy p p \<in> set (fst (copy_helpers (linux_host\<lparr>rh_exists := (\<lambda>p. True)\<rparr>) ''/tmp/codex'' ''/tmp/copy'' [''helper''])) \<and>
     snd (PrepareMacOSCopy sample_mac p p [p \<mapsto> ''ELF'']) p = Some ''!''"
proof -
  let ?p = "JoinPath [Dir ''/tmp/codex'', ''helper'']"
  have dirs: "Dir ''/tmp/codex'' = ''/tmp''" "Dir ''/tmp/copy'' = ''/tmp''"
    by (simp_all add: Dir_def Clean_def clean_loop.simps)
  have path: "?p = ''/tmp/helper''"
    by (simp add: dirs JoinPath_def Clean_def clean_loop.simps)
  have "temp_fresh sample_mac ?p [?p \<mapsto> ''ELF'']"
    by (simp add: temp_fresh_def sample_mac_def path)
  moreover have "fst (PrepareMacOSCopy sample_mac ?p ?p [?p \<mapsto> ''ELF'']) = Some ?p"
    by (simp add: PrepareMacOSCopy_def copyFile_def extractEntitlements_def sample_mac_def write_file_def)
  ultimately show ?thesis
    using helper_copied_onto_itself [of "linux_host\<lparr>rh_exists := (\<lambda>p. True)\<rparr>" "''/tmp/codex''" "''helper''" "''/tmp/copy''" sample_mac "[?p \<mapsto> ''ELF'']" "[]"]
    by (intro exI [of _ ?p]) (auto simp: dirs sample_mac_def)
qed

end
