(* ===== verification/UnixSock.thy ===== *)
theory UnixSock
  imports Prelude
begin

section \<open>The Unix socket transport (internal/transport/unixsocket.go)\<close>

text \<open>
  Listeners and dialers of the processes of one host. A listener is a number; a socket file holds the number of the
  listener that made it, which may be gone. \<open>un_live\<close> has the listeners that are open, with their paths;
  \<open>un_locked\<close> says at which paths the process may not make or remove files.
\<close>

datatype unix_file = SocketFile nat | PlainFile | EmptyDir | FullDir

record unix_net =
  un_files :: "string \<Rightarrow> unix_file option"
  un_live :: "nat \<Rightarrow> string option"
  un_next :: nat
  un_locked :: "string \<Rightarrow> bool"

text \<open>\<open>os.Remove\<close>: files of any kind and empty directories. \<open>Some b\<close> is an error, \<open>b\<close> if nothing is there.\<close>

definition unix_Remove :: "string \<Rightarrow> unix_net \<Rightarrow> bool option \<times> unix_net" where
  "unix_Remove path n =
     (case un_files n path of
        None \<Rightarrow> (Some True, n)
      | Some f \<Rightarrow>
          if un_locked n path \<or> f = FullDir then (Some False, n)
          else (None, n\<lparr>un_files := (un_files n)(path := None)\<rparr>))"

text \<open>Binding makes the socket file, which must not be there; closing a listener unlinks its path.\<close>

definition unix_Listen :: "string \<Rightarrow> unix_net \<Rightarrow> nat option \<times> unix_net" where
  "unix_Listen path n =
     (if un_locked n path \<or> un_files n path \<noteq> None then (None, n)
      else (Some (un_next n),
        n\<lparr>un_files := (un_files n)(path \<mapsto> SocketFile (un_next n)),
          un_live := (un_live n)(un_next n \<mapsto> path), un_next := un_next n + 1\<rparr>))"

definition unix_Unlink :: "string \<Rightarrow> unix_net \<Rightarrow> unix_net" where
  "unix_Unlink path n =
     (case un_files n path of
        None \<Rightarrow> n
      | Some f \<Rightarrow>
          if un_locked n path \<or> f = EmptyDir \<or> f = FullDir then n
          else n\<lparr>un_files := (un_files n)(path := None)\<rparr>)"

definition ListenUnix :: "string \<Rightarrow> unix_net \<Rightarrow> nat option \<times> unix_net" where
  "ListenUnix path n =
     (case unix_Remove path n of
        (Some False, n) \<Rightarrow> (None, n)
      | (_, n) \<Rightarrow> unix_Listen path n)"

definition UnixListener_Close :: "string \<Rightarrow> nat \<Rightarrow> unix_net \<Rightarrow> unix_net" where
  "UnixListener_Close path l n =
     (let n = (if un_live n l = None then n else unix_Unlink path (n\<lparr>un_live := (un_live n)(l := None)\<rparr>))
      in snd (unix_Remove path n))"

definition UnixDial :: "string \<Rightarrow> unix_net \<Rightarrow> nat option" where
  "UnixDial path n =
     (case un_files n path of
        Some (SocketFile l) \<Rightarrow> if un_live n l \<noteq> None then Some l else None
      | _ \<Rightarrow> None)"

text \<open>What the processes of a host do: open listeners, close each once, and end without closing them.\<close>

datatype unix_op = OpenListener string | CloseListener nat | Killed nat

fun unix_do :: "unix_op \<Rightarrow> unix_net \<Rightarrow> unix_net" where
  "unix_do (OpenListener path) n = snd (ListenUnix path n)"
| "unix_do (CloseListener l) n = (case un_live n l of None \<Rightarrow> n | Some path \<Rightarrow> UnixListener_Close path l n)"
| "unix_do (Killed l) n = n\<lparr>un_live := (un_live n)(l := None)\<rparr>"

text \<open>A use of the sockets in which no process listens where another one does.\<close>

fun own_paths :: "unix_op list \<Rightarrow> unix_net \<Rightarrow> bool" where
  "own_paths [] n = True"
| "own_paths (x # xs) n =
     ((case x of OpenListener path \<Rightarrow> \<forall>l. un_live n l \<noteq> Some path | _ \<Rightarrow> True) \<and> own_paths xs (unix_do x n))"

definition unix_inv :: "unix_net \<Rightarrow> bool" where
  "unix_inv n \<longleftrightarrow>
     (\<forall>l path. un_live n l = Some path \<longrightarrow> un_files n path = Some (SocketFile l) \<and> l < un_next n)"

lemma unix_inv_remove:
  assumes "unix_inv n" and "\<And>l. un_live n l \<noteq> Some path"
  shows "unix_inv (snd (unix_Remove path n))" and "unix_inv (unix_Unlink path n)"
    and "un_live (unix_Unlink path n) = un_live n" and "un_live (snd (unix_Remove path n)) = un_live n"
  using assms by (auto simp: unix_inv_def unix_Remove_def unix_Unlink_def split: option.split)

lemma unix_inv_listen:
  assumes "unix_inv n" and "\<And>l. un_live n l \<noteq> Some path"
  shows "unix_inv (snd (unix_Listen path n))"
  using assms by (auto simp: unix_inv_def unix_Listen_def less_Suc_eq)

lemma unix_inv_one: "unix_inv n \<Longrightarrow> un_live n l = Some path \<Longrightarrow> un_live n k = Some path \<Longrightarrow> k = l"
  unfolding unix_inv_def by (metis option.inject unix_file.inject)

lemma unix_inv_del: "unix_inv n \<Longrightarrow> unix_inv (n\<lparr>un_live := (un_live n)(l := None)\<rparr>)"
  by (auto simp: unix_inv_def)

lemma unix_do_inv:
  assumes "unix_inv n" and "own_paths [x] n"
  shows "unix_inv (unix_do x n)"
proof (cases x)
  case (OpenListener path)
  then have free: "un_live n l \<noteq> Some path" for l
    using assms(2) by simp
  show ?thesis
  proof (cases "fst (unix_Remove path n) = Some False")
    case True
    then show ?thesis
      using unix_inv_remove(1) [OF assms(1) free] OpenListener
      by (cases "unix_Remove path n") (simp add: ListenUnix_def)
  next
    case False
    then have "unix_do x n = snd (unix_Listen path (snd (unix_Remove path n)))"
      using OpenListener by (auto simp: ListenUnix_def split: prod.split option.split bool.split)
    then show ?thesis
      using unix_inv_listen [OF unix_inv_remove(1) [OF assms(1) free]] unix_inv_remove(4) [OF assms(1) free] free by simp
  qed
next
  case (CloseListener l)
  show ?thesis
  proof (cases "un_live n l")
    case None
    then show ?thesis using assms(1) CloseListener by simp
  next
    case (Some path)
    let ?n = "n\<lparr>un_live := (un_live n)(l := None)\<rparr>"
    have inv: "unix_inv ?n" and free: "un_live ?n k \<noteq> Some path" for k
      using unix_inv_del [OF assms(1)] unix_inv_one [OF assms(1) Some] by auto
    note unlink = unix_inv_remove(2,3) [OF inv free]
    have "unix_inv (snd (unix_Remove path (unix_Unlink path ?n)))"
      by (rule unix_inv_remove(1) [OF unlink(1)]) (simp only: unlink(2) free not_False_eq_True)
    then show ?thesis
      using CloseListener Some by (simp add: UnixListener_Close_def)
  qed
next
  case (Killed l)
  then show ?thesis using unix_inv_del [OF assms(1)] by simp
qed

lemma unix_run_inv: "unix_inv n \<Longrightarrow> own_paths xs n \<Longrightarrow> unix_inv (fold unix_do xs n)"
  by (induction xs arbitrary: n) (use unix_do_inv in auto)

subsection \<open>Properties\<close>

text \<open>
  C37: Sockets at paths of their own work: as long as no process listens at a path where another one does, whatever
  listeners are opened, closed or killed, a dial at the path of an open listener reaches that listener, and a
  process can listen where a dead one left its socket.
\<close>

theorem own_socket_reachable:
  assumes "unix_inv n" and "own_paths xs n"
  shows "(un_live (fold unix_do xs n) l = Some path \<longrightarrow> UnixDial path (fold unix_do xs n) = Some l) \<and>
    (un_files (fold unix_do xs n) path = Some (SocketFile l) \<longrightarrow> \<not> un_locked (fold unix_do xs n) path \<longrightarrow>
       UnixDial path (fold unix_do xs n) = None \<longrightarrow>
       (\<exists>k n'. ListenUnix path (fold unix_do xs n) = (Some k, n') \<and> UnixDial path n' = Some k))"
  using unix_run_inv [OF assms]
  by (auto simp: unix_inv_def UnixDial_def ListenUnix_def unix_Remove_def unix_Listen_def)

text \<open>
  C38: Two servers at one path lose it: the second \<open>ListenUnix\<close> takes the path of a listener that still serves, and
  when the first one is closed it removes the socket of the second, which no dial reaches from then on
  although it is open. And whatever stands at the path, be it a regular file, is removed.
\<close>

theorem second_listener_cut_off:
  assumes "un_live n l = Some path" and "l < un_next n" and "\<not> un_locked n path" and "un_files n path \<noteq> Some FullDir"
  shows "\<exists>k n'. ListenUnix path n = (Some k, n') \<and> k \<noteq> l \<and> UnixDial path n' = Some k \<and>
    un_live (UnixListener_Close path l n') k = Some path \<and> UnixDial path (UnixListener_Close path l n') = None"
proof (intro exI conjI)
  let ?n' = "n\<lparr>un_files := (un_files n)(path \<mapsto> SocketFile (un_next n)),
      un_live := (un_live n)(un_next n \<mapsto> path), un_next := un_next n + 1\<rparr>"
  show "ListenUnix path n = (Some (un_next n), ?n')"
    using assms by (cases "un_files n path") (auto simp: ListenUnix_def unix_Remove_def unix_Listen_def)
  show "un_next n \<noteq> l" "UnixDial path ?n' = Some (un_next n)"
    using assms by (auto simp: UnixDial_def)
  show "un_live (UnixListener_Close path l ?n') (un_next n) = Some path" "UnixDial path (UnixListener_Close path l ?n') = None"
    using assms by (auto simp: UnixListener_Close_def unix_Unlink_def unix_Remove_def UnixDial_def)
qed

definition no_sockets :: unix_net where
  "no_sockets = \<lparr>un_files = [''/s/data'' \<mapsto> PlainFile], un_live = Map.empty, un_next = 0, un_locked = (\<lambda>p. False)\<rparr>"

theorem own_socket_reachable_witness:
  "UnixDial ''/s/a'' (fold unix_do [OpenListener ''/s/a'', OpenListener ''/s/b'', Killed 0, OpenListener ''/s/a'', CloseListener 1] no_sockets) = Some 2"
proof -
  let ?xs = "[OpenListener ''/s/a'', OpenListener ''/s/b'', Killed 0, OpenListener ''/s/a'', CloseListener 1]"
  have run: "un_live (fold unix_do ?xs no_sockets) 2 = Some ''/s/a''" and own: "own_paths ?xs no_sockets"
    by (auto simp: no_sockets_def ListenUnix_def unix_Remove_def unix_Listen_def UnixListener_Close_def unix_Unlink_def
        split: if_splits)
  have "unix_inv no_sockets"
    by (simp add: unix_inv_def no_sockets_def)
  from own_socket_reachable [OF this own, of 2 "''/s/a''"] run show ?thesis by blast
qed

theorem second_listener_cut_off_witness:
  "\<exists>k n'. ListenUnix ''/s/data'' (unix_do (OpenListener ''/s/data'') no_sockets) = (Some k, n') \<and>
     un_live (UnixListener_Close ''/s/data'' 0 n') k = Some ''/s/data'' \<and> UnixDial ''/s/data'' (UnixListener_Close ''/s/data'' 0 n') = None"
proof -
  have "un_live (unix_do (OpenListener ''/s/data'') no_sockets) 0 = Some ''/s/data''"
    "0 < un_next (unix_do (OpenListener ''/s/data'') no_sockets)"
    "\<not> un_locked (unix_do (OpenListener ''/s/data'') no_sockets) ''/s/data''"
    "un_files (unix_do (OpenListener ''/s/data'') no_sockets) ''/s/data'' \<noteq> Some FullDir"
    by (simp_all add: no_sockets_def ListenUnix_def unix_Remove_def unix_Listen_def)
  from second_listener_cut_off [OF this] show ?thesis by blast
qed

end
