(* ===== verification/Connections.thy ===== *)
theory Connections
  imports Executor
begin

section \<open>Many connections (Serve of internal/executor and internal/adapter)\<close>

text \<open>
  \<open>Serve\<close> starts a goroutine for each connection it accepts, and each has a filesystem service of its own: they
  share only the host. A state is the services at work, by the number of their connection, and the host; a step
  accepts a connection, serves a request of one, ends one (\<open>CloseAll\<close>), or is anything else that happens on the
  host between requests and neither opens nor closes a file of these processes. The connections interleave in
  any order.
\<close>

type_synonym ('f, 'w) services = "(nat \<Rightarrow> 'f fsservice option) \<times> 'w"

datatype 'w serve_op =
    AcceptStream nat
  | ServeRequest nat request
  | EndStream nat
  | Elsewhere 'w

fun serve_do ::
    "('f, 'w) os \<Rightarrow> ((u64 \<Rightarrow> 'f option) \<Rightarrow> u64 list) \<Rightarrow> 'w serve_op \<Rightarrow> ('f, 'w) services \<Rightarrow> ('f, 'w) services" where
  "serve_do sys order (AcceptStream i) (svcs, w) =
     (case svcs i of Some s \<Rightarrow> (svcs, w) | None \<Rightarrow> (svcs(i \<mapsto> NewFSService), w))"
| "serve_do sys order (ServeRequest i q) (svcs, w) =
     (case svcs i of
        None \<Rightarrow> (svcs, w)
      | Some s \<Rightarrow> (case fs_Handle sys q (s, w) of (resp, s, w) \<Rightarrow> (svcs(i \<mapsto> s), w)))"
| "serve_do sys order (EndStream i) (svcs, w) =
     (case svcs i of
        None \<Rightarrow> (svcs, w)
      | Some s \<Rightarrow> (case CloseAll sys (order (fs_open s)) (s, w) of (s, w) \<Rightarrow> (svcs(i := None), w)))"
| "serve_do sys order (Elsewhere w') (svcs, w) = (svcs, w')"

text \<open>Runs in which what happens elsewhere leaves the open files alone.\<close>

fun serve_all ::
    "('f, 'w) os \<Rightarrow> ((u64 \<Rightarrow> 'f option) \<Rightarrow> u64 list) \<Rightarrow> 'w serve_op list \<Rightarrow> ('f, 'w) services \<Rightarrow> ('f, 'w) services" where
  "serve_all sys order [] st = st"
| "serve_all sys order (x # xs) st = serve_all sys order xs (serve_do sys order x st)"

fun elsewhere_ok ::
    "('f, 'w) os \<Rightarrow> ((u64 \<Rightarrow> 'f option) \<Rightarrow> u64 list) \<Rightarrow> ('w \<Rightarrow> 'f set) \<Rightarrow> 'w serve_op list \<Rightarrow> ('f, 'w) services \<Rightarrow> bool" where
  "elsewhere_ok sys order opened [] st = True"
| "elsewhere_ok sys order opened (x # xs) st =
     ((case x of Elsewhere w' \<Rightarrow> opened w' = opened (snd st) | _ \<Rightarrow> True) \<and>
      elsewhere_ok sys order opened xs (serve_do sys order x st))"

definition files_of :: "(nat \<Rightarrow> 'f fsservice option) \<Rightarrow> nat \<Rightarrow> 'f set" where
  "files_of svcs i = (case svcs i of None \<Rightarrow> {} | Some s \<Rightarrow> ran (fs_open s))"

text \<open>
  The invariant: the open files are those open at first and those of the services, each owned by one handle of one
  service; \<open>n\<close> bounds the handles given out.
\<close>

definition services_ok :: "('w \<Rightarrow> 'f set) \<Rightarrow> 'f set \<Rightarrow> nat \<Rightarrow> ('f, 'w) services \<Rightarrow> bool" where
  "services_ok opened base n = (\<lambda>(svcs, w).
     opened w = base \<union> (\<Union>i. files_of svcs i) \<and>
     (\<forall>i. base \<inter> files_of svcs i = {}) \<and>
     (\<forall>i j. i \<noteq> j \<longrightarrow> files_of svcs i \<inter> files_of svcs j = {}) \<and>
     (\<forall>i s. svcs i = Some s \<longrightarrow> inj_on (fs_open s) (dom (fs_open s)) \<and>
        (\<forall>h \<in> dom (fs_open s). h < fs_next s) \<and> unat (fs_next s) \<le> n + 1))"

lemma files_of_upd: "files_of (svcs(i := x)) j = (if j = i then (case x of None \<Rightarrow> {} | Some s \<Rightarrow> ran (fs_open s)) else files_of svcs j)"
  by (simp add: files_of_def)

text \<open>One service with everything else as its base, and back.\<close>

lemma services_owns:
  assumes "services_ok opened base n (svcs, w)" and "svcs i = Some s"
  shows "fs_owns opened (opened w - ran (fs_open s)) (s, w)"
proof -
  have "files_of svcs i = ran (fs_open s)"
    using assms(2) by (simp add: files_of_def)
  then have "ran (fs_open s) \<subseteq> opened w"
    using assms(1) by (auto simp: services_ok_def)
  then show ?thesis
    using assms by (auto simp: fs_owns_def services_ok_def)
qed

lemma others_files:
  assumes "services_ok opened base n (svcs, w)" and "svcs i = Some s"
  shows "opened w - ran (fs_open s) = base \<union> (\<Union>j \<in> - {i}. files_of svcs j)"
proof -
  have i: "files_of svcs i = ran (fs_open s)"
    using assms(2) by (simp add: files_of_def)
  have "(\<Union>j. files_of svcs j) = files_of svcs i \<union> (\<Union>j \<in> - {i}. files_of svcs j)"
    by auto
  moreover have "files_of svcs i \<inter> (base \<union> (\<Union>j \<in> - {i}. files_of svcs j)) = {}"
    using assms(1) by (fastforce simp: services_ok_def)
  ultimately show ?thesis
    using assms(1) i by (auto simp: services_ok_def)
qed

lemma services_update:
  assumes ok: "services_ok opened base n (svcs, w)" and i: "svcs i = Some s"
    and own: "fs_owns opened (opened w - ran (fs_open s)) (s', w')"
    and below: "\<forall>h \<in> dom (fs_open s'). h < fs_next s'" "unat (fs_next s') \<le> n + 2"
  shows "services_ok opened base (n + 1) (svcs(i \<mapsto> s'), w')"
proof -
  let ?rest = "base \<union> (\<Union>j \<in> - {i}. files_of svcs j)"
  have rest: "opened w' = ?rest \<union> ran (fs_open s')" "?rest \<inter> ran (fs_open s') = {}"
      "inj_on (fs_open s') (dom (fs_open s'))"
    using own unfolding others_files [OF ok i] by (auto simp: fs_owns_def)
  have files: "files_of (svcs(i \<mapsto> s')) j = (if j = i then ran (fs_open s') else files_of svcs j)" for j
    by (simp add: files_of_upd)
  have "(\<Union>j. files_of (svcs(i \<mapsto> s')) j) = ran (fs_open s') \<union> (\<Union>j \<in> - {i}. files_of svcs j)"
    by (auto simp: files split: if_splits)
  then have all: "opened w' = base \<union> (\<Union>j. files_of (svcs(i \<mapsto> s')) j)"
    using rest(1) by auto
  have inv: "base \<inter> files_of svcs j = {}" "j \<noteq> k \<Longrightarrow> files_of svcs j \<inter> files_of svcs k = {}"
      "svcs j = Some t \<Longrightarrow> inj_on (fs_open t) (dom (fs_open t)) \<and>
        (\<forall>h \<in> dom (fs_open t). h < fs_next t) \<and> unat (fs_next t) \<le> n + 1" for j k t
    using ok by (simp_all add: services_ok_def)
  have "base \<inter> files_of (svcs(i \<mapsto> s')) j = {}" for j
    using rest(2) inv(1) [of j] by (auto simp: files)
  moreover have "files_of (svcs(i \<mapsto> s')) j \<inter> files_of (svcs(i \<mapsto> s')) k = {}" if "j \<noteq> k" for j k
    using that rest(2) inv(2) [of j k] unfolding files by (cases "j = i"; cases "k = i") (simp_all, blast+)
  moreover have "inj_on (fs_open t) (dom (fs_open t)) \<and> (\<forall>h \<in> dom (fs_open t). h < fs_next t) \<and> unat (fs_next t) \<le> n + 1 + 1"
    if "(svcs(i \<mapsto> s')) j = Some t" for j t
    using that rest(3) below inv(3) [of j t] by (cases "j = i") auto
  ultimately show ?thesis
    unfolding services_ok_def prod.case using all by blast
qed

text \<open>A request keeps the invariant, and so does the end of a connection, which closes its own files only.\<close>

lemma services_request:
  assumes "os_tracks sys opened" and ok: "services_ok opened base n (svcs, w)" and "svcs i = Some s"
    and q: "fs_Handle sys q (s, w) = (r, s', w')" and "n < 2 ^ 64 - 2"
  shows "services_ok opened base (n + 1) (svcs(i \<mapsto> s'), w')"
proof (rule services_update [OF ok assms(3)])
  have s: "\<forall>h \<in> dom (fs_open s). h < fs_next s" "unat (fs_next s) \<le> n + 1"
    using ok assms(3) by (auto simp: services_ok_def)
  show "fs_owns opened (opened w - ran (fs_open s)) (s', w')"
    by (rule fs_Handle_owns [OF assms(1) services_owns [OF ok assms(3)] q]) (use s(1) in auto)
  have one: "run (fs_Handle sys) [q] (s, w) = ([r], s', w')"
    using q by simp
  have "unat (fs_next s) + 1 < 2 ^ 64"
    using s(2) assms(5) by simp
  then show "\<forall>h \<in> dom (fs_open s'). h < fs_next s'"
    using fs.live_below [OF one] s(1) by simp
  show "unat (fs_next s') \<le> n + 2"
    using fs.opens [OF _ q] fs.keeps_next [OF q] s(2) word_plus_one [of "fs_next s" 1] \<open>unat (fs_next s) + 1 < 2 ^ 64\<close>
    by (cases "is_open q \<and> rs_Err r = 0") auto
qed

lemma services_end:
  assumes "os_tracks sys opened" and "range_order order" and ok: "services_ok opened base n (svcs, w)" and "svcs i = Some s"
    and c: "CloseAll sys (order (fs_open s)) (s, w) = (s', w')"
  shows "opened w' = opened w - ran (fs_open s)" and "services_ok opened base n (svcs(i := None), w')"
proof -
  have "dom (fs_open s) \<subseteq> set (order (fs_open s))"
    using assms(2) by (simp add: range_order_def)
  from CloseAll_owns [OF assms(1) services_owns [OF ok assms(4)] this c]
  show opened: "opened w' = opened w - ran (fs_open s)" by blast
  have files: "files_of (svcs(i := None)) j = (if j = i then {} else files_of svcs j)" for j
    by (simp add: files_of_upd)
  have "(\<Union>j. files_of (svcs(i := None)) j) = (\<Union>j \<in> - {i}. files_of svcs j)"
    by (auto simp: files split: if_splits)
  then have "opened w' = base \<union> (\<Union>j. files_of (svcs(i := None)) j)"
    using opened others_files [OF ok assms(4)] by simp
  then show "services_ok opened base n (svcs(i := None), w')"
    using ok by (auto simp: services_ok_def files)
qed

lemma services_ok_mono: "services_ok opened base n st \<Longrightarrow> n \<le> m \<Longrightarrow> services_ok opened base m st"
  unfolding services_ok_def by (fastforce intro: le_trans)

lemma serve_do_ok:
  assumes "os_tracks sys opened" and "range_order order" and "services_ok opened base n st" and "n < 2 ^ 64 - 2"
    and "case x of Elsewhere w' \<Rightarrow> opened w' = opened (snd st) | _ \<Rightarrow> True"
  shows "services_ok opened base (n + 1) (serve_do sys order x st)"
proof (cases st)
  case st: (Pair svcs w)
  note ok = assms(3) [unfolded st]
  note same = services_ok_mono [OF ok, of "n + 1", simplified]
  show ?thesis
  proof (cases x)
    case (AcceptStream i)
    show ?thesis
    proof (cases "svcs i")
      case None
      have files: "files_of (svcs(i \<mapsto> NewFSService)) = files_of svcs"
        by (rule ext) (simp add: files_of_def None NewFSService_def)
      show ?thesis
        using same None AcceptStream st unfolding services_ok_def
        by (auto simp: files fs_new_simps split: if_splits)
    qed (use same AcceptStream st in simp)
  next
    case (ServeRequest i q)
    show ?thesis
    proof (cases "svcs i")
      case (Some s)
      obtain r s' w' where "fs_Handle sys q (s, w) = (r, s', w')" by (metis prod_cases3)
      with services_request [OF assms(1) ok Some this assms(4)] show ?thesis
        using Some ServeRequest st by simp
    qed (use same ServeRequest st in simp)
  next
    case (EndStream i)
    show ?thesis
    proof (cases "svcs i")
      case (Some s)
      obtain s' w' where "CloseAll sys (order (fs_open s)) (s, w) = (s', w')" by fastforce
      with services_ok_mono [OF services_end(2) [OF assms(1,2) ok Some this], of "n + 1"] show ?thesis
        using Some EndStream st by simp
    qed (use same EndStream st in simp)
  next
    case (Elsewhere w')
    then show ?thesis
      using same assms(5) st by (simp add: services_ok_def)
  qed
qed

lemma serve_all_ok:
  assumes "os_tracks sys opened" and "range_order order"
  shows "services_ok opened base n st \<Longrightarrow> n + length xs < 2 ^ 64 - 1 \<Longrightarrow> elsewhere_ok sys order opened xs st \<Longrightarrow>
    services_ok opened base (n + length xs) (serve_all sys order xs st)"
proof (induction xs arbitrary: n st)
  case (Cons x xs)
  have "services_ok opened base (n + 1) (serve_do sys order x st)"
    using Cons.prems by (intro serve_do_ok [OF assms]) auto
  from Cons.IH [OF this] Cons.prems(2,3) show ?case by simp
qed simp

subsection \<open>Properties\<close>

text \<open>
  C12: No connection disturbs another: whatever connections are accepted, served and ended, in any interleaving and
  with anything else going on between the requests, every live handle of a connection stands for an open file that
  no other handle of any connection stands for; the end of a connection closes its own files and no other; and
  when no connection is left exactly the files open before are open.
\<close>

theorem connections_isolated:
  assumes "os_tracks sys opened" and "range_order order" and "length xs < 2 ^ 64 - 1"
    and "elsewhere_ok sys order opened xs (Map.empty, w0)" and "serve_all sys order xs (Map.empty, w0) = (svcs, w)"
  shows "(\<forall>i s h f. svcs i = Some s \<longrightarrow> fs_open s h = Some f \<longrightarrow>
      f \<in> opened w \<and> f \<notin> opened w0 \<and>
      (\<forall>j t g. svcs j = Some t \<longrightarrow> fs_open t g = Some f \<longrightarrow> j = i \<and> g = h)) \<and>
    (\<forall>i s. svcs i = Some s \<longrightarrow>
      opened (snd (serve_do sys order (EndStream i) (svcs, w))) = opened w - ran (fs_open s)) \<and>
    (svcs = Map.empty \<longrightarrow> opened w = opened w0)"
proof -
  have "services_ok opened (opened w0) 0 (Map.empty, w0)"
    by (simp add: services_ok_def files_of_def)
  from serve_all_ok [OF assms(1,2) this _ assms(4)] assms(3,5)
  have ok: "services_ok opened (opened w0) (length xs) (svcs, w)" by simp
  have "f \<in> opened w \<and> f \<notin> opened w0 \<and> (\<forall>j t g. svcs j = Some t \<longrightarrow> fs_open t g = Some f \<longrightarrow> j = i \<and> g = h)"
    if s: "svcs i = Some s" and f: "fs_open s h = Some f" for i s h f
  proof -
    have fi: "f \<in> files_of svcs i"
      using s f by (auto simp: files_of_def intro: ranI)
    have "j = i \<and> g = h" if t: "svcs j = Some t" "fs_open t g = Some f" for j t g
    proof -
      have "f \<in> files_of svcs j"
        using t by (auto simp: files_of_def intro: ranI)
      with fi have "j = i"
        using ok unfolding services_ok_def prod.case by blast
      with t s have "fs_open s g = fs_open s h" "g \<in> dom (fs_open s)" "h \<in> dom (fs_open s)"
        using f by auto
      moreover have "inj_on (fs_open s) (dom (fs_open s))"
        using ok s by (simp add: services_ok_def)
      ultimately show ?thesis
        using \<open>j = i\<close> by (blast dest: inj_onD)
    qed
    with fi show ?thesis
      using ok unfolding services_ok_def prod.case by blast
  qed
  moreover have "opened (snd (serve_do sys order (EndStream i) (svcs, w))) = opened w - ran (fs_open s)"
    if "svcs i = Some s" for i s
    using services_end(1) [OF assms(1,2) ok that] that by (simp split: prod.split)
  moreover have "opened w = opened w0" if "svcs = Map.empty"
    using ok that by (simp add: services_ok_def files_of_def)
  ultimately show ?thesis by blast
qed

definition two_connections :: "mem serve_op list" where
  "two_connections = [AcceptStream 0, ServeRequest 0 ((request0 OpOpen)\<lparr>rq_Path := ''/w/f''\<rparr>),
     AcceptStream 1, ServeRequest 1 ((request0 OpOpen)\<lparr>rq_Path := ''/w/f''\<rparr>)]"


lemma two_connections_run:
  "serve_all memos sorted_order two_connections (Map.empty, sample_world) =
     ([0 \<mapsto> \<lparr>fs_next = 2, fs_open = [1 \<mapsto> 1]\<rparr>, 1 \<mapsto> \<lparr>fs_next = 2, fs_open = [1 \<mapsto> 2]\<rparr>],
      sample_world\<lparr>m_fds := [(2, ''/w/f''), (1, ''/w/f'')]\<rparr>)"
  by (simp add: two_connections_def sample_world_def NewFSService_def fs_Handle_def request0_def
      fs_openFile_def openWithMode_def memos_def mem_open_def mem_node_def Clean_wf fresh_fd_def
      mem_fstat_def mem_stat_def fileMode_def Perm_def mode_IsDir_def numeral_2_eq_2)

theorem connections_isolated_witness:
  "mem_opened (snd (serve_do memos sorted_order (EndStream 0)
     (serve_all memos sorted_order two_connections (Map.empty, sample_world)))) = {2}"
proof -
  have "elsewhere_ok memos sorted_order mem_opened two_connections (Map.empty, sample_world)"
    by (simp add: two_connections_def)
  note isolated = connections_isolated [OF memos_tracks range_order_sorted _ this two_connections_run]
  have "mem_opened (snd (serve_do memos sorted_order (EndStream 0)
      (serve_all memos sorted_order two_connections (Map.empty, sample_world)))) =
    mem_opened (sample_world\<lparr>m_fds := [(2, ''/w/f''), (1, ''/w/f'')]\<rparr>) - ran (fs_open \<lparr>fs_next = 2, fs_open = [1 \<mapsto> 1]\<rparr>)"
    unfolding two_connections_run
    by (rule isolated [THEN conjunct2, THEN conjunct1, rule_format]) (simp_all add: two_connections_def)
  then show ?thesis by (simp add: mem_opened_def) auto
qed

end
