(* ===== verification/Severed.thy ===== *)
theory Severed
  imports EndToEnd
begin

section \<open>A stream that the executor has closed\<close>

text \<open>
  What a session does when the executor has ended the stream, which \<open>serveFS\<close> does on an answer it cannot send: one
  larger than \<open>MaxFrame\<close>, although the request for it, a read of more than 64 MiB, is a small frame. The session
  neither notices nor dials again.
\<close>

definition severed :: "('f, nat) session \<Rightarrow> ('g, 'l, 'r) net \<Rightarrow> bool" where
  "severed s w \<longleftrightarrow> (\<exists>c b. se_remote s = Some (c, b) \<and> c < length (nt_streams w) \<and>
     st_ended (nt_streams w ! c) \<and> st_out (nt_streams w ! c) = [])"

text \<open>The session's stream, after the executor has ended it and closed the files of \<open>fs\<close>.\<close>

definition cut_off :: "('f, nat) session \<Rightarrow> ('g, 'l, 'r) net \<Rightarrow> 'g fsservice \<Rightarrow> bool" where
  "cut_off s w fs \<longleftrightarrow> (\<exists>c b. se_remote s = Some (c, b) \<and> c < length (nt_streams w) \<and>
     nt_streams w ! c = \<lparr>st_kind = True, st_in = [], st_out = [], st_fs = fs, st_ended = True\<rparr>)"

lemma cut_off_severed: "cut_off s w fs \<Longrightarrow> severed s w"
  by (auto simp: cut_off_def severed_def)

subsection \<open>Remote calls on it\<close>

text \<open>A writer that takes everything and changes nothing.\<close>

lemma quiet_Flush: "\<forall>bs. wr bs w = (None, w) \<Longrightarrow> \<exists>e b'. bufio_Flush wr (b, w) = (e, b', w)"
  by (auto simp: bufio_Flush_def split: option.splits)

lemma quiet_Write: "\<forall>bs. wr bs w = (None, w) \<Longrightarrow> \<exists>e b'. bufio_Write wr p (b, w) = (e, b', w)"
  by (auto simp: bufio_Write_def bufio_Flush_def Let_def split: option.splits)

lemma quiet_SendRequest:
  assumes "\<forall>bs. wr bs w = (None, w)"
  shows "\<exists>e b'. SendRequest wr q (b, w) = (e, b', w)"
proof (cases "encodeRequest q")
  case (Inl e)
  then show ?thesis by (simp add: SendRequest_def WriteRequest_def)
next
  case (Inr body)
  obtain e1 b1 where h: "bufio_Write wr (be32 (word_of_nat (length body))) (b, w) = (e1, b1, w)"
    using quiet_Write [of wr w] assms by blast
  obtain e2 b2 where d: "bufio_Write wr body (b1, w) = (e2, b2, w)"
    using quiet_Write [of wr w] assms by blast
  obtain e3 b3 where f: "bufio_Flush wr (b2, w) = (e3, b3, w)"
    using quiet_Flush [of wr w] assms by blast
  show ?thesis
    by (cases e1; cases e2; cases e3) (simp_all add: SendRequest_def WriteRequest_def writeFrame_def Inr h d f)
qed

lemma severed_remoteRPC:
  assumes "severed s w"
  shows "\<exists>b. remoteRPC (net_link rsys order) q (s, w) = (io_failure, s\<lparr>se_remote := Some (fst (the (se_remote s)), b)\<rparr>, w)"
proof -
  obtain c b where s: "se_remote s = Some (c, b)" "c < length (nt_streams w)" "st_ended (nt_streams w ! c)"
      "st_out (nt_streams w ! c) = []"
    using assms by (auto simp: severed_def)
  obtain e b' where send: "SendRequest (net_write c) q (b, w) = (e, b', w)"
    using quiet_SendRequest [of "net_write c" w q b] s(3) by (auto simp: net_write_def)
  have "executor_turn rsys order (nt_streams w ! c) (nt_remote w) = (nt_streams w ! c, nt_remote w)"
    using s(3) by (simp add: executor_turn_def Let_def split: list.split)
  moreover have "(nt_streams w ! c)\<lparr>st_out := []\<rparr> = nt_streams w ! c"
    using s(4) by (cases "nt_streams w ! c") simp
  then have "w\<lparr>nt_streams := (nt_streams w)[c := (nt_streams w ! c)\<lparr>st_out := []\<rparr>]\<rparr> = w"
    by simp
  ultimately have "net_read rsys order c 4 w = (Inl EOF, w)"
    using s by (simp add: net_read_def buf_read_def)
  then have "\<exists>x. ConnReadResponse (net_read rsys order c) (rq_Op q) w = (Inl x, w)"
    by (simp add: ConnReadResponse_def ReadResponse_def readFrame_def)
  with send s(1) show ?thesis
    by (cases e) (auto simp: remoteRPC_def remote_conn_def net_link_def)
qed

lemma severed_localRPC:
  assumes "localRPC (local_os lsys) q (s, w) = (a, s', w')"
  shows "se_remote s' = se_remote s \<and> nt_streams w' = nt_streams w \<and> nt_remote w' = nt_remote w"
  using assms by (auto simp: localRPC_def local_os_Handle in_net_def split: prod.splits)

subsection \<open>Sessions over it\<close>

lemma severed_step:
  assumes "severed s w" and "session_handle (local_os lsys) (net_link rsys order) route q (s, w) = (a, s', w')"
  shows "severed s' w' \<and> nt_remote w' = nt_remote w \<and> (for_executor route q s \<longrightarrow> a = io_failure)"
proof -
  have remote: "severed s2 w2 \<and> nt_remote w2 = nt_remote w \<and> r = io_failure"
    if "remoteRPC (net_link rsys order) q' (t, w) = (r, s2, w2)" "severed t w" for q' t r s2 w2
    using that severed_remoteRPC [OF that(2), of rsys order q'] by (auto simp: severed_def)
  have loc: "severed s2 w2 \<and> nt_remote w2 = nt_remote w"
    if "localRPC (local_os lsys) q' (t, w) = (r, s2, w2)" "severed t w" for q' t r s2 w2
    using that severed_localRPC [OF that(1)] by (simp add: severed_def)
  have upd: "severed (t\<lparr>se_handles := h\<rparr>) v \<longleftrightarrow> severed t v" "severed (t\<lparr>se_next := n\<rparr>) v \<longleftrightarrow> severed t v"
    for t :: "('a, nat) session" and v :: "('b, 'c, 'd) net" and h n
    by (simp_all add: severed_def)
  have fail: "rs_Err io_failure \<noteq> 0"
    by (simp add: io_failure_def)
  note step = assms(2)
  consider (opens) "is_open q" | (handle) "by_handle q" | (path) "\<not> is_open q" "\<not> by_handle q" by blast
  then show ?thesis
  proof cases
    case opens
    then have "\<not> by_handle q" "rq_Op q \<noteq> OpRename" by (auto simp: is_open_def by_handle_def)
    with opens step assms(1) show ?thesis
      by (auto simp: session_handle_open se_open_def Let_def for_executor_def upd fail
          dest!: remote loc split: if_splits prod.splits)
  next
    case handle
    with step assms(1) show ?thesis
      by (auto simp: session_handle_by_handle byHandle_def Let_def for_executor_def upd
          dest!: remote loc split: if_splits prod.splits option.splits)
  next
    case path
    with step assms(1) show ?thesis
      by (auto simp: session_handle_def Let_def forwardByPath_def se_rename_def for_executor_def is_open_def by_handle_def
          path_op_def dest!: remote loc split: if_splits prod.splits)
  qed
qed

lemma severed_run:
  "severed s w \<Longrightarrow> run (session_handle (local_os lsys) (net_link rsys order) route) qs (s, w) = (rs, s', w') \<Longrightarrow>
   severed s' w' \<and> nt_remote w' = nt_remote w"
proof (induction qs arbitrary: s w rs)
  case (Cons q qs)
  obtain a s1 w1 where q: "session_handle (local_os lsys) (net_link rsys order) route q (s, w) = (a, s1, w1)"
    by (metis prod_cases3)
  obtain rs1 where "run (session_handle (local_os lsys) (net_link rsys order) route) qs (s1, w1) = (rs1, s', w')"
    using Cons.prems(2) q by (auto simp: Let_def split: prod.splits)
  with Cons.IH severed_step [OF Cons.prems(1) q] show ?case by metis
qed simp

subsection \<open>An answer that is too large\<close>

lemma oversized_turn:
  assumes "encodeRequest q = Inr b" and "length b \<le> MaxFrame"
    and "fs_Handle rsys q (fs, r) = (a, fs', r')" and "MaxFrame < length (encodeResponse (rq_Op q) a)"
    and "p = (idle fs [])\<lparr>st_in := frame b\<rparr> \<or>
      p = \<lparr>st_kind = False, st_in = StreamKindFS # frame b, st_out = [], st_fs = fs, st_ended = False\<rparr>"
    and "CloseAll rsys (order (fs_open fs')) (fs', r') = (fs'', r'')"
  shows "executor_turn rsys order p r = (\<lparr>st_kind = True, st_in = [], st_out = [], st_fs = fs'', st_ended = True\<rparr>, r'')"
proof -
  let ?out = "\<lparr>sk_out = [], sk_room = None\<rparr>"
  have read: "ConnReadRequest buf_read (frame b) = (Inr (relevant q), [])"
    using ReadRequest_wire [OF assms(1,2), of "[]"] by (simp add: ConnReadRequest_def)
  have send: "SendResponse sink_write (rq_Op q) a (NewConn, ?out) =
      (Some (FrameTooLarge (length (encodeResponse (rq_Op q) a))), NewConn, ?out)"
    using assms(4) by (simp add: SendResponse_def WriteResponse_def writeFrame_def)
  have "serve_loop (fs_Handle rsys) (frame b) (NewConn, ?out) (fs, r) = ((NewConn, ?out), fs', r')"
    by (subst serve_loop.simps) (simp add: read fs_Handle_relevant assms(3) send)
  moreover have "serve_ends (fs_Handle rsys) (frame b) (NewConn, ?out) (fs, r)"
    using assms(4) by (simp add: serve_ends_request [OF assms(1-3)])
  ultimately show ?thesis
    using assms(5,6) by (auto simp: executor_turn_def idle_def)
qed

lemma oversized_remoteRPC:
  assumes "linked s w fs" and "encodeRequest q = Inr b" and "length b \<le> MaxFrame"
    and "fs_Handle rsys q (fs, nt_remote w) = (a, fs', r')" and "MaxFrame < length (encodeResponse (rq_Op q) a)"
    and "CloseAll rsys (order (fs_open fs')) (fs', r') = (fs'', r'')"
  shows "\<exists>c w'. remoteRPC (net_link rsys order) q (s, w) = (io_failure, s\<lparr>se_remote := Some (c, NewConn)\<rparr>, w') \<and>
    cut_off (s\<lparr>se_remote := Some (c, NewConn)\<rparr>) w' fs'' \<and> nt_remote w' = r'' \<and> nt_local w' = nt_local w"
proof -
  obtain c w1 w2 where conn: "remote_conn (net_link rsys order) (s, w) =
        (Some (c, NewConn), s\<lparr>se_remote := Some (c, NewConn)\<rparr>, w1)"
      and send: "SendRequest (net_write c) q (NewConn, w1) = (None, NewConn, w2)"
      and w2: "c < length (nt_streams w2)" "nt_remote w2 = nt_remote w" "nt_local w2 = nt_local w"
      and shape: "nt_streams w2 ! c = (idle fs [])\<lparr>st_in := frame b\<rparr> \<or>
        nt_streams w2 ! c = \<lparr>st_kind = False, st_in = StreamKindFS # frame b, st_out = [], st_fs = fs, st_ended = False\<rparr>"
    by (rule net_send [OF assms(1-3)])
  let ?ended = "\<lparr>st_kind = True, st_in = [], st_out = [], st_fs = fs'', st_ended = True\<rparr>"
  let ?w3 = "w2\<lparr>nt_remote := r'', nt_streams := (nt_streams w2)[c := ?ended]\<rparr>"
  have "executor_turn rsys order (nt_streams w2 ! c) (nt_remote w2) = (?ended, r'')"
    unfolding w2(2) by (rule oversized_turn [where order = order, OF assms(2,3,4,5) shape assms(6)])
  then have "net_read rsys order c 4 w2 = (Inl EOF, ?w3)"
    by (simp add: net_read_def buf_read_def)
  then have "\<exists>x. ConnReadResponse (net_read rsys order c) (rq_Op q) w2 = (Inl x, ?w3)"
    by (simp add: ConnReadResponse_def ReadResponse_def readFrame_def)
  with conn send w2 show ?thesis
    by (intro exI [of _ c] exI [of _ ?w3]) (auto simp: remoteRPC_def net_link_def cut_off_def)
qed

lemma encode_pread: "rq_Op q = OpPread \<Longrightarrow> \<exists>b. encodeRequest q = Inr b \<and> length b \<le> MaxFrame"
  by (simp add: encodeRequest_def put_simps MaxFrame_def)

subsection \<open>Properties\<close>

text \<open>
  C14: A large read cuts the session off: when a target reads so much of a remote file at once that the answer does not
  fit in a frame, the executor ends the stream and closes all files of the session, the read fails with \<open>EIO\<close>, and
  so does every later request for the executor, whatever it is and whatever was done in between: none reaches
  the remote host again.
\<close>

theorem large_read_cuts_session_off:
  assumes "simulates (s, w) st" and "rq_Op q = OpPread"
    and "ho_handles st (rq_Handle q) = Some \<lparr>hr_remote = True, hr_real = h\<rparr>"
    and "fs_Handle rsys (q\<lparr>rq_Handle := h\<rparr>) (ho_rfs st, ho_r st) = (a, fs', r')"
    and "MaxFrame < length (encodeResponse OpPread a)"
    and "run (session_handle (local_os lsys) (net_link rsys order) route) (q # qs) (s, w) = (rs, s', w')"
  shows "hd rs = io_failure \<and> nt_remote w' = snd (CloseAll rsys (order (fs_open fs')) (fs', r')) \<and>
    (\<forall>q'. for_executor route q' s' \<longrightarrow>
       (\<exists>s'' w''. session_handle (local_os lsys) (net_link rsys order) route q' (s', w') = (io_failure, s'', w'') \<and>
         nt_remote w'' = nt_remote w'))"
proof -
  let ?serve = "session_handle (local_os lsys) (net_link rsys order) route"
  let ?q = "q\<lparr>rq_Handle := h\<rparr>"
  have sim: "linked s w (ho_rfs st)" "nt_remote w = ho_r st" "se_handles s = ho_handles st"
    using assms(1) by (simp_all add: simulates_def)
  obtain b where b: "encodeRequest ?q = Inr b" "length b \<le> MaxFrame"
    using encode_pread [of ?q] assms(2) by auto
  obtain fs'' r'' where close: "CloseAll rsys (order (fs_open fs')) (fs', r') = (fs'', r'')" by fastforce
  have big: "MaxFrame < length (encodeResponse (rq_Op ?q) a)" using assms(2,5) by simp
  obtain s1 w1 where rpc: "remoteRPC (net_link rsys order) ?q (s, w) = (io_failure, s1, w1)" "severed s1 w1"
      "nt_remote w1 = snd (CloseAll rsys (order (fs_open fs')) (fs', r'))"
    using oversized_remoteRPC [where order = order, OF sim(1) b _ big close] assms(4) sim(2) cut_off_severed close
    by (auto simp: sim(2)) blast
  have "?serve q (s, w) = (io_failure, s1, w1)"
    using assms(2,3) rpc(1) sim(3)
    by (simp add: session_handle_by_handle by_handle_def byHandle_def Let_def)
  then obtain rs1 where rs: "rs = io_failure # rs1" "run ?serve qs (s1, w1) = (rs1, s', w')"
    using assms(6) by (auto simp: Let_def split: prod.splits)
  from severed_run [OF rpc(2) rs(2)] have cut: "severed s' w'" "nt_remote w' = nt_remote w1" by auto
  have "\<exists>s'' w''. ?serve q' (s', w') = (io_failure, s'', w'') \<and> nt_remote w'' = nt_remote w'"
    if "for_executor route q' s'" for q'
    using severed_step [OF cut(1)] that by (metis prod_cases3)
  with rs(1) cut(2) rpc(3) show ?thesis by simp
qed

text \<open>A session with a file of more than 64 MiB open on the remote host.\<close>

definition large_remote :: "bytes \<Rightarrow> mem" where
  "large_remote data = \<lparr>m_nodes = [(''/work/f'', FileNode data 0x1A4 3)], m_fds = [(1, ''/work/f'')]\<rparr>"

definition large_session :: "(nat, nat) session" where
  "large_session = new_session\<lparr>se_remote := Some (0, NewConn), se_next := 2,
     se_handles := [1 \<mapsto> \<lparr>hr_remote = True, hr_real = 1\<rparr>]\<rparr>"

definition large_net :: "bytes \<Rightarrow> (nat, mem, mem) net" where
  "large_net data = \<lparr>nt_local = sample_world, nt_remote = large_remote data,
     nt_streams = [idle \<lparr>fs_next = 2, fs_open = [1 \<mapsto> 1]\<rparr> []]\<rparr>"

definition large_hosts :: "bytes \<Rightarrow> (nat, nat, mem, mem) hosts" where
  "large_hosts data = \<lparr>ho_lfs = NewFSService, ho_rfs = \<lparr>fs_next = 2, fs_open = [1 \<mapsto> 1]\<rparr>, ho_l = sample_world,
     ho_r = large_remote data, ho_handles = [1 \<mapsto> \<lparr>hr_remote = True, hr_real = 1\<rparr>], ho_next = 2\<rparr>"

definition large_read :: request where
  "large_read = (request0 OpPread)\<lparr>rq_Handle := 1, rq_Len := 0x5000000\<rparr>"

theorem large_read_cuts_session_off_witness:
  "\<exists>data. hd (fst (run (session_handle (local_os memos) (net_link memos sorted_order) work_table) [large_read]
     (large_session, large_net data))) = io_failure"
proof -
  obtain data :: bytes where data: "length data = 67108865"
    using Ex_list_of_length by blast
  obtain rs s' w' where run: "run (session_handle (local_os memos) (net_link memos sorted_order) work_table) [large_read]
      (large_session, large_net data) = (rs, s', w')"
    by (metis prod_cases3)
  have sim: "simulates (large_session, large_net data) (large_hosts data)"
    by (simp add: simulates_def large_session_def large_net_def large_hosts_def linked_def new_session_simps)
  have path: "Clean ''/work/f'' = ''/work/f''"
    by (simp add: Clean_def clean_loop.simps)
  have call: "fs_Handle memos (large_read\<lparr>rq_Handle := 1\<rparr>) (ho_rfs (large_hosts data), ho_r (large_hosts data)) =
      ((response0 0)\<lparr>rs_Data := data\<rparr>, \<lparr>fs_next = 2, fs_open = [1 \<mapsto> 1]\<rparr>, large_remote data)"
    by (simp add: fs_Handle_def large_read_def request0_def fs_pread_def large_hosts_def large_remote_def memos_def
        mem_read_def mem_node_def path data)
  have big: "MaxFrame < length (encodeResponse OpPread ((response0 0)\<lparr>rs_Data := data\<rparr>))"
    by (simp add: encodeResponse_def put_simps MaxFrame_def response0_def data)
  have "hd rs = io_failure"
    by (rule large_read_cuts_session_off [OF sim _ _ call big run, THEN conjunct1])
      (simp_all add: large_read_def request0_def large_hosts_def)
  with run show ?thesis by (metis fst_conv)
qed

end
