(* ===== verification/SessionFiles.thy ===== *)
theory SessionFiles
  imports Severed
begin

section \<open>The files of a session, whatever it is asked\<close>

text \<open>
  A session over the executor under any requests, those whose request or answer is larger than a frame included: what
  one remote call can do, which handles are then live, and which files are open on the two hosts. The transport
  itself loses nothing.
\<close>

subsection \<open>One remote call\<close>

lemma cut_off_remoteRPC:
  assumes "cut_off s w fs"
  shows "\<exists>cb. remoteRPC (net_link rsys order) q (s, w) = (io_failure, s\<lparr>se_remote := cb\<rparr>, w) \<and> cut_off (s\<lparr>se_remote := cb\<rparr>) w fs"
  using severed_remoteRPC [OF cut_off_severed [OF assms], of rsys order q] assms by (auto simp: cut_off_def)

text \<open>
  A remote call is refused before it is sent, or it is the executor's service, or its answer is too large and
  the stream is cut.
\<close>

lemma remote_call:
  assumes "linked s w fs" and "remoteRPC (net_link rsys order) q (s, w) = (a, s', w')"
  shows "nt_local w' = nt_local w \<and> (\<exists>cb. s' = s\<lparr>se_remote := cb\<rparr>) \<and>
    (a = io_failure \<and> linked s' w' fs \<and> nt_remote w' = nt_remote w \<or>
     (\<exists>fs'. fs_Handle rsys q (fs, nt_remote w) = (a, fs', nt_remote w') \<and> linked s' w' fs') \<or>
     (\<exists>x fs' r' fs''. fs_Handle rsys q (fs, nt_remote w) = (x, fs', r') \<and> a = io_failure \<and>
        CloseAll rsys (order (fs_open fs')) (fs', r') = (fs'', nt_remote w') \<and> cut_off s' w' fs''))"
proof (cases "case encodeRequest q of Inl _ \<Rightarrow> True | Inr b \<Rightarrow> MaxFrame < length b")
  case True
  from net_unsent [OF assms(1) True, of rsys order] assms(2) show ?thesis by auto
next
  case False
  then obtain b where b: "encodeRequest q = Inr b" "length b \<le> MaxFrame"
    by (auto split: sum.splits)
  obtain x fs' r' where h: "fs_Handle rsys q (fs, nt_remote w) = (x, fs', r')" by (metis prod_cases3)
  show ?thesis
  proof (cases "length (encodeResponse (rq_Op q) x) \<le> MaxFrame")
    case True
    from net_remoteRPC [OF assms(1) b h True, of order] assms(2) h show ?thesis
      by (auto intro!: exI [of _ "se_remote s'"])
  next
    case False
    obtain fs'' r'' where close: "CloseAll rsys (order (fs_open fs')) (fs', r') = (fs'', r'')" by fastforce
    have big: "MaxFrame < length (encodeResponse (rq_Op q) x)" using False by simp
    from oversized_remoteRPC [where order = order, OF assms(1) b h big close] assms(2) h close show ?thesis
      by (metis prod.inject)
  qed
qed

subsection \<open>Which handles are live\<close>

text \<open>
  The session goes with a state of the two hosts: until the stream is cut it simulates it; then the local host, the
  table and the counter still agree.
\<close>

definition follows :: "('f, nat) session \<times> ('g, 'l, 'r) net \<Rightarrow> ('f, 'g, 'l, 'r) hosts \<Rightarrow> bool" where
  "follows = (\<lambda>(s, w) st. simulates (s, w) st \<or>
     se_localFS s = ho_lfs st \<and> se_handles s = ho_handles st \<and> se_next s = ho_next st \<and> nt_local w = ho_l st \<and>
     Ex (cut_off s w))"

lemma follows_remote:
  assumes "follows (s, w) st" and "remoteRPC (net_link rsys order) q (s, w) = (a, s', w')"
  shows "(\<exists>st'. host_call lsys rsys True q st = (a, st') \<and> follows (s', w') st' \<and> ho_handles st' = ho_handles st \<and>
      ho_next st' = ho_next st) \<or> a = io_failure \<and> follows (s', w') st"
proof (cases "simulates (s, w) st")
  case True
  then have "linked s w (ho_rfs st)" by (simp add: simulates_def)
  from remote_call [OF this assms(2)] True show ?thesis
    unfolding follows_def simulates_def host_call_def by fastforce
next
  case False
  then obtain fs where "cut_off s w fs" using assms(1) by (auto simp: follows_def)
  from cut_off_remoteRPC [OF this, of rsys order q] assms False show ?thesis
    by (auto simp: follows_def)
qed

lemma follows_local:
  assumes "follows (s, w) st" and "localRPC (local_os lsys) q (s, w) = (a, s', w')"
  shows "\<exists>st'. host_call lsys rsys False q st = (a, st') \<and> follows (s', w') st' \<and> ho_handles st' = ho_handles st \<and>
    ho_next st' = ho_next st"
  using assms
  by (auto simp: follows_def simulates_def linked_def cut_off_def localRPC_def local_os_Handle in_net_def host_call_def
      split: prod.splits)

lemma follows_call:
  assumes "follows (s, w) st"
    and "(if remote then remoteRPC (net_link rsys order) q (s, w) else localRPC (local_os lsys) q (s, w)) = (a, s', w')"
  shows "(\<exists>st'. host_call lsys rsys remote q st = (a, st') \<and> follows (s', w') st' \<and> ho_handles st' = ho_handles st \<and>
      ho_next st' = ho_next st) \<or> a = io_failure \<and> follows (s', w') st"
  using follows_remote [OF assms(1), of rsys order q a s' w' lsys] follows_local [OF assms(1), of lsys q a s' w' rsys]
    assms(2) by (cases remote) auto

text \<open>What a request that fails on the way leaves of the hosts: a close has retired its handle.\<close>

definition dropped :: "request \<Rightarrow> ('f, 'g, 'l, 'r) hosts \<Rightarrow> ('f, 'g, 'l, 'r) hosts" where
  "dropped q st = (if rq_Op q = OpClose then st\<lparr>ho_handles := (ho_handles st)(rq_Handle q := None)\<rparr> else st)"

lemma follows_update:
  "follows (s, w) st \<Longrightarrow> follows (s\<lparr>se_next := n, se_handles := h\<rparr>, w) (st\<lparr>ho_next := n, ho_handles := h\<rparr>)"
  "follows (s, w) st \<Longrightarrow> follows (s\<lparr>se_handles := h\<rparr>, w) (st\<lparr>ho_handles := h\<rparr>)"
  by (auto simp: follows_def simulates_def linked_def cut_off_def)

lemma follows_tables: "follows (s, w) st \<Longrightarrow> se_handles s = ho_handles st \<and> se_next s = ho_next st"
  by (auto simp: follows_def simulates_def)

lemma follows_open:
  assumes "follows (s, w) st" and "is_open q"
    and "session_handle (local_os lsys) (net_link rsys order) route q (s, w) = (a, s', w')"
  shows "(\<exists>st'. hosts_handle lsys rsys route q st = (a, st') \<and> follows (s', w') st') \<or>
    a = io_failure \<and> follows (s', w') (dropped q st)"
proof -
  let ?remote = "IsRemote route (rq_Path q)"
  have op: "rq_Op q \<noteq> OpRename" "rq_Op q \<noteq> OpClose" using assms(2) by (auto simp: is_open_def)
  have tgt: "target route q st = Some (?remote, q)" using assms(2) by (simp add: target_def)
  have fail: "rs_Err io_failure \<noteq> 0" by (simp add: io_failure_def)
  obtain a1 s1 w1 where rpc: "(if ?remote then remoteRPC (net_link rsys order) q (s, w)
      else localRPC (local_os lsys) q (s, w)) = (a1, s1, w1)" by (metis prod_cases3)
  then have step: "(a, s', w') = (if rs_Err a1 \<noteq> 0 then (a1, s1, w1)
      else (a1\<lparr>rs_Handle := se_next s1\<rparr>, s1\<lparr>se_next := se_next s1 + 1, se_handles := (se_handles s1)(se_next s1 :=
        Some \<lparr>hr_remote = ?remote, hr_real = rs_Handle a1\<rparr>)\<rparr>, w1))"
    using assms(2,3) by (auto simp: session_handle_open se_open_def Let_def split: if_splits)
  from follows_call [OF assms(1) rpc] show ?thesis
  proof (elim disjE exE conjE)
    fix st1 assume call: "host_call lsys rsys ?remote q st = (a1, st1)" and f: "follows (s1, w1) st1"
    note tab = follows_tables [OF f]
    show ?thesis
    proof (cases "rs_Err a1 = 0")
      case True
      then have "hosts_handle lsys rsys route q st = (a, st1\<lparr>ho_next := ho_next st1 + 1,
          ho_handles := (ho_handles st1)(ho_next st1 := Some \<lparr>hr_remote = ?remote, hr_real = rs_Handle a1\<rparr>)\<rparr>)"
        using assms(2) op tgt call step tab by (simp add: hosts_handle_def)
      moreover have "follows (s', w') (st1\<lparr>ho_next := ho_next st1 + 1,
          ho_handles := (ho_handles st1)(ho_next st1 := Some \<lparr>hr_remote = ?remote, hr_real = rs_Handle a1\<rparr>)\<rparr>)"
        using step tab True follows_update(1) [OF f, where h = "(ho_handles st1)(ho_next st1 := Some \<lparr>hr_remote = ?remote, hr_real = rs_Handle a1\<rparr>)"
            and n = "ho_next st1 + 1"] by simp
      ultimately show ?thesis by blast
    next
      case False
      with assms(2) op tgt call step have "hosts_handle lsys rsys route q st = (a, st1)"
        by (simp add: hosts_handle_def)
      with step f False show ?thesis by simp
    qed
  next
    assume "a1 = io_failure" "follows (s1, w1) st"
    with step fail op show ?thesis by (simp add: dropped_def)
  qed
qed

lemma follows_by_handle:
  assumes "follows (s, w) st" and "by_handle q"
    and "session_handle (local_os lsys) (net_link rsys order) route q (s, w) = (a, s', w')"
  shows "(\<exists>st'. hosts_handle lsys rsys route q st = (a, st') \<and> follows (s', w') st') \<or>
    a = io_failure \<and> follows (s', w') (dropped q st)"
proof -
  have op: "rq_Op q \<noteq> OpRename" "\<not> is_open q" "\<not> path_op q"
    using assms(2) by (auto simp: is_open_def by_handle_def path_op_def Let_def)
  note tab = follows_tables [OF assms(1)]
  show ?thesis
  proof (cases "ho_handles st (rq_Handle q)")
    case None
    then have "hosts_handle lsys rsys route q st = (response0 (neg_errno EBADF), st)"
      using assms(2) op by (simp add: hosts_handle_def target_def)
    with None assms tab show ?thesis
      by (simp add: session_handle_by_handle byHandle_def)
  next
    case (Some ref)
    let ?q = "q\<lparr>rq_Handle := hr_real ref\<rparr>"
    let ?s = "if rq_Op q = OpClose then s\<lparr>se_handles := (se_handles s)(rq_Handle q := None)\<rparr> else s"
    have f: "follows (?s, w) (dropped q st)"
      using assms(1) follows_update(2) [OF assms(1), where h = "(ho_handles st)(rq_Handle q := None)"] tab
      by (simp add: dropped_def)
    have "(if hr_remote ref then remoteRPC (net_link rsys order) ?q (?s, w)
        else localRPC (local_os lsys) ?q (?s, w)) = (a, s', w')"
      using assms(2,3) Some tab by (auto simp: session_handle_by_handle byHandle_def Let_def split: if_splits)
    moreover have "hosts_handle lsys rsys route q st = host_call lsys rsys (hr_remote ref) ?q (dropped q st)"
      using assms(2) op Some by (simp add: hosts_handle_def target_def dropped_def case_prod_beta)
    ultimately show ?thesis
      using follows_call [OF f, of "hr_remote ref" rsys order ?q lsys a s' w'] by auto
  qed
qed

lemma follows_path:
  assumes "follows (s, w) st" and "\<not> is_open q" and "\<not> by_handle q"
    and "session_handle (local_os lsys) (net_link rsys order) route q (s, w) = (a, s', w')"
  shows "(\<exists>st'. hosts_handle lsys rsys route q st = (a, st') \<and> follows (s', w') st') \<or>
    a = io_failure \<and> follows (s', w') (dropped q st)"
proof (cases "path_op q \<and> \<not> (rq_Op q = OpRename \<and> IsRemote route (rq_Path q) \<noteq> IsRemote route (rq_Path2 q))")
  case False
  then have "session_handle (local_os lsys) (net_link rsys order) route q (s, w) = (fst (hosts_handle lsys rsys route q st), s, w) \<and>
      snd (hosts_handle lsys rsys route q st) = st"
    using assms(2,3) by (auto simp: hosts_handle_def target_def session_handle_def se_rename_def path_op_def is_open_def
        by_handle_def Let_def)
  with assms(1,4) show ?thesis by (metis fst_conv prod.collapse snd_conv)
next
  case True
  then have not_close: "rq_Op q \<noteq> OpClose" by (auto simp: path_op_def Let_def)
  let ?remote = "IsRemote route (rq_Path q)"
  have "(if ?remote then remoteRPC (net_link rsys order) q (s, w) else localRPC (local_os lsys) q (s, w)) = (a, s', w')"
    using True assms(2-4)
    by (auto simp: session_handle_def forwardByPath_def se_rename_def path_op_def Let_def split: if_splits)
  moreover have "hosts_handle lsys rsys route q st = host_call lsys rsys ?remote q st"
    using True assms(2,3) not_close by (auto simp: hosts_handle_def target_def case_prod_beta)
  ultimately show ?thesis
    using follows_call [OF assms(1), of ?remote rsys order q lsys a s' w'] not_close by (auto simp: dropped_def)
qed

lemma follows_step:
  assumes "follows (s, w) st"
    and "session_handle (local_os lsys) (net_link rsys order) route q (s, w) = (a, s', w')"
  shows "(\<exists>st'. hosts_handle lsys rsys route q st = (a, st') \<and> follows (s', w') st') \<or>
    a = io_failure \<and> follows (s', w') (dropped q st)"
  using follows_open [OF assms(1) _ assms(2)] follows_by_handle [OF assms(1) _ assms(2)]
    follows_path [OF assms(1) _ _ assms(2)] by blast

lemma dropped_table:
  assumes "table_ok st" and "room st (Suc n)"
  shows "table_ok (dropped q st) \<and> room (dropped q st) n"
proof (cases "rq_Op q = OpClose")
  case True
  let ?h = "(ho_handles st)(rq_Handle q := None)"
  have side: "side_fs b (dropped q st) = side_fs b st" for b
    by (simp add: dropped_def side_fs_def)
  have tab: "ho_handles (dropped q st) = ?h" "ho_next (dropped q st) = ho_next st"
    using True by (simp_all add: dropped_def)
  have "inj_on ?h (dom ?h)"
    using assms(1) by (intro inj_map_del) (simp add: table_ok_def)
  moreover have "hr_real ref \<in> fst (side_fs (hr_remote ref) st)" if "?h a = Some ref" for a ref
    using that assms(1) by (simp add: table_ok_def split: if_splits)
  moreover have "a < ho_next st" if "a \<in> dom ?h" for a
    using that assms(1) by (auto simp: table_ok_def split: if_splits)
  ultimately have "table_ok (dropped q st)"
    using assms(1) unfolding table_ok_def side tab by blast
  with room_mono [OF assms(2)] show ?thesis
    by (simp add: room_def side tab)
next
  case False
  with assms(1) room_mono [OF assms(2)] show ?thesis by (simp add: dropped_def)
qed

lemma follows_run:
  "follows (s, w) st \<Longrightarrow> table_ok st \<Longrightarrow> room st (length qs) \<Longrightarrow>
   run (session_handle (local_os lsys) (net_link rsys order) route) qs (s, w) = (rs, s', w') \<Longrightarrow>
   \<exists>st'. follows (s', w') st' \<and> table_ok st'"
proof (induction qs arbitrary: s w st rs)
  case (Cons q qs)
  obtain a s1 w1 where q: "session_handle (local_os lsys) (net_link rsys order) route q (s, w) = (a, s1, w1)"
    by (metis prod_cases3)
  obtain rs1 where rs: "run (session_handle (local_os lsys) (net_link rsys order) route) qs (s1, w1) = (rs1, s', w')"
    using Cons.prems(4) q by (auto simp: Let_def split: prod.splits)
  have room: "room st (Suc (length qs))" using Cons.prems(3) by simp
  from follows_step [OF Cons.prems(1) q] obtain st1 where
    "follows (s1, w1) st1" "table_ok st1 \<and> room st1 (length qs)"
    using table_ok_step [OF Cons.prems(2) room] dropped_table [OF Cons.prems(2) room] by metis
  with Cons.IH [OF _ _ _ rs] show ?case by blast
qed auto

subsection \<open>Which files are open\<close>

text \<open>A service that holds exactly its own open files, and room for so many requests before its counter wraps.\<close>

definition serving :: "('w \<Rightarrow> 'f set) \<Rightarrow> 'f set \<Rightarrow> nat \<Rightarrow> 'f fsservice \<Rightarrow> 'w \<Rightarrow> bool" where
  "serving opened base n fs w \<longleftrightarrow> fs_owns opened base (fs, w) \<and> (\<forall>h \<in> dom (fs_open fs). h < fs_next fs) \<and>
     unat (fs_next fs) + n < 2 ^ 64"

lemma serving_new: "n < 2 ^ 64 - 1 \<Longrightarrow> serving opened (opened w) n NewFSService w"
  by (simp add: serving_def fs_owns_def)

lemma serving_mono: "serving opened base (Suc n) fs w \<Longrightarrow> serving opened base n fs w"
  by (simp add: serving_def)

lemma serving_step:
  assumes "os_tracks sys opened" and "serving opened base (Suc n) fs w" and "fs_Handle sys q (fs, w) = (a, fs', w')"
  shows "serving opened base n fs' w'"
proof -
  have one: "run (fs_Handle sys) [q] (fs, w) = ([a], fs', w')"
    using assms(3) by simp
  have s: "fs_owns opened base (fs, w)" "\<forall>h \<in> dom (fs_open fs). h < fs_next fs" "unat (fs_next fs) + Suc n < 2 ^ 64"
    using assms(2) by (simp_all add: serving_def)
  have "fs_owns opened base (fs', w')"
    using s by (intro fs_run_owns [OF assms(1) one]) simp_all
  moreover have "\<forall>h \<in> dom (fs_open fs'). h < fs_next fs'"
    using fs.live_below [OF one] s(2,3) by simp
  moreover have "unat (fs_next fs') + n < 2 ^ 64"
    using fs.opens [OF _ assms(3)] fs.keeps_next [OF assms(3)] s(3) word_plus_one [OF s(3)]
    by (cases "is_open q \<and> rs_Err a = 0") auto
  ultimately show ?thesis by (simp add: serving_def)
qed

lemma serving_closed:
  assumes "os_tracks sys opened" and "serving opened base n fs w" and "range_order order"
    and "CloseAll sys (order (fs_open fs)) (fs, w) = (fs', w')"
  shows "fs_open fs' = (\<lambda>_. None) \<and> opened w' = base"
proof -
  have "dom (fs_open fs) \<subseteq> set (order (fs_open fs))" "fs_owns opened base (fs, w)"
    using assms(2,3) by (simp_all add: serving_def range_order_def)
  from CloseAll_owns [OF assms(1) this(2,1) assms(4)] show ?thesis .
qed

text \<open>The local service holds its files; the executor's too, until the stream is cut and they are closed.\<close>

definition holding ::
    "('l \<Rightarrow> 'f set) \<Rightarrow> 'f set \<Rightarrow> ('r \<Rightarrow> 'g set) \<Rightarrow> 'g set \<Rightarrow> nat \<Rightarrow> ('f, nat) session \<Rightarrow> ('g, 'l, 'r) net \<Rightarrow> bool" where
  "holding lopened lbase ropened rbase n s w \<longleftrightarrow> serving lopened lbase n (se_localFS s) (nt_local w) \<and>
     (\<exists>fs. linked s w fs \<and> serving ropened rbase n fs (nt_remote w) \<or>
        cut_off s w fs \<and> fs_open fs = (\<lambda>_. None) \<and> ropened (nt_remote w) = rbase)"

lemma holding_tables:
  "holding lopened lbase ropened rbase n (s\<lparr>se_handles := h\<rparr>) w = holding lopened lbase ropened rbase n s w"
  "holding lopened lbase ropened rbase n (s\<lparr>se_next := i\<rparr>) w = holding lopened lbase ropened rbase n s w"
  by (simp_all add: holding_def linked_def cut_off_def)

lemma holding_mono: "holding lopened lbase ropened rbase (Suc n) s w \<Longrightarrow> holding lopened lbase ropened rbase n s w"
  unfolding holding_def by (blast intro: serving_mono)

lemma holding_remote:
  assumes "os_tracks rsys ropened" and "range_order order"
    and "holding lopened lbase ropened rbase (Suc n) s w" and "remoteRPC (net_link rsys order) q (s, w) = (a, s', w')"
  shows "holding lopened lbase ropened rbase n s' w'"
proof -
  have loc: "serving lopened lbase n (se_localFS s) (nt_local w)"
    using assms(3) serving_mono by (auto simp: holding_def)
  consider fs where "linked s w fs" "serving ropened rbase (Suc n) fs (nt_remote w)"
    | fs where "cut_off s w fs" "fs_open fs = (\<lambda>_. None)" "ropened (nt_remote w) = rbase"
    using assms(3) by (auto simp: holding_def)
  then show ?thesis
  proof cases
    case (1 fs)
    note call = remote_call [OF 1(1) assms(4)]
    then have keep: "nt_local w' = nt_local w" "se_localFS s' = se_localFS s" by auto
    from call have "linked s' w' fs \<and> nt_remote w' = nt_remote w \<or>
        (\<exists>fs'. linked s' w' fs' \<and> serving ropened rbase n fs' (nt_remote w')) \<or>
        (\<exists>fs'. cut_off s' w' fs' \<and> fs_open fs' = (\<lambda>_. None) \<and> ropened (nt_remote w') = rbase)"
      using serving_step [OF assms(1) 1(2)] serving_closed [OF assms(1) _ assms(2)] by metis
    with loc keep serving_mono [OF 1(2)] show ?thesis unfolding holding_def by metis
  next
    case (2 fs)
    from cut_off_remoteRPC [OF 2(1), of rsys order q] assms(4) 2 loc show ?thesis
      by (auto simp: holding_def)
  qed
qed

lemma holding_local:
  assumes "os_tracks lsys lopened" and "holding lopened lbase ropened rbase (Suc n) s w"
    and "localRPC (local_os lsys) q (s, w) = (a, s', w')"
  shows "holding lopened lbase ropened rbase n s' w'"
proof -
  obtain fs' l' where h: "fs_Handle lsys q (se_localFS s, nt_local w) = (a, fs', l')"
      and s': "s' = s\<lparr>se_localFS := fs'\<rparr>" "w' = w\<lparr>nt_local := l'\<rparr>"
    using assms(3) by (auto simp: localRPC_def local_os_Handle in_net_def split: prod.splits)
  have "serving lopened lbase n fs' l'"
    using assms(2) by (intro serving_step [OF assms(1) _ h]) (simp add: holding_def)
  with holding_mono [OF assms(2)] s' show ?thesis
    by (simp add: holding_def linked_def cut_off_def)
qed

text \<open>A request of a session is at most one call, on one side, and bookkeeping of handles.\<close>

lemma session_one_call:
  assumes "session_handle sys lk route q (s, w) = (a, s', w')"
  shows "\<exists>h h' n q' a' s1 w1. (remoteRPC lk q' (s\<lparr>se_handles := h\<rparr>, w) = (a', s1, w1) \<or>
      localRPC sys q' (s\<lparr>se_handles := h\<rparr>, w) = (a', s1, w1) \<or> (s1, w1) = (s, w)) \<and>
    s' = s1\<lparr>se_next := n, se_handles := h'\<rparr> \<and> w' = w1"
proof -
  have id: "s\<lparr>se_handles := se_handles s\<rparr> = s" "t = t\<lparr>se_next := se_next t, se_handles := se_handles t\<rparr>" for t :: "('a, 'b) session"
    by simp_all
  consider (opens) "is_open q" | (handle) "by_handle q" | (path) "\<not> is_open q" "\<not> by_handle q" by blast
  then show ?thesis
  proof cases
    case opens
    obtain a1 s1 w1 where rpc: "(if IsRemote route (rq_Path q) then remoteRPC lk q (s, w) else localRPC sys q (s, w)) = (a1, s1, w1)"
      by (metis prod_cases3)
    then have "w' = w1 \<and> (s' = s1 \<or> (\<exists>n h'. s' = s1\<lparr>se_next := n, se_handles := h'\<rparr>))"
      using opens assms by (auto simp: session_handle_open se_open_def Let_def split: if_splits)
    then have "w' = w1 \<and> (\<exists>n h'. s' = s1\<lparr>se_next := n, se_handles := h'\<rparr>)"
      using id(2) by metis
    with rpc id(1) show ?thesis by (metis (full_types))
  next
    case handle
    show ?thesis
    proof (cases "se_handles s (rq_Handle q)")
      case None
      with handle assms have "s' = s" "w' = w"
        by (auto simp: session_handle_by_handle byHandle_def)
      with id(2) show ?thesis by metis
    next
      case (Some ref)
      let ?h = "if rq_Op q = OpClose then (se_handles s)(rq_Handle q := None) else se_handles s"
      have "(if hr_remote ref then remoteRPC lk (q\<lparr>rq_Handle := hr_real ref\<rparr>) (s\<lparr>se_handles := ?h\<rparr>, w)
          else localRPC sys (q\<lparr>rq_Handle := hr_real ref\<rparr>) (s\<lparr>se_handles := ?h\<rparr>, w)) = (a, s', w')"
        using handle assms Some by (auto simp: session_handle_by_handle byHandle_def Let_def)
      then show ?thesis
        by (intro exI [of _ ?h] exI [of _ "se_handles s'"] exI [of _ "se_next s'"] exI [of _ "q\<lparr>rq_Handle := hr_real ref\<rparr>"]
            exI [of _ a] exI [of _ s'] exI [of _ w']) (cases "hr_remote ref"; simp)
    qed
  next
    case path
    then have "remoteRPC lk q (s, w) = (a, s', w') \<or> localRPC sys q (s, w) = (a, s', w') \<or> (s', w') = (s, w)"
      using assms by (auto simp: session_handle_def se_rename_def forwardByPath_def is_open_def by_handle_def Let_def
          split: if_splits)
    then show ?thesis
      by (intro exI [of _ "se_handles s"] exI [of _ "se_handles s'"] exI [of _ "se_next s'"] exI [of _ q]
          exI [of _ a] exI [of _ s'] exI [of _ w']) (auto simp: id(1))
  qed
qed

lemma holding_step:
  assumes "os_tracks lsys lopened" and "os_tracks rsys ropened" and "range_order order"
    and "holding lopened lbase ropened rbase (Suc n) s w"
    and "session_handle (local_os lsys) (net_link rsys order) route q (s, w) = (a, s', w')"
  shows "holding lopened lbase ropened rbase n s' w'"
proof -
  from session_one_call [OF assms(5)] obtain h h' i q' a' s1 w1 where
    call: "remoteRPC (net_link rsys order) q' (s\<lparr>se_handles := h\<rparr>, w) = (a', s1, w1) \<or>
      localRPC (local_os lsys) q' (s\<lparr>se_handles := h\<rparr>, w) = (a', s1, w1) \<or> (s1, w1) = (s, w)"
    and s': "s' = s1\<lparr>se_next := i, se_handles := h'\<rparr>" "w' = w1" by blast
  have "holding lopened lbase ropened rbase (Suc n) (s\<lparr>se_handles := h\<rparr>) w"
    using assms(4) by (simp add: holding_tables)
  then have "holding lopened lbase ropened rbase n s1 w1"
    using call holding_remote [OF assms(2,3)] holding_local [OF assms(1)] holding_mono [OF assms(4)] by blast
  then show ?thesis by (simp add: s' holding_tables)
qed

lemma holding_run:
  assumes "os_tracks lsys lopened" and "os_tracks rsys ropened" and "range_order order"
  shows "holding lopened lbase ropened rbase (length qs) s w \<Longrightarrow>
    run (session_handle (local_os lsys) (net_link rsys order) route) qs (s, w) = (rs, s', w') \<Longrightarrow>
    holding lopened lbase ropened rbase 0 s' w'"
proof (induction qs arbitrary: s w rs)
  case (Cons q qs)
  obtain a s1 w1 where q: "session_handle (local_os lsys) (net_link rsys order) route q (s, w) = (a, s1, w1)"
    by (metis prod_cases3)
  obtain rs1 where rs: "run (session_handle (local_os lsys) (net_link rsys order) route) qs (s1, w1) = (rs1, s', w')"
    using Cons.prems(2) q by (auto simp: Let_def split: prod.splits)
  have "holding lopened lbase ropened rbase (length qs) s1 w1"
    using Cons.prems(1) by (intro holding_step [OF assms _ q]) simp
  with Cons.IH rs show ?case by blast
qed simp

text \<open>At the end of the session both services close what they hold.\<close>

lemma holding_close:
  assumes "os_tracks lsys lopened" and "os_tracks rsys ropened" and "range_order order" and "range_order order'"
    and "holding lopened lbase ropened rbase n s w"
    and "session_close (local_os lsys) order (net_link rsys order') (s, w) = (s', w')"
  shows "lopened (nt_local w') = lbase \<and> ropened (nt_remote w') = rbase"
proof -
  obtain lfs l where l: "CloseAll lsys (order (fs_open (se_localFS s))) (se_localFS s, nt_local w) = (lfs, l)" by fastforce
  have "lopened l = lbase"
    using serving_closed [OF assms(1) _ assms(3) l] assms(5) by (auto simp: holding_def)
  moreover have none: "order' (\<lambda>_. None) = []"
    using assms(4) by (metis dom_empty range_order_def set_empty)
  have "ropened (nt_remote w') = rbase \<and> nt_local w' = l"
  proof (cases "se_remote s")
    case None
    then have "ropened (nt_remote w) = rbase"
      using assms(5) by (auto simp: holding_def linked_def cut_off_def serving_def fs_owns_def)
    with None l assms(6) show ?thesis
      by (auto simp: session_close_def CloseAll_local_os)
  next
    case (Some cb)
    obtain c b where cb: "cb = (c, b)" by fastforce
    obtain rfs r where r: "CloseAll rsys (order' (fs_open (st_fs (nt_streams w ! c)))) (st_fs (nt_streams w ! c), nt_remote w) = (rfs, r)"
      by fastforce
    have "ropened r = rbase"
      using assms(5) Some cb r none serving_closed [OF assms(2) _ assms(4), of rbase n "st_fs (nt_streams w ! c)" "nt_remote w" rfs r]
      by (auto simp: holding_def linked_def cut_off_def idle_def dialed_def)
    with Some cb l r assms(6) show ?thesis
      by (auto simp: session_close_def CloseAll_local_os net_link_def net_close_def Let_def)
  qed
  ultimately show ?thesis by simp
qed

end
