(* ===== verification/Typing.thy ===== *)
theory Typing
  imports Adapter
begin

section \<open>What a response can be\<close>

text \<open>
  The wire format carries, for each operation, some of the fields of a \<open>Response\<close>; the others have their zero values.
  \<open>typed_response\<close> says which: it is the type of the answers to an operation. A failure has its error number only.
\<close>

definition typed_response :: "op \<Rightarrow> response \<Rightarrow> bool" where
  "typed_response opc r \<longleftrightarrow>
     (rs_Err r \<noteq> 0 \<longrightarrow> r = response0 (rs_Err r)) \<and>
     (rs_Mode r \<noteq> 0 \<or> rs_Mtime r \<noteq> 0 \<longrightarrow> opc \<in> {OpStat, OpOpen, OpCreate}) \<and>
     (rs_Size r \<noteq> 0 \<longrightarrow> opc \<in> {OpStat, OpOpen, OpCreate, OpPwrite}) \<and>
     (rs_Handle r \<noteq> 0 \<longrightarrow> opc \<in> {OpOpen, OpCreate}) \<and>
     (rs_Data r \<noteq> [] \<longrightarrow> opc = OpPread) \<and>
     (rs_Names r \<noteq> [] \<longrightarrow> opc = OpReaddir) \<and> length (rs_Types r) = length (rs_Names r) \<and>
     (rs_OS r \<noteq> [] \<or> rs_Arch r \<noteq> [] \<longrightarrow> opc = OpServerInfo)"

lemma length_pad_types [simp]: "length (pad_types ns ts) = length ns"
  by (induction ns ts rule: pad_types.induct) simp_all

lemma typed_relevant: "typed_response opc (relevant_response opc r)"
  by (simp add: relevant_response_def typed_response_def Let_def response0_def)

text \<open>Nothing of a response of its type is lost on the wire (\<open>response_roundtrip\<close>).\<close>

lemma typed_relevant_iff: "typed_response opc r \<longleftrightarrow> relevant_response opc r = r"
proof
  assume typed: "typed_response opc r"
  show "relevant_response opc r = r"
  proof (cases "rs_Err r = 0")
    case False
    with typed show ?thesis by (simp add: relevant_response_error typed_response_def)
  next
    case True
    consider (1) "opc = OpStat" | (2) "opc = OpOpen" | (3) "opc = OpCreate" | (4) "opc = OpPread" | (5) "opc = OpPwrite"
      | (6) "opc = OpReaddir" | (7) "opc = OpServerInfo"
      | (8) "opc \<notin> {OpStat, OpOpen, OpCreate, OpPread, OpPwrite, OpReaddir, OpServerInfo}"
      by blast
    then show ?thesis
      using typed True
      by cases (rule response.equality; auto simp: typed_response_def relevant_response_def response0_def Let_def pad_types_same)+
  qed
qed (metis typed_relevant)

lemma typed_errno [simp]: "typed_response opc (response0 e)"
  by (simp add: typed_response_def response0_def)

lemma typed_handle:
  "typed_response opc r \<Longrightarrow> opc \<in> {OpOpen, OpCreate} \<Longrightarrow> rs_Err r = 0 \<Longrightarrow> typed_response opc (r\<lparr>rs_Handle := h\<rparr>)"
  by (simp add: typed_response_def)

text \<open>A service answers with the type of the operation, and so does the decoder, whatever bytes it is given.\<close>

lemma typed_service: "fs_Handle sys q st = (r, st') \<Longrightarrow> typed_response (rq_Op q) r"
  using typed_relevant [of "rq_Op q" r] fs_response_relevant by metis

lemma p_dirents_lengths:
  "p_dirents n p ns ts = ((ns', ts'), p') \<Longrightarrow> length ns = length ts \<Longrightarrow> length ns' = length ts'"
  by (induction n p ns ts rule: p_dirents.induct) (auto simp: Let_def split: if_splits prod.splits)

lemma typed_decoded: "decodeResponse opc body = Inr r \<Longrightarrow> typed_response opc r"
  by (auto simp: decodeResponse_def decodeResponseFields_def typed_response_def response0_def Let_def
      dest: p_dirents_lengths split: prod.splits if_splits option.splits)

lemma typed_read: "ConnReadResponse rd opc w = (Inr r, w') \<Longrightarrow> typed_response opc r"
  by (auto simp: ConnReadResponse_def ReadResponse_def dest: typed_decoded split: sum.splits prod.splits)

text \<open>So are the answers of a session, on either side.\<close>

lemma typed_remote:
  assumes "remoteRPC lk q sw = (r, sw')"
  shows "typed_response (rq_Op q) r"
  using assms
  by (auto simp: remoteRPC_def io_failure_def dest: typed_read split: prod.splits option.splits sum.splits)

lemma typed_local:
  assumes "localRPC sys q sw = (r, sw')"
  shows "typed_response (rq_Op q) r"
  using assms by (auto simp: localRPC_def dest: typed_service split: prod.splits)

lemma typed_forward: "forwardByPath sys lk route q sw = (r, sw') \<Longrightarrow> typed_response (rq_Op q) r"
  by (auto simp: forwardByPath_def dest: typed_remote typed_local split: if_splits)

lemma typed_session:
  assumes "session_handle sys lk route q (s, w) = (r, s', w')"
  shows "typed_response (rq_Op q) r"
proof -
  consider (opens) "is_open q" | (handle) "by_handle q" | (path) "\<not> is_open q" "\<not> by_handle q" by blast
  then show ?thesis
  proof cases
    case opens
    then have "rq_Op q \<in> {OpOpen, OpCreate}" by (auto simp: is_open_def)
    with opens assms show ?thesis
      by (auto simp: session_handle_open se_open_def Let_def dest!: typed_remote typed_local intro!: typed_handle
          split: if_splits prod.splits)
  next
    case handle
    have "rq_Op (q\<lparr>rq_Handle := h\<rparr>) = rq_Op q" for h by simp
    with handle assms show ?thesis
      by (auto simp: session_handle_by_handle byHandle_def Let_def dest: typed_remote typed_local
          split: if_splits prod.splits option.splits)
  next
    case path
    with assms show ?thesis
      by (auto simp: session_handle_def se_rename_def is_open_def by_handle_def Let_def dest: typed_forward
          split: if_splits)
  qed
qed

subsection \<open>Properties\<close>

text \<open>
  C13: Answers have the type of their operation, whatever the executor sends: on every host, over every transport and
  whatever bytes it delivers, each answer of a session carries only fields of the operation asked for, a failure
  nothing but its error number, and as many type bytes as names, so that the encoder keeps all of it
  (\<open>typed_relevant_iff\<close>).
\<close>

theorem session_answers_typed:
  assumes "run (session_handle sys lk route) qs (s, w) = (rs, s', w')"
  shows "list_all2 (\<lambda>q r. typed_response (rq_Op q) r) qs rs"
  using assms
proof (induction qs arbitrary: s w rs)
  case (Cons q qs)
  obtain r s1 w1 where q: "session_handle sys lk route q (s, w) = (r, s1, w1)" by (metis prod_cases3)
  obtain rs1 where "rs = r # rs1" "run (session_handle sys lk route) qs (s1, w1) = (rs1, s', w')"
    using Cons.prems q by (auto simp: Let_def split: prod.splits)
  with Cons.IH typed_session [OF q] show ?case by simp
qed simp

theorem session_answers_typed_witness:
  "\<exists>r s w. run (session_handle memos broken_link work_table) sample_reopen (new_session, sample_world) = ([r], s, w) \<and>
     typed_response OpOpen r"
proof -
  obtain rs s w where run: "run (session_handle memos broken_link work_table) sample_reopen (new_session, sample_world) = (rs, s, w)"
    by (metis prod_cases3)
  from session_answers_typed [OF run] obtain r where "rs = [r]" "typed_response OpOpen r"
    by (auto simp: sample_reopen_def request0_def list_all2_Cons1)
  with run show ?thesis by blast
qed

end
