(* ===== verification/Stdio.thy ===== *)
theory Stdio
  imports GoOS
begin

section \<open>The stdio transport (internal/transport/stdio.go; viaCloser of cmd/rca/run.go)\<close>

text \<open>
  Streams multiplexed over one pipe: the child that \<open>--via\<close> starts on the local side, the process's own standard
  input and output on the other. The multiplexer is yamux, the record \<open>yamux\<close> of the calls the code makes; \<open>'w\<close> is
  the host with all its pipes.
\<close>

subsection \<open>A pipe as a connection\<close>

text \<open>\<open>pipeConn\<close>: a reader, a writer and, if there is one, a closer.\<close>

record 'w pipeConn =
  pc_r :: "nat \<Rightarrow> 'w \<Rightarrow> (goerr + bytes) \<times> 'w"
  pc_w :: "bytes \<Rightarrow> 'w \<Rightarrow> goerr option \<times> 'w"
  pc_c :: "('w \<Rightarrow> goerr option \<times> 'w) option"

definition pipeConn_Read :: "'w pipeConn \<Rightarrow> nat \<Rightarrow> 'w \<Rightarrow> (goerr + bytes) \<times> 'w" where
  "pipeConn_Read p n w = pc_r p n w"

definition pipeConn_Write :: "'w pipeConn \<Rightarrow> bytes \<Rightarrow> 'w \<Rightarrow> goerr option \<times> 'w" where
  "pipeConn_Write p b w = pc_w p b w"

definition pipeConn_Close :: "'w pipeConn \<Rightarrow> 'w \<Rightarrow> goerr option \<times> 'w" where
  "pipeConn_Close p w = (case pc_c p of Some c \<Rightarrow> c w | None \<Rightarrow> (None, w))"

text \<open>All addresses are \<open>stdio\<close>, and deadlines are accepted and ignored.\<close>

definition stdioAddr :: "string \<times> string" where
  "stdioAddr = (''stdio'', ''stdio'')"

definition pipeConn_LocalAddr :: "'w pipeConn \<Rightarrow> string \<times> string" where
  "pipeConn_LocalAddr p = stdioAddr"

definition pipeConn_RemoteAddr :: "'w pipeConn \<Rightarrow> string \<times> string" where
  "pipeConn_RemoteAddr p = stdioAddr"

definition pipeConn_SetDeadline :: "'w pipeConn \<Rightarrow> int \<Rightarrow> 'w \<Rightarrow> goerr option \<times> 'w" where
  "pipeConn_SetDeadline p t w = (None, w)"

subsection \<open>Dialer and listener\<close>

text \<open>A configuration of yamux with the one field that is set here; \<open>'x\<close> has the others.\<close>

record yamux_config =
  yc_EnableKeepAlive :: bool

record ('x, 's, 't, 'w) yamux =
  ym_DefaultConfig :: "'x yamux_config_scheme"
  ym_Client :: "'w pipeConn \<Rightarrow> 'x yamux_config_scheme \<Rightarrow> 'w \<Rightarrow> 's option \<times> 'w"
  ym_Server :: "'w pipeConn \<Rightarrow> 'x yamux_config_scheme \<Rightarrow> 'w \<Rightarrow> 's option \<times> 'w"
  ym_OpenStream :: "'s \<Rightarrow> 'w \<Rightarrow> (goerr + 't) \<times> 'w"
  ym_AcceptStream :: "'s \<Rightarrow> 'w \<Rightarrow> (goerr + 't) \<times> 'w"
  ym_Close :: "'s \<Rightarrow> 'w \<Rightarrow> goerr option \<times> 'w"

definition stdioConfig :: "('x, 's, 't, 'w) yamux \<Rightarrow> 'x yamux_config_scheme" where
  "stdioConfig lib = (ym_DefaultConfig lib)\<lparr>yc_EnableKeepAlive := False\<rparr>"

record 's StdioDialer =
  sd_sess :: 's

definition NewStdioDialer ::
    "('x, 's, 't, 'w) yamux \<Rightarrow> (nat \<Rightarrow> 'w \<Rightarrow> (goerr + bytes) \<times> 'w) \<Rightarrow> (bytes \<Rightarrow> 'w \<Rightarrow> goerr option \<times> 'w) \<Rightarrow>
     ('w \<Rightarrow> goerr option \<times> 'w) option \<Rightarrow> 'w \<Rightarrow> 's StdioDialer option \<times> 'w" where
  "NewStdioDialer lib r wr c w =
     (case ym_Client lib \<lparr>pc_r = r, pc_w = wr, pc_c = c\<rparr> (stdioConfig lib) w of
        (None, w) \<Rightarrow> (None, w)
      | (Some sess, w) \<Rightarrow> (Some \<lparr>sd_sess = sess\<rparr>, w))"

definition StdioDialer_Dial :: "('x, 's, 't, 'w) yamux \<Rightarrow> 's StdioDialer \<Rightarrow> 'w \<Rightarrow> (goerr + 't) \<times> 'w" where
  "StdioDialer_Dial lib d w = ym_OpenStream lib (sd_sess d) w"

definition StdioDialer_Close :: "('x, 's, 't, 'w) yamux \<Rightarrow> 's StdioDialer \<Rightarrow> 'w \<Rightarrow> goerr option \<times> 'w" where
  "StdioDialer_Close lib d w = ym_Close lib (sd_sess d) w"

record 's StdioListener =
  sl_sess :: 's

definition NewStdioListener ::
    "('x, 's, 't, 'w) yamux \<Rightarrow> (nat \<Rightarrow> 'w \<Rightarrow> (goerr + bytes) \<times> 'w) \<Rightarrow> (bytes \<Rightarrow> 'w \<Rightarrow> goerr option \<times> 'w) \<Rightarrow>
     ('w \<Rightarrow> goerr option \<times> 'w) option \<Rightarrow> 'w \<Rightarrow> 's StdioListener option \<times> 'w" where
  "NewStdioListener lib r wr c w =
     (case ym_Server lib \<lparr>pc_r = r, pc_w = wr, pc_c = c\<rparr> (stdioConfig lib) w of
        (None, w) \<Rightarrow> (None, w)
      | (Some sess, w) \<Rightarrow> (Some \<lparr>sl_sess = sess\<rparr>, w))"

definition StdioListener_Accept :: "('x, 's, 't, 'w) yamux \<Rightarrow> 's StdioListener \<Rightarrow> 'w \<Rightarrow> (goerr + 't) \<times> 'w" where
  "StdioListener_Accept lib l w = ym_AcceptStream lib (sl_sess l) w"

definition StdioListener_Addr :: "'s StdioListener \<Rightarrow> string" where
  "StdioListener_Addr l = ''stdio''"

definition StdioListener_Close :: "('x, 's, 't, 'w) yamux \<Rightarrow> 's StdioListener \<Rightarrow> 'w \<Rightarrow> goerr option \<times> 'w" where
  "StdioListener_Close lib l w = ym_Close lib (sl_sess l) w"

subsection \<open>The child of \<open>--via\<close>\<close>

text \<open>
  Its standard input, as the launcher holds it, and its process: not started, running, ended but not waited for, or
  reaped. \<open>Wait\<close> of a running process does not return; here it follows \<open>Kill\<close>.
\<close>

datatype via_process = NotStarted | Running | Ended | Reaped

record via_child =
  vi_stdin_open :: bool
  vi_process :: via_process

definition via_Kill :: "via_child \<Rightarrow> via_child" where
  "via_Kill c = (if vi_process c = Running then c\<lparr>vi_process := Ended\<rparr> else c)"

definition via_Wait :: "via_child \<Rightarrow> via_child" where
  "via_Wait c = (if vi_process c = Ended then c\<lparr>vi_process := Reaped\<rparr> else c)"

text \<open>Which fields of the closer are there.\<close>

record viaCloser =
  vc_cmd :: bool
  vc_in :: bool

definition viaCloser_Close :: "viaCloser \<Rightarrow> via_child \<Rightarrow> goerr option \<times> via_child" where
  "viaCloser_Close v c =
     (let c = (if vc_in v then c\<lparr>vi_stdin_open := False\<rparr> else c)
      in if \<not> vc_cmd v \<or> vi_process c = NotStarted then (None, c)
         else (None, via_Wait (via_Kill c)))"

text \<open>The closer never fails, leaves no process behind, and may be called again.\<close>

lemma viaCloser_Close_reaps:
  assumes "viaCloser_Close \<lparr>vc_cmd = True, vc_in = True\<rparr> c = (e, c')"
  shows "e = None" and "\<not> vi_stdin_open c'" and "vi_process c' \<in> {NotStarted, Reaped}"
    and "viaCloser_Close \<lparr>vc_cmd = True, vc_in = True\<rparr> c' = (None, c')"
  using assms
  by (cases "vi_process c"; auto simp: viaCloser_Close_def via_Kill_def via_Wait_def Let_def split: if_splits)+

text \<open>
  The documented behaviour of a session of yamux: its first \<open>Close\<close> closes the connection underneath. \<open>live\<close> are the
  sessions not closed yet, with their connections.
\<close>

definition closes_conn :: "('x, 's, 't, 'w) yamux \<Rightarrow> ('w \<Rightarrow> 's \<Rightarrow> 'w pipeConn option) \<Rightarrow> ('w \<Rightarrow> via_child) \<Rightarrow> bool" where
  "closes_conn lib live child \<longleftrightarrow>
     (\<forall>conn cfg w s w'. ym_Client lib conn cfg w = (Some s, w') \<longrightarrow> live w' s = Some conn) \<and>
     (\<forall>w s conn. live w s = Some conn \<longrightarrow>
        child (snd (ym_Close lib s w)) = child (snd (pipeConn_Close conn w)))"

text \<open>
  Closing the dialer that \<open>cmdRun\<close> makes of the child ends the child, when the session is still the one opened.
\<close>

lemma stdio_close_reaps:
  assumes "closes_conn lib live child" and "\<And>c w. child (put c w) = c"
    and "NewStdioDialer lib r wr
      (Some (\<lambda>w. case viaCloser_Close \<lparr>vc_cmd = True, vc_in = True\<rparr> (child w) of (e, c) \<Rightarrow> (e, put c w))) w = (Some d, w1)"
    and "live w2 (sd_sess d) = live w1 (sd_sess d)" and "StdioDialer_Close lib d w2 = (e, w')"
  shows "\<not> vi_stdin_open (child w')" and "vi_process (child w') \<in> {NotStarted, Reaped}"
proof -
  let ?conn = "\<lparr>pc_r = r, pc_w = wr, pc_c = Some (\<lambda>w. case viaCloser_Close \<lparr>vc_cmd = True, vc_in = True\<rparr> (child w) of
      (e, c) \<Rightarrow> (e, put c w))\<rparr>"
  obtain e' c' where c: "viaCloser_Close \<lparr>vc_cmd = True, vc_in = True\<rparr> (child w2) = (e', c')" by fastforce
  have "ym_Client lib ?conn (stdioConfig lib) w = (Some (sd_sess d), w1)"
    using assms(3) by (auto simp: NewStdioDialer_def split: prod.splits option.splits)
  then have "live w1 (sd_sess d) = Some ?conn"
    using assms(1) by (simp add: closes_conn_def)
  then have "live w2 (sd_sess d) = Some ?conn"
    using assms(4) by simp
  then have "child (snd (ym_Close lib (sd_sess d) w2)) = child (snd (pipeConn_Close ?conn w2))"
    using assms(1) unfolding closes_conn_def by blast
  also have "\<dots> = c'"
    using c assms(2) by (simp add: pipeConn_Close_def)
  finally have "child w' = c'"
    using assms(5) by (simp add: StdioDialer_Close_def)
  then show "\<not> vi_stdin_open (child w')" "vi_process (child w') \<in> {NotStarted, Reaped}"
    using viaCloser_Close_reaps [OF c] by auto
qed

end
