(* ===== verification/FuseDaemon.thy ===== *)
theory FuseDaemon
  imports NsRun
begin

section \<open>The FUSE daemon (cmd/rca/fuse_linux.go, fuse_stub.go; MountRouted of internal/linuxfuse)\<close>

text \<open>
  \<open>rca _fuse\<close> mounts one remote directory and serves it until it is unmounted; a goroutine unmounts it on a signal.
  The mount itself is go-fuse's, behind \<open>fd_Mount\<close>: it takes the directory, the root node and the options.
\<close>

subsection \<open>Mounting\<close>

text \<open>The root of a mount, a \<open>dirNode\<close>: the socket its client dials, and its remote directory.\<close>

record routed_root =
  rt_sock :: string
  rt_path :: string

record MountOptions =
  mo_FsName :: string
  mo_Name :: string
  mo_DirectMount :: bool
  mo_DirectMountStrict :: bool
  mo_Debug :: bool

record 'w fuse_os =
  fd_Getenv :: "string \<Rightarrow> string"
  fd_MkdirAll :: "string \<Rightarrow> 'w \<Rightarrow> bool \<times> 'w"
  fd_Mount :: "string \<Rightarrow> routed_root \<Rightarrow> MountOptions \<Rightarrow> 'w \<Rightarrow> bool \<times> 'w"

definition mountOpts :: "'w fuse_os \<Rightarrow> string \<Rightarrow> bool \<Rightarrow> MountOptions" where
  "mountOpts h name directMount =
     \<lparr>mo_FsName = ''rcc-vfs'', mo_Name = name, mo_DirectMount = directMount, mo_DirectMountStrict = directMount,
      mo_Debug = fd_Getenv h ''RCC_FUSE_DEBUG'' \<noteq> []\<rparr>"

definition MountRouted :: "'w fuse_os \<Rightarrow> string \<Rightarrow> string \<Rightarrow> string \<Rightarrow> bool \<Rightarrow> 'w \<Rightarrow> bool \<times> 'w" where
  "MountRouted h dir remote sock directMount =
     fd_Mount h dir \<lparr>rt_sock = sock, rt_path = remote\<rparr> (mountOpts h ''rcc-routed'' directMount)"

subsection \<open>Serving a mount\<close>

text \<open>
  A daemon that serves: the signals in its channel, whether the goroutine still waits for one, whether the
  directory is mounted, and the exit code once \<open>Wait\<close> has returned. The channel holds two signals; the runtime
  drops more.
\<close>

record daemon =
  dm_pending :: nat
  dm_handler :: bool
  dm_mounted :: bool
  dm_exit :: "nat option"

definition serving_daemon :: daemon where
  "serving_daemon = \<lparr>dm_pending = 0, dm_handler = True, dm_mounted = True, dm_exit = None\<rparr>"

text \<open>
  What happens: SIGINT or SIGTERM arrives, the goroutine takes one and unmounts (\<open>Unmount\<close> may fail, as on a mount in
  use, and its error is dropped), someone else unmounts the directory, and \<open>Wait\<close> returns once it is unmounted.
\<close>

datatype daemon_event = SignalArrives | Unmounts bool | UnmountedElsewhere | WaitReturns

inductive daemon_step :: "daemon \<Rightarrow> daemon_event \<Rightarrow> daemon \<Rightarrow> bool" where
  arrives: "dm_exit d = None \<Longrightarrow>
    daemon_step d SignalArrives (d\<lparr>dm_pending := (if dm_pending d < 2 then dm_pending d + 1 else dm_pending d)\<rparr>)"
| unmounts: "dm_exit d = None \<Longrightarrow> dm_handler d \<Longrightarrow> 0 < dm_pending d \<Longrightarrow>
    daemon_step d (Unmounts ok)
      (d\<lparr>dm_pending := dm_pending d - 1, dm_handler := False, dm_mounted := (dm_mounted d \<and> \<not> ok)\<rparr>)"
| elsewhere: "dm_exit d = None \<Longrightarrow> daemon_step d UnmountedElsewhere (d\<lparr>dm_mounted := False\<rparr>)"
| returns: "dm_exit d = None \<Longrightarrow> \<not> dm_mounted d \<Longrightarrow> daemon_step d WaitReturns (d\<lparr>dm_exit := Some 0\<rparr>)"

inductive_simps arrives_simps: "daemon_step d SignalArrives d'"
inductive_simps unmounts_simps: "daemon_step d (Unmounts ok) d'"
inductive_simps elsewhere_simps: "daemon_step d UnmountedElsewhere d'"
inductive_simps returns_simps: "daemon_step d WaitReturns d'"

lemmas daemon_simps = arrives_simps unmounts_simps elsewhere_simps returns_simps

inductive daemon_run :: "daemon \<Rightarrow> daemon_event list \<Rightarrow> daemon \<Rightarrow> bool" where
  stop: "daemon_run d [] d"
| more: "daemon_step d ev d' \<Longrightarrow> daemon_run d' evs d'' \<Longrightarrow> daemon_run d (ev # evs) d''"

inductive_simps run_simps [simp]: "daemon_run d [] d'" "daemon_run d (ev # evs) d''"

subsection \<open>The command\<close>

definition fuse_formal :: "string \<Rightarrow> bool option" where
  "fuse_formal = map_of [(''mount'', False), (''root'', False), (''direct-mount'', True), (''adapter-sock'', False)]"

text \<open>The process ends, or serves the mount it made.\<close>

datatype fuse_call = FuseExit nat | FuseServing daemon

definition cmdFuse :: "'w fuse_os \<Rightarrow> string list \<Rightarrow> 'w \<Rightarrow> fuse_call \<times> 'w" where
  "cmdFuse h args w =
     (case parse_flags fuse_formal args [] of
        Inl FlagHelp \<Rightarrow> (FuseExit 0, w)
      | Inl _ \<Rightarrow> (FuseExit 2, w)
      | Inr (vs, rest) \<Rightarrow>
          let mount = flag_string vs ''mount'' []; root = flag_string vs ''root'' [];
              direct = flag_bool vs ''direct-mount'' False; adapterSock = flag_string vs ''adapter-sock'' []
          in if mount = [] \<or> adapterSock = [] then (FuseExit 2, w)
             else case fd_MkdirAll h mount w of
               (False, w) \<Rightarrow> (FuseExit 1, w)
             | (True, w) \<Rightarrow>
                 let root = (if root = [] then mount else root) in
                 case MountRouted h mount root adapterSock direct w of
                   (False, w) \<Rightarrow> (FuseExit 1, w)
                 | (True, w) \<Rightarrow> (FuseServing serving_daemon, w))"

text \<open>On other systems.\<close>

definition cmdFuse_stub :: "string list \<Rightarrow> nat" where
  "cmdFuse_stub args = 1"

definition cmdNsRun_stub :: "string list \<Rightarrow> nat" where
  "cmdNsRun_stub args = 1"

subsection \<open>What is mounted, and for how long\<close>

lemma fuse_names:
  "plain_name ''mount''" "plain_name ''adapter-sock''" "plain_name ''root''"
  "fuse_formal ''mount'' = Some False" "fuse_formal ''adapter-sock'' = Some False" "fuse_formal ''root'' = Some False"
  by (simp_all add: plain_name_def fuse_formal_def)

text \<open>Without \<open>-root\<close> the directory shown is the mount point itself.\<close>

lemma cmdFuse_mounts:
  assumes "mount \<noteq> []" and "sock \<noteq> []"
    and "fd_MkdirAll h mount w = (True, w1)" and "fd_Mount h mount \<lparr>rt_sock = sock, rt_path = mount\<rparr> (mountOpts h ''rcc-routed'' False) w1 = (ok, w2)"
  shows "cmdFuse h [''-mount'', mount, ''-adapter-sock'', sock] w = (if ok then FuseServing serving_daemon else FuseExit 1, w2)"
proof -
  have "parse_flags fuse_formal [''-mount'', mount, ''-adapter-sock'', sock] [] =
      Inr ([(''mount'', mount), (''adapter-sock'', sock)], [])"
    using parse_flags_value [of "''mount''" fuse_formal, OF fuse_names(1,4), of mount "[''-adapter-sock'', sock]" "[]"]
      parse_flags_value [of "''adapter-sock''" fuse_formal, OF fuse_names(2,5), of sock "[]" "[(''mount'', mount)]"]
    by (simp del: parse_flags.simps add: parse_flags.simps(1))
  then show ?thesis
    using assms by (simp add: cmdFuse_def flag_string_def flag_bool_def MountRouted_def Let_def)
qed

text \<open>The daemon ends with 0, and only after its directory was unmounted.\<close>

definition daemon_ok :: "daemon \<Rightarrow> bool" where
  "daemon_ok d \<longleftrightarrow> dm_pending d \<le> 2 \<and> (dm_exit d = None \<or> dm_exit d = Some 0 \<and> \<not> dm_mounted d)"

lemma daemon_step_ok: "daemon_step d ev d' \<Longrightarrow> daemon_ok d \<Longrightarrow> daemon_ok d'"
  by (induction rule: daemon_step.induct) (auto simp: daemon_ok_def)

lemma daemon_run_ok: "daemon_run d evs d' \<Longrightarrow> daemon_ok d \<Longrightarrow> daemon_ok d'"
  by (induction rule: daemon_run.induct) (auto dest: daemon_step_ok)

text \<open>Nothing else unmounts the directory.\<close>

lemma still_mounted:
  "daemon_run d evs d' \<Longrightarrow> dm_mounted d \<Longrightarrow> Unmounts True \<notin> set evs \<Longrightarrow> UnmountedElsewhere \<notin> set evs \<Longrightarrow> dm_mounted d'"
proof (induction rule: daemon_run.induct)
  case (more d ev d' evs d'')
  then have "dm_mounted d'"
    by (cases ev) (auto simp: daemon_simps)
  with more show ?case by simp
qed simp

text \<open>A daemon whose goroutine has ended without unmounting: signals no longer reach anything.\<close>

definition deaf :: "daemon \<Rightarrow> bool" where
  "deaf d \<longleftrightarrow> \<not> dm_handler d \<and> dm_mounted d \<and> dm_exit d = None"

lemma deaf_step: "daemon_step d ev d' \<Longrightarrow> deaf d \<Longrightarrow> ev \<noteq> UnmountedElsewhere \<Longrightarrow> deaf d'"
  by (induction rule: daemon_step.induct) (auto simp: deaf_def)

lemma deaf_run: "daemon_run d evs d' \<Longrightarrow> deaf d \<Longrightarrow> UnmountedElsewhere \<notin> set evs \<Longrightarrow> deaf d'"
  by (induction rule: daemon_run.induct) (auto dest: deaf_step)

text \<open>The goroutine unmounts at most once.\<close>

lemma no_second_unmount: "daemon_run d evs d' \<Longrightarrow> \<not> dm_handler d \<Longrightarrow> Unmounts ok \<notin> set evs"
proof (induction rule: daemon_run.induct)
  case (more d ev d' evs d'')
  from more.hyps(1) more.prems have "ev \<noteq> Unmounts ok \<and> \<not> dm_handler d'"
    by (cases ev) (auto simp: daemon_simps)
  with more.IH show ?case by auto
qed simp

text \<open>As long as nobody else unmounts, the goroutine waits or the directory is mounted and the daemon runs for ever.\<close>

lemma failed_unmount_deaf:
  "daemon_run d evs d' \<Longrightarrow> dm_mounted d \<Longrightarrow> Unmounts False \<in> set evs \<Longrightarrow> UnmountedElsewhere \<notin> set evs \<Longrightarrow>
    dm_handler d \<Longrightarrow> deaf d'"
proof (induction rule: daemon_run.induct)
  case (more d ev d' evs d'')
  show ?case
  proof (cases "ev = Unmounts False")
    case True
    with more.hyps(1) more.prems(1) have "deaf d'"
      by (auto simp: daemon_simps deaf_def)
    with deaf_run [OF more.hyps(2)] more.prems(3) show ?thesis by simp
  next
    case False
    with more.hyps more.prems have "ev = SignalArrives \<or> ev = Unmounts True"
      by (cases ev) (auto simp: daemon_simps)
    moreover have "Unmounts False \<notin> set evs" if "ev = Unmounts True"
    proof -
      have "\<not> dm_handler d'" using that more.hyps(1) by (simp add: daemon_simps)
      with more.hyps(2) show ?thesis by (rule no_second_unmount)
    qed
    ultimately show ?thesis
      using False more by (auto simp: daemon_simps)
  qed
qed simp

subsection \<open>Signals\<close>

text \<open>
  One failed unmount makes the daemon deaf: the goroutine takes a single signal, so when the unmount it tries
  fails, as it does while the directory is in use, the directory stays mounted and the daemon runs on whatever
  signals arrive afterwards, until someone else unmounts it; in every other run it ends, with 0, only after the
  directory was unmounted.
\<close>

theorem daemon_deaf_after_failed_unmount:
  assumes "cmdFuse h args w = (FuseServing d, w')" and "daemon_run d evs d'"
  shows "(Unmounts False \<in> set evs \<longrightarrow> UnmountedElsewhere \<notin> set evs \<longrightarrow> dm_mounted d' \<and> dm_exit d' = None) \<and>
    (\<forall>code. dm_exit d' = Some code \<longrightarrow> code = 0 \<and> \<not> dm_mounted d' \<and> (Unmounts True \<in> set evs \<or> UnmountedElsewhere \<in> set evs))"
proof -
  have d: "d = serving_daemon"
    using assms(1) by (auto simp: cmdFuse_def Let_def split: sum.splits flag_error.splits prod.splits bool.splits if_splits)
  have "daemon_ok d'"
    by (rule daemon_run_ok [OF assms(2)]) (simp add: d serving_daemon_def daemon_ok_def)
  moreover have "Unmounts True \<in> set evs \<or> UnmountedElsewhere \<in> set evs" if "\<not> dm_mounted d'"
    using still_mounted [OF assms(2)] that by (auto simp: d serving_daemon_def)
  moreover have "deaf d'" if "Unmounts False \<in> set evs" and "UnmountedElsewhere \<notin> set evs"
    using failed_unmount_deaf [OF assms(2)] that by (simp add: d serving_daemon_def)
  ultimately show ?thesis
    by (auto simp: daemon_ok_def deaf_def)
qed

text \<open>Three signals; the first unmount fails.\<close>

theorem daemon_deaf_after_failed_unmount_witness:
  "\<exists>d. daemon_run serving_daemon [SignalArrives, Unmounts False, SignalArrives, SignalArrives] d \<and>
     dm_pending d = 2 \<and> dm_mounted d \<and> dm_exit d = None"
proof -
  let ?h = "\<lparr>fd_Getenv = \<lambda>_. [], fd_MkdirAll = \<lambda>_ w. (True, w), fd_Mount = \<lambda>_ _ _ w. (True, w)\<rparr>"
  let ?d = "\<lparr>dm_pending = 2, dm_handler = False, dm_mounted = True, dm_exit = None\<rparr>"
  have "cmdFuse ?h [''-mount'', ''/w'', ''-adapter-sock'', ''/s''] () = (FuseServing serving_daemon, ())"
    by (subst cmdFuse_mounts [where ok = True and ?w1.0 = "()" and ?w2.0 = "()"]) simp_all
  moreover have "daemon_run serving_daemon [SignalArrives, Unmounts False, SignalArrives, SignalArrives] ?d"
    by (simp add: daemon_simps serving_daemon_def)
  ultimately show ?thesis
    using daemon_deaf_after_failed_unmount by (intro exI [of _ ?d]) (fastforce dest: daemon_deaf_after_failed_unmount)
qed

end
