(* ===== verification/Announce.thy ===== *)
theory Announce
  imports Libp2p
begin

section \<open>The slice that the address factory captures (NewLibp2pHost of internal/transport/libp2p.go)\<close>

text \<open>
  \<open>NewLibp2pHost\<close> gives libp2p a factory of addresses, called whenever the addresses of the host are asked for:
  \<open>return append(announce, addrs...)\<close>. In \<open>Libp2p\<close> it is a function on lists. Here slices are what they are in Go, views
  of arrays on a heap, and the factory shares the array of the slice it has captured.
\<close>

subsection \<open>Slices\<close>

text \<open>A cell that was never written is \<open>None\<close>. The arrays from \<open>sh_next\<close> on are not allocated.\<close>

record 'a slice_heap =
  sh_cells :: "nat \<Rightarrow> nat \<Rightarrow> 'a option"
  sh_next :: nat

record slice =
  gs_arr :: nat
  gs_len :: nat
  gs_cap :: nat

definition nil_slice :: slice where
  "nil_slice = \<lparr>gs_arr = 0, gs_len = 0, gs_cap = 0\<rparr>"

definition slice_vals :: "'a slice_heap \<Rightarrow> slice \<Rightarrow> 'a option list" where
  "slice_vals h s = map (sh_cells h (gs_arr s)) [0..<gs_len s]"

definition put_at :: "nat \<Rightarrow> 'a list \<Rightarrow> (nat \<Rightarrow> 'a option) \<Rightarrow> nat \<Rightarrow> 'a option" where
  "put_at k xs f i = (if k \<le> i \<and> i < k + length xs then Some (xs ! (i - k)) else f i)"

text \<open>
  \<open>append\<close>: in place when there is room, otherwise in a new array, whose capacity, from the old one and the length
  needed, is up to the implementation (\<open>grow\<close>).
\<close>

definition go_append :: "(nat \<Rightarrow> nat \<Rightarrow> nat) \<Rightarrow> slice \<Rightarrow> 'a list \<Rightarrow> 'a slice_heap \<Rightarrow> slice \<times> 'a slice_heap" where
  "go_append grow s xs h =
     (let n = gs_len s + length xs; old = sh_cells h (gs_arr s) in
      if n \<le> gs_cap s
      then (s\<lparr>gs_len := n\<rparr>, h\<lparr>sh_cells := (sh_cells h)(gs_arr s := put_at (gs_len s) xs old)\<rparr>)
      else let a = sh_next h in
        (\<lparr>gs_arr = a, gs_len = n, gs_cap = grow (gs_cap s) n\<rparr>,
         h\<lparr>sh_cells := (sh_cells h)(a := put_at (gs_len s) xs (\<lambda>i. if i < gs_len s then old i else None)),
           sh_next := a + 1\<rparr>))"

text \<open>The loop of \<open>parseMultiaddrs\<close>, and the factory.\<close>

fun parse_slice ::
    "(nat \<Rightarrow> nat \<Rightarrow> nat) \<Rightarrow> 'a net_lib \<Rightarrow> string list \<Rightarrow> slice \<Rightarrow> 'a slice_heap \<Rightarrow> slice \<times> 'a slice_heap" where
  "parse_slice grow nl [] out h = (out, h)"
| "parse_slice grow nl (a # as) out h =
     (let a = TrimSpace a in
      if a = [] then parse_slice grow nl as out h
      else case nl_NewMultiaddr nl a of
        None \<Rightarrow> parse_slice grow nl as out h
      | Some ma \<Rightarrow> (case go_append grow out [ma] h of (out, h) \<Rightarrow> parse_slice grow nl as out h))"

definition addrs_factory ::
    "(nat \<Rightarrow> nat \<Rightarrow> nat) \<Rightarrow> slice \<Rightarrow> 'a list \<Rightarrow> 'a slice_heap \<Rightarrow> slice \<times> 'a slice_heap" where
  "addrs_factory grow announce addrs h = go_append grow announce addrs h"

subsection \<open>Lemmas\<close>

lemma upt_split: "[0..<n + k] = [0..<n] @ map (\<lambda>i. n + i) [0..<k]"
  using map_add_upt [of n k] upt_add_eq_append [of 0 n k] by (simp add: add.commute)

lemma put_at_vals: "map (put_at n xs f) [0..<n + length xs] = map f [0..<n] @ map Some xs"
proof -
  have "map (put_at n xs f) [0..<n] = map f [0..<n]"
    by (simp add: put_at_def)
  moreover have "map (\<lambda>i. put_at n xs f (n + i)) [0..<length xs] = map Some xs"
    by (rule nth_equalityI) (simp_all add: put_at_def)
  ultimately show ?thesis
    by (simp add: upt_split comp_def)
qed

definition slice_ok :: "'a slice_heap \<Rightarrow> slice \<Rightarrow> bool" where
  "slice_ok h s \<longleftrightarrow> gs_len s \<le> gs_cap s \<and> (gs_cap s \<noteq> 0 \<longrightarrow> gs_arr s < sh_next h)"

lemma append_vals:
  assumes "go_append grow s xs h = (s', h')"
  shows "slice_vals h' s' = slice_vals h s @ map Some xs"
proof (cases "gs_len s + length xs \<le> gs_cap s")
  case True
  then have "s' = s\<lparr>gs_len := gs_len s + length xs\<rparr>"
      "h' = h\<lparr>sh_cells := (sh_cells h)(gs_arr s := put_at (gs_len s) xs (sh_cells h (gs_arr s)))\<rparr>"
    using assms by (auto simp: go_append_def Let_def)
  then show ?thesis by (simp add: slice_vals_def put_at_vals)
next
  case False
  then show ?thesis
    using assms by (auto simp: go_append_def Let_def slice_vals_def put_at_vals)
qed

lemma append_ok:
  assumes "go_append grow s xs h = (s', h')" and "slice_ok h s" and "\<And>c n. n \<le> grow c n"
  shows "slice_ok h' s'"
  using assms by (auto simp: go_append_def slice_ok_def Let_def split: if_splits)

text \<open>The slice parsed holds what \<open>parseMultiaddrs\<close> gives.\<close>

lemma parse_slice_vals:
  assumes "\<forall>c n. n \<le> grow c n"
  shows "parse_slice grow nl as out h = (s, h') \<Longrightarrow> slice_ok h out \<Longrightarrow>
    slice_ok h' s \<and> slice_vals h' s = slice_vals h out @ map Some (parseMultiaddrs nl as)"
proof (induction as arbitrary: out h)
  case (Cons a as)
  show ?case
  proof (cases "TrimSpace a = [] \<or> nl_NewMultiaddr nl (TrimSpace a) = None")
    case True
    with Cons show ?thesis by (auto simp: Let_def)
  next
    case False
    then obtain ma where ma: "nl_NewMultiaddr nl (TrimSpace a) = Some ma" by auto
    obtain out' h1 where app: "go_append grow out [ma] h = (out', h1)" by fastforce
    have rest: "parse_slice grow nl as out' h1 = (s, h')"
      using Cons.prems(1) False ma app by (simp add: Let_def)
    have "slice_ok h1 out'"
      using append_ok [OF app Cons.prems(2)] assms by blast
    from Cons.IH [OF rest this] append_vals [OF app] False show ?thesis
      by (simp add: ma Let_def)
  qed
qed simp

text \<open>What a second \<open>append\<close> to the same slice does to the result of the first.\<close>

lemma put_at_over:
  "length ys \<le> length xs \<Longrightarrow>
    map (put_at n ys (put_at n xs f)) [0..<n + length xs] = map f [0..<n] @ map Some (ys @ drop (length ys) xs)"
  by (rule nth_equalityI) (auto simp: put_at_def nth_append)

lemma append_twice:
  assumes "slice_ok h s" and "length ys \<le> length xs"
    and "go_append grow s xs h = (r1, h1)" and "go_append grow s ys h1 = (r2, h2)"
  shows "slice_vals h2 r1 = slice_vals h s @ map Some
    (if gs_len s + length xs \<le> gs_cap s then ys @ drop (length ys) xs else xs)"
proof (cases "gs_len s + length xs \<le> gs_cap s")
  case True
  then show ?thesis
    using assms by (auto simp: go_append_def Let_def slice_vals_def put_at_over)
next
  case False
  have "slice_vals h2 r1 = slice_vals h1 r1"
  proof (cases "gs_cap s = 0")
    case True
    then show ?thesis
      using False assms by (auto simp: go_append_def Let_def slice_vals_def put_at_def slice_ok_def split: if_splits)
  next
    case room: False
    then have "gs_arr s \<noteq> sh_next h"
      using assms(1) by (auto simp: slice_ok_def)
    then show ?thesis
      using False assms(3,4) by (auto simp: go_append_def Let_def slice_vals_def split: if_splits)
  qed
  then show ?thesis
    using False append_vals [OF assms(3)] by simp
qed

lemma append_base: "go_append grow s xs h = (r, h') \<Longrightarrow> slice_ok h s \<Longrightarrow> slice_vals h' s = slice_vals h s"
  by (cases "gs_len s = 0") (auto simp: go_append_def slice_vals_def put_at_def slice_ok_def Let_def split: if_splits)

subsection \<open>Properties\<close>

text \<open>
  C40: The address lists of a host share an array: each call of the factory returns the announced addresses and then
  the host's own; but when the slice of announced addresses has room, as after three of them, the next call writes
  its own addresses into the list the previous call has returned; only without room are the lists apart.
\<close>

theorem announced_lists_shared:
  assumes "\<forall>c n. n \<le> grow c n" and "parse_slice grow nl as nil_slice h = (announce, h0)"
    and "length own2 \<le> length own1"
    and "addrs_factory grow announce own1 h0 = (r1, h1)" and "addrs_factory grow announce own2 h1 = (r2, h2)"
  shows "slice_vals h1 r1 = map Some (parseMultiaddrs nl as @ own1) \<and>
    slice_vals h2 r2 = map Some (parseMultiaddrs nl as @ own2) \<and>
    slice_vals h2 r1 = map Some (parseMultiaddrs nl as @
      (if gs_len announce + length own1 \<le> gs_cap announce then own2 @ drop (length own2) own1 else own1))"
proof -
  have "slice_ok h nil_slice" "slice_vals h nil_slice = []"
    by (simp_all add: slice_ok_def nil_slice_def slice_vals_def)
  with parse_slice_vals [OF assms(1,2)] have ann: "slice_ok h0 announce"
      "slice_vals h0 announce = map Some (parseMultiaddrs nl as)"
    by auto
  note calls = assms(4,5) [unfolded addrs_factory_def]
  show ?thesis
    using append_vals [OF calls(1)] append_vals [OF calls(2)] append_base [OF calls(1) ann(1)]
      append_twice [OF ann(1) assms(3) calls] ann(2) by auto
qed

text \<open>Three announced addresses with the doubling of Go's runtime; the host's own address changes between two calls.\<close>

definition doubling :: "nat \<Rightarrow> nat \<Rightarrow> nat" where
  "doubling c n = (if n \<le> 2 * c then 2 * c else n)"

theorem announced_lists_shared_witness:
  "\<exists>announce h0 r1 h1 r2 h2.
     parse_slice doubling plain_net [''/a'', ''/b'', ''/c''] nil_slice \<lparr>sh_cells = \<lambda>_ _. None, sh_next = 0\<rparr> = (announce, h0) \<and>
     addrs_factory doubling announce [[1]] h0 = (r1, h1) \<and> addrs_factory doubling announce [[2]] h1 = (r2, h2) \<and>
     last (slice_vals h1 r1) = Some [1] \<and> last (slice_vals h2 r1) = Some [2]"
proof -
  have trim: "TrimSpace ''/a'' = ''/a''" "TrimSpace ''/b'' = ''/b''" "TrimSpace ''/c'' = ''/c''"
    by (rule TrimSpace_graphic; simp add: graphic_def)+
  obtain announce h0 where parsed: "parse_slice doubling plain_net [''/a'', ''/b'', ''/c''] nil_slice
      \<lparr>sh_cells = \<lambda>_ _. None, sh_next = 0\<rparr> = (announce, h0)" by fastforce
  then have room: "gs_len announce + length [[1::byte]] \<le> gs_cap announce"
    by (auto simp: trim plain_net_fields go_append_def nil_slice_def doubling_def Let_def)
  obtain r1 h1 where one: "addrs_factory doubling announce [[1]] h0 = (r1, h1)" by fastforce
  obtain r2 h2 where two: "addrs_factory doubling announce [[2]] h1 = (r2, h2)" by fastforce
  have "\<forall>c n. n \<le> doubling c n" by (simp add: doubling_def)
  from announced_lists_shared [OF this parsed _ one two] room
  have "last (slice_vals h1 r1) = Some [1]" "last (slice_vals h2 r1) = Some [2]" by auto
  with parsed one two show ?thesis by blast
qed

end
