(* ===== verification/Spec2Isabelle.thy ===== *)
theory Spec2Isabelle
  imports EndToEnd LinuxFuse ExecBridge Native Relay MacCopy UnixSock Connections SessionFiles Typing Stdio FuseDaemon Announce
begin

text \<open>
  \<^bold>\<open>The program.\<close> \<open>remote-adapter\<close> (\<open>rca\<close>) runs a command on one host with a part of its file system,
  and its subprocesses, on another. An interceptor in the target process sends every filesystem call to
  the \<^emph>\<open>adapter\<close> (\<open>internal/adapter\<close>), which routes it by path prefix (\<open>internal/routing\<close>) to a filesystem
  service on its own host or, over a stream, to the \<^emph>\<open>executor\<close> (\<open>internal/executor\<close>) on the other; both
  hops speak one wire format (\<open>internal/protocol\<close>). A subprocess is replaced by a \<^emph>\<open>spawn proxy\<close>
  (\<open>cmd/rca/spawnproxy.go\<close>) that asks the executor to run it and relays its input, output and exit code
  (\<open>internal/execproto\<close>). The two sides find each other by a pairing code (\<open>internal/paircode\<close>). On Linux the
  routed directories are FUSE mounts (\<open>internal/linuxfuse\<close>) in a private mount namespace, which the command
  \<open>rca _nsrun\<close> sets up. The launcher (\<open>cmd/rca/run.go\<close>) reads the command line, chooses the routes, starts the
  adapter and runs the target.

  \<^bold>\<open>The theories\<close>, in the order of their imports:

  \<^item> \<open>Prelude\<close>, \<open>Streams\<close>, \<open>GoStrings\<close>, \<open>GoPath\<close>, \<open>GoEncoding\<close>, \<open>GoOS\<close>: Go's types and what the code uses of
    its standard library. Locales \<open>byte_source\<close>, \<open>ending_source\<close> and \<open>byte_sink\<close> state what the codecs need
    of a stream; \<open>GoPath\<close> shows that the byte loop of \<open>filepath.Clean\<close> is a function of path elements;
    \<open>GoEncoding\<close> has varints and base64; the host is the record \<open>os\<close> of \<open>GoOS\<close>, one function per system call,
    whose documented behaviour is \<open>os_tracks\<close> and \<open>os_bounded\<close>. \<open>MemOS\<close> is a host in memory for the witnesses.
  \<^item> \<open>Protocol\<close>, \<open>Conn\<close> (\<open>internal/protocol/protocol.go\<close>): frames, body builder and parser, the two codecs
    and the buffered connection. Round trips, what a decoded body can be, and that a send delivers its
    frame whole or leaves a dead connection.
  \<^item> \<open>Routing\<close> (\<open>internal/routing/routing.go\<close>): the string tests of \<open>IsRemote\<close> decide by path elements.
  \<^item> \<open>HandleTable\<close>: the locale \<open>handle_server\<close>, a server that gives out and retires handles; its lemmas hold
    for every run of requests. \<open>FSService\<close> (\<open>internal/executor/fs.go\<close>) and \<open>Adapter\<close> interpret it.
  \<^item> \<open>FSService\<close>: every operation of the service over the record \<open>os\<close>; handles, descriptors, error numbers,
    type bits.
  \<^item> \<open>ExecProto\<close>, \<open>ExecService\<close>, \<open>SpawnProxy\<close>: frames and spawn requests; the command \<open>serveExec\<close> builds, its
    pumps as the step relation \<open>exec_step\<close>, its control loop; the proxy's loop and what it relays, \<open>relay_step\<close>. The
    properties are about every interleaving. Processes a child leaves behind hold its pipes and keep the exit frame
    back; a child that does not read its input (\<open>stdin_pipe\<close>) keeps back later signals.
  \<^item> \<open>Executor\<close> (\<open>internal/executor/executor.go\<close>): \<open>serve_loop\<close> is the request loop of a connection, shared with
    the adapter; the theorems relate the bytes of a stream to a run of the service. \<open>Connections\<close> is \<open>Serve\<close> with its
    goroutines, one service for each connection, interleaved in any order of requests; \<open>services_ok\<close> is the invariant.
  \<^item> \<open>Adapter\<close> (\<open>internal/adapter/adapter.go\<close>): sessions over a record \<open>link\<close> of transport operations.
    \<open>Typing\<close>: the type of the answers to an operation, which every answer of a session has.
  \<^item> \<open>EndToEnd\<close>: the link instantiated with the executor's streams, and the specification \<open>hosts_handle\<close> with
    two services and one table and no wire; a simulation relates them. The theorems are in this theory.
    \<open>Severed\<close>: what becomes of a session when the executor ends its stream. \<open>SessionFiles\<close>: the files of a session
    on both hosts for requests and answers of any size, also when the stream is cut off; \<open>follows\<close> is the relation
    of session and specification that survives this.
  \<^item> \<open>LinuxFuse\<close> (\<open>internal/linuxfuse/fs_linux.go\<close>): the client of a mount with its reconnection, and every
    operation of its nodes over a \<open>caller\<close>. The client keeps no broken connection; over one session the handles are
    balanced and attributes and entries are those of the host. A connection that is dropped takes the session's
    files with it, while the kernel keeps its handles: these then name files of the next session.
  \<^item> \<open>PairCode\<close> (\<open>internal/paircode\<close>): \<open>Encode\<close> and \<open>Decode\<close>.
  \<^item> \<open>GoFlag\<close>, \<open>RunArgs\<close> (\<open>parseRunArgs\<close> of \<open>cmd/rca/run.go\<close>): the command line; its specification is a
    sequence of words and flags.
  \<^item> \<open>Profile\<close> (\<open>cmd/rca/profile.go\<close>): the engine profiles.
  \<^item> \<open>Launch\<close> (\<open>internal/adapter/launch.go\<close>): \<open>BuildCommand\<close> and what the target and its routed subprocesses
    find in their environments.
  \<^item> \<open>NsRun\<close> (\<open>main.go\<close>, \<open>run_fuse_linux.go\<close>, \<open>nsrun_linux.go\<close> of \<open>cmd/rca\<close>): \<open>dispatch\<close>, the argument vectors
    of the three processes, and the mounts of the inner stage over a record \<open>ns_os\<close>, in which \<open>umount\<close> refuses a
    mount in use or with another one below it (\<open>ns_unmounts\<close>); \<open>left_mounted\<close> is what therefore stays.
  \<^item> \<open>Run\<close> (\<open>cmdRun\<close> of \<open>cmd/rca/run.go\<close>): a run as the list of its events over a record \<open>run_host\<close> of answers;
    \<open>cmdRun_cases\<close> and \<open>launching_run\<close> take a run apart, the properties are about its events.
  \<^item> \<open>ExecBridge\<close> (\<open>internal/adapter/execbridge.go\<close>): the two copies of \<open>splice\<close> as the step relation
    \<open>splice_step\<close>; order, completeness and termination hold for every interleaving.
  \<^item> \<open>Native\<close> (\<open>cmd/rca/embedded.go\<close>): any number of processes that extract the interceptor into one cache
    directory, by the steps \<open>ext_step\<close>, each of which may fail; \<open>native_inv\<close> is their invariant.
  \<^item> \<open>MacCopy\<close> (\<open>PrepareMacOSCopy\<close> of \<open>internal/adapter/launch.go\<close>): the re-signed copy over a map of files, in
    which \<open>mh_file\<close> follows links.
  \<^item> \<open>Libp2p\<close> (\<open>internal/transport/libp2p.go\<close>): the options of a host, dialing, and the listener as the step relation
    \<open>listener_step\<close>; what the code uses of libp2p is the record \<open>net_lib\<close>. \<open>RelayClient\<close> (\<open>relay_client.go\<close>): relay
    reservations; \<open>refreshLoop\<close> is the loop that renews one, over a list of renewals with their delays, and
    \<open>refresh_sleeps\<close> lists its sleeps.
    \<open>Announce\<close> has the address factory of a host over slices on a heap, whose arrays its results share.
  \<^item> \<open>Pairing\<close> (\<open>serve.go\<close>, \<open>pairing.go\<close>): the command \<open>serve\<close> and the code it prints, up to the dialer the other
    side makes of it. \<open>Relay\<close> (\<open>relay.go\<close>): the command \<open>relay\<close> and its identity.
  \<^item> \<open>UnixSock\<close> (\<open>internal/transport/unixsocket.go\<close>): listeners and dialers of one host over its socket files.
  \<^item> \<open>Stdio\<close> (\<open>internal/transport/stdio.go\<close>, \<open>viaCloser\<close>): dialer and listener over one pipe, with yamux as the record
    \<open>yamux\<close>; the closer leaves no child of \<open>--via\<close> behind.
  \<^item> \<open>FuseDaemon\<close> (\<open>fuse_linux.go\<close>, \<open>MountRouted\<close>): the command \<open>_fuse\<close>; the daemon that serves a mount is the step
    relation \<open>daemon_step\<close>, in which a failed unmount makes it deaf to signals.

  \<^bold>\<open>Correspondence.\<close> A Go struct is a record, an operation a function from its arguments and the state to
  its result and the state, an error the left part of a sum; every early return is a branch. Integers of
  Go's fixed widths are words; a \<open>[]byte\<close> is a list of 8-bit words and a string a list of characters. Names
  are the source's, with a prefix (\<open>fs_\<close>, \<open>se_\<close>, \<open>ex_\<close>, ...) where a Go method name would clash.

  \<^bold>\<open>Bounds.\<close> Loops that read a stream terminate because each frame read is shorter than what was left;
  no fuel is used outside \<open>read_frames\<close>, whose bound is the number of frames asked for. Handle counters
  are 64-bit words that wrap; theorems that need distinct handles assume fewer than \<open>2 ^ 64 - 1\<close> requests.
  A frame holds 64 MiB: the refinements assume that requests and answers fit (\<open>run_fits\<close>, \<open>responses_fit\<close>), and
  \<open>Severed\<close> and \<open>SessionFiles\<close> say what happens when one does not.

  \<^bold>\<open>Not modelled\<close>: logging; the relay of signals to the target; what \<open>codesign\<close> makes of a file, which is a
  parameter; go-fuse, yamux and libp2p, which are records of the calls made; what a transport carries, which is the
  parameter \<open>link\<close>; the native interceptors in C. Goroutines of different connections interleave by whole
  requests (\<open>Connections\<close>), not inside one: each has a service of its own and shares only the host. \<open>encoding/json\<close>,
  libp2p identities and multiaddresses are parameters whose documented behaviour is a named hypothesis.
\<close>

section \<open>The program across its components\<close>

subsection \<open>Two hosts in memory, for the witnesses\<close>

definition remote_world :: mem where
  "remote_world = \<lparr>m_nodes = [(''/work'', DirNode 0x1ED 7), (''/work/f'', FileNode [7, 8, 9] 0x1A4 3)], m_fds = []\<rparr>"

text \<open>An open and a read on the executor's host, a stat on the local one.\<close>

definition sample_session :: "request list" where
  "sample_session = [(request0 OpOpen)\<lparr>rq_Path := ''/work/f''\<rparr>,
     (request0 OpPread)\<lparr>rq_Handle := 1, rq_Off := 1, rq_Len := 8\<rparr>, (request0 OpStat)\<lparr>rq_Path := ''/w/f''\<rparr>]"

definition sample_answers :: "response list" where
  "sample_answers = [(response0 0)\<lparr>rs_Mode := 0x81A4, rs_Size := 3, rs_Handle := 1, rs_Mtime := 3\<rparr>,
     (response0 0)\<lparr>rs_Data := [8, 9]\<rparr>, (response0 0)\<lparr>rs_Mode := 0x81A4, rs_Size := 5, rs_Mtime := 9\<rparr>]"

lemma work_table_paths: "IsRemote work_table ''/work/f''" "\<not> IsRemote work_table ''/w/f''"
proof -
  have t: "TrimSpace ''/work'' = ''/work''"
    by (rule TrimSpace_graphic) (simp add: graphic_def)
  show "IsRemote work_table ''/work/f''" "\<not> IsRemote work_table ''/w/f''"
    by (simp_all add: work_table_def IsRemote_allow t Clean_def clean_loop.simps HasPrefix_def)
qed

lemma Clean_sample: "Clean ''/work/f'' = ''/work/f''" "Clean ''/w/f'' = ''/w/f''"
  by (simp_all add: Clean_def clean_loop.simps)

lemmas on_memory = memos_def mem_open_def mem_node_def Clean_sample fresh_fd_def mem_fstat_def mem_stat_def
  mem_read_def fileMode_def Perm_def mode_IsDir_def

lemma sample_hosts1:
  "hosts_handle memos memos work_table (sample_session ! 0) (hosts0 sample_world remote_world) =
     (sample_answers ! 0, (hosts0 sample_world remote_world)
        \<lparr>ho_rfs := \<lparr>fs_next = 2, fs_open = [1 \<mapsto> 1]\<rparr>, ho_r := remote_world\<lparr>m_fds := [(1, ''/work/f'')]\<rparr>,
         ho_next := 2, ho_handles := [1 \<mapsto> \<lparr>hr_remote = True, hr_real = 1\<rparr>]\<rparr>)"
  by (simp add: hosts_handle_def target_def host_call_def sample_session_def sample_answers_def hosts0_def
      remote_world_def NewFSService_def fs_Handle_def request0_def fs_openFile_def openWithMode_def
      is_open_def work_table_paths on_memory)

lemma sample_hosts:
  "\<exists>st. run (hosts_handle memos memos work_table) sample_session (hosts0 sample_world remote_world) = (sample_answers, st) \<and>
     ho_handles st = [1 \<mapsto> \<lparr>hr_remote = True, hr_real = 1\<rparr>]"
  "run_fits memos memos work_table sample_session (hosts0 sample_world remote_world)"
proof -
  let ?h = "hosts_handle memos memos work_table" and ?q = "(!) sample_session"
  let ?st1 = "(hosts0 sample_world remote_world)
        \<lparr>ho_rfs := \<lparr>fs_next = 2, fs_open = [1 \<mapsto> 1]\<rparr>, ho_r := remote_world\<lparr>m_fds := [(1, ''/work/f'')]\<rparr>,
         ho_next := 2, ho_handles := [1 \<mapsto> \<lparr>hr_remote = True, hr_real = 1\<rparr>]\<rparr>"
  have h2: "?h (?q 1) ?st1 = (sample_answers ! 1, ?st1)"
    by (simp add: hosts_handle_def target_def host_call_def sample_session_def sample_answers_def hosts0_def
        remote_world_def fs_Handle_def request0_def fs_pread_def is_open_def path_op_def
        by_handle_def on_memory Let_def)
  have h3: "?h (?q 2) ?st1 = (sample_answers ! 2, ?st1)"
    by (simp add: hosts_handle_def target_def host_call_def sample_session_def sample_answers_def hosts0_def
        sample_world_def fs_Handle_def request0_def fs_stat_def is_open_def path_op_def
        work_table_paths on_memory)
  have qs: "sample_session = [?q 0, ?q 1, ?q 2]" "sample_answers = [sample_answers ! 0, sample_answers ! 1, sample_answers ! 2]"
    by (simp_all add: sample_session_def sample_answers_def)
  have "run ?h [?q 0, ?q 1, ?q 2] (hosts0 sample_world remote_world) =
      ([sample_answers ! 0, sample_answers ! 1, sample_answers ! 2], ?st1)"
    by (simp add: sample_hosts1 h2 h3 del: One_nat_def)
  then show "\<exists>st. run ?h sample_session (hosts0 sample_world remote_world) = (sample_answers, st) \<and>
      ho_handles st = [1 \<mapsto> \<lparr>hr_remote = True, hr_real = 1\<rparr>]"
    unfolding qs [symmetric] by (intro exI [of _ ?st1]) simp
  have "fits memos work_table (?q 0) (hosts0 sample_world remote_world)"
    by (simp add: fits_def target_def sample_session_def hosts0_def
      remote_world_def NewFSService_def fs_Handle_def request0_def fs_openFile_def openWithMode_def
      is_open_def work_table_paths on_memory encodeRequest_def encodeResponse_def put_simps MaxFrame_def response0_def)
  moreover have "fits memos work_table (?q 1) ?st1"
    by (simp add: fits_def target_def sample_session_def hosts0_def
        remote_world_def fs_Handle_def request0_def fs_pread_def is_open_def path_op_def
        by_handle_def on_memory Let_def encodeRequest_def encodeResponse_def put_simps MaxFrame_def response0_def)
  moreover have "fits memos work_table (?q 2) ?st1"
    by (simp add: fits_def target_def sample_session_def request0_def is_open_def path_op_def work_table_paths)
  ultimately have "run_fits memos memos work_table [?q 0, ?q 1, ?q 2] (hosts0 sample_world remote_world)"
    by (simp add: sample_hosts1 h2 h3 del: One_nat_def)
  then show "run_fits memos memos work_table sample_session (hosts0 sample_world remote_world)"
    unfolding qs [symmetric] .
qed

lemma sample_wire: "\<exists>s. requests_wire sample_session = Some s"
  by (simp add: sample_session_def requests_wire_def encodeRequest_def request0_def put_simps MaxFrame_def)

lemma sample_answers_fit: "responses_fit sample_session sample_answers"
  by (simp add: sample_session_def sample_answers_def responses_fit_def encodeResponse_def request0_def
      response0_def put_simps MaxFrame_def)

lemma sample_relevant: "map relevant sample_session = sample_session"
  by (simp add: sample_session_def relevant_def request0_def)

subsection \<open>A session over the executor\<close>
text \<open>
  C1: A session is two filesystem services and one table: whenever each request for the executor and
  its answer are at most a frame, the answers of a session whose remote side is the executor's stream
  (every remote operation encoded, served by \<open>serveFS\<close>'s loop and decoded) are exactly those of the
  specification \<open>hosts_handle\<close>, which has no wire, no connection and no executor; and both hosts end in
  the states the specification gives them.
\<close>

theorem session_refines_hosts:
  assumes "run_fits lsys rsys route qs (hosts0 l r)"
  shows "let (rs, st) = run (hosts_handle lsys rsys route) qs (hosts0 l r);
      (rs', s, w) = run (session_handle (local_os lsys) (net_link rsys order) route) qs (new_session, net0 l r)
    in rs' = rs \<and> nt_local w = ho_l st \<and> nt_remote w = ho_r st"
proof -
  obtain rs st where run: "run (hosts_handle lsys rsys route) qs (hosts0 l r) = (rs, st)" by fastforce
  from simulates_run [OF simulates0 assms run, of order] obtain s w where
    "run (session_handle (local_os lsys) (net_link rsys order) route) qs (new_session, net0 l r) = (rs, s, w)"
    "simulates (s, w) st" by auto
  with run show ?thesis by (simp add: simulates_def)
qed

theorem session_refines_hosts_witness:
  "fst (run (session_handle (local_os memos) (net_link memos sorted_order) work_table) sample_session
     (new_session, net0 sample_world remote_world)) = sample_answers"
  using session_refines_hosts [OF sample_hosts(2), of sorted_order] sample_hosts(1)
  by (auto simp: Let_def case_prod_beta)

text \<open>
  C10: Handles are never confused: after any requests, fewer than \<open>2 ^ 64 - 1\<close>, every live handle of the adapter stands for
  an open file of the side it names, the local service or the executor's service for the session's stream, and no two
  handles stand for the same one. The one exception is a stream the executor has ended, which happens only after a
  request or an answer that does not fit in a frame: then every use of a remote handle gets \<open>EIO\<close> and reaches
  no host.
\<close>

theorem handles_never_confused:
  assumes "length qs < 2 ^ 64 - 1"
    and "run (session_handle (local_os lsys) (net_link rsys order) route) qs (new_session, net0 l r) = (rs, s, w)"
    and "se_handles s a = Some ref"
  shows "(if hr_remote ref
      then \<exists>c b. se_remote s = Some (c, b) \<and>
        (if st_ended (nt_streams w ! c)
         then \<not> run_fits lsys rsys route qs (hosts0 l r) \<and>
           (\<forall>q. by_handle q \<and> rq_Handle q = a \<longrightarrow>
              (\<exists>s'. session_handle (local_os lsys) (net_link rsys order) route q (s, w) = (io_failure, s', w)))
         else hr_real ref \<in> dom (fs_open (st_fs (nt_streams w ! c))))
      else hr_real ref \<in> dom (fs_open (se_localFS s))) \<and>
    (\<forall>a'. se_handles s a' = Some ref \<longrightarrow> a' = a)"
proof -
  have "follows (new_session, net0 l r) (hosts0 l r)"
    by (simp add: follows_def simulates0)
  from follows_run [OF this table_ok0 room0 [OF assms(1)] assms(2)] obtain st where
    f: "follows (s, w) st" and ok: "table_ok st" by blast
  have tab: "ho_handles st = se_handles s" "ho_lfs st = se_localFS s"
    using f by (auto simp: follows_def simulates_def)
  have live: "hr_real ref \<in> fst (side_fs (hr_remote ref) st)"
    using ok assms(3) tab by (simp add: table_ok_def)
  have "a' = a" if "se_handles s a' = Some ref" for a'
    using that ok assms(3) tab by (auto simp: table_ok_def inj_on_def dom_def)
  moreover have "hr_real ref \<in> dom (fs_open (se_localFS s))" if "\<not> hr_remote ref"
    using that live tab by (simp add: side_fs_def)
  moreover have "\<exists>c b. se_remote s = Some (c, b) \<and>
        (if st_ended (nt_streams w ! c)
         then \<not> run_fits lsys rsys route qs (hosts0 l r) \<and>
           (\<forall>q. by_handle q \<and> rq_Handle q = a \<longrightarrow>
              (\<exists>s'. session_handle (local_os lsys) (net_link rsys order) route q (s, w) = (io_failure, s', w)))
         else hr_real ref \<in> dom (fs_open (st_fs (nt_streams w ! c))))" if "hr_remote ref"
  proof (cases "\<exists>fs. cut_off s w fs")
    case True
    then obtain fs where cut: "cut_off s w fs" by blast
    then have "\<not> linked s w fs'" for fs' by (auto simp: cut_off_def linked_def idle_def dialed_def)
    moreover obtain rs' st' where spec: "run (hosts_handle lsys rsys route) qs (hosts0 l r) = (rs', st')" by fastforce
    moreover have "linked s w (ho_rfs st')" if "run_fits lsys rsys route qs (hosts0 l r)"
      using simulates_run [OF simulates0 that spec, of order] assms(2) by (auto simp: simulates_def)
    ultimately have "\<not> run_fits lsys rsys route qs (hosts0 l r)" by blast
    moreover have "\<exists>s'. session_handle (local_os lsys) (net_link rsys order) route q (s, w) = (io_failure, s', w)"
      if q: "by_handle q" "rq_Handle q = a" for q
    proof -
      let ?s = "if rq_Op q = OpClose then s\<lparr>se_handles := (se_handles s)(a := None)\<rparr> else s"
      have "cut_off ?s w fs" using cut by (simp add: cut_off_def)
      from cut_off_remoteRPC [OF this, of rsys order "q\<lparr>rq_Handle := hr_real ref\<rparr>"] q assms(3) \<open>hr_remote ref\<close>
      show ?thesis by (auto simp: session_handle_by_handle byHandle_def Let_def)
    qed
    ultimately show ?thesis using cut by (auto simp: cut_off_def)
  next
    case False
    then have "linked s w (ho_rfs st)" using f by (auto simp: follows_def simulates_def)
    with that live show ?thesis
      by (auto simp: side_fs_def linked_def idle_def dialed_def NewFSService_def)
  qed
  ultimately show ?thesis by auto
qed

theorem handles_never_confused_witness:
  "let (s, w) = snd (run (session_handle (local_os memos) (net_link memos sorted_order) work_table)
       sample_session (new_session, net0 sample_world remote_world))
   in se_handles s 1 = Some \<lparr>hr_remote = True, hr_real = 1\<rparr> \<and>
     (\<exists>c b. se_remote s = Some (c, b) \<and> 1 \<in> dom (fs_open (st_fs (nt_streams w ! c))))"
proof -
  obtain rs s w where run: "run (session_handle (local_os memos) (net_link memos sorted_order) work_table)
      sample_session (new_session, net0 sample_world remote_world) = (rs, s, w)"
    by (metis prod_cases3)
  obtain st where st: "run (hosts_handle memos memos work_table) sample_session (hosts0 sample_world remote_world) =
      (sample_answers, st)" "ho_handles st = [1 \<mapsto> \<lparr>hr_remote = True, hr_real = 1\<rparr>]"
    using sample_hosts(1) by blast
  from simulates_run [OF simulates0 sample_hosts(2) st(1), of sorted_order] run st(2)
  have h: "se_handles s 1 = Some \<lparr>hr_remote = True, hr_real = 1\<rparr>"
    by (auto simp: simulates_def)
  have len: "length sample_session < 2 ^ 64 - 1"
    by (simp add: sample_session_def)
  from handles_never_confused [OF len run h] sample_hosts(2) run h show ?thesis
    by (auto split: if_splits)
qed

text \<open>
  C3: The interceptor's stream through both codecs: for requests that encode, the bytes \<open>serveConn\<close>
  writes back, read frame by frame for the operations sent, are exactly the specification's answers,
  with the remote ones having crossed the second wire to the executor and back.
\<close>

theorem interceptor_reads_hosts:
  assumes "requests_wire qs = Some s"
    and "run_fits lsys rsys route (map relevant qs) (hosts0 l r)"
    and "run (hosts_handle lsys rsys route) qs (hosts0 l r) = (rs, st)" and "responses_fit qs rs"
  shows "read_responses (map rq_Op qs) (sk_out (fst (serveConn (local_os lsys) order (net_link rsys order') route
      s \<lparr>sk_out = [], sk_room = None\<rparr> (net0 l r)))) = (Inr rs, [])"
proof -
  have "run (hosts_handle lsys rsys route) (map relevant qs) (hosts0 l r) = (rs, st)"
    by (simp add: run_hosts_relevant assms(3))
  from simulates_run [OF simulates0 assms(2) this, of order'] obtain sw where
    "run (session_handle (local_os lsys) (net_link rsys order') route) (map relevant qs) (new_session, net0 l r) = (rs, sw)"
    by blast
  from serve_loop_requests [OF assms(1) this assms(4), of "\<lparr>sk_out = [], sk_room = None\<rparr>"]
  have "sk_out (fst (serveConn (local_os lsys) order (net_link rsys order') route
      s \<lparr>sk_out = [], sk_room = None\<rparr> (net0 l r))) = responses_wire qs rs"
    by (simp add: serveConn_def case_prod_beta)
  with read_responses_wire [OF assms(4)] run_hosts_responses [OF assms(3)] show ?thesis by simp
qed

theorem interceptor_reads_hosts_witness:
  "\<exists>s. requests_wire sample_session = Some s \<and>
     read_responses [OpOpen, OpPread, OpStat] (sk_out (fst (serveConn (local_os memos) sorted_order
       (net_link memos sorted_order) work_table s \<lparr>sk_out = [], sk_room = None\<rparr>
       (net0 sample_world remote_world)))) = (Inr sample_answers, [])"
proof -
  obtain s where s: "requests_wire sample_session = Some s" using sample_wire by blast
  obtain st where st: "run (hosts_handle memos memos work_table) sample_session (hosts0 sample_world remote_world) =
      (sample_answers, st)"
    using sample_hosts(1) by blast
  have "run_fits memos memos work_table (map relevant sample_session) (hosts0 sample_world remote_world)"
    using sample_hosts(2) by (simp add: sample_relevant)
  moreover have "map rq_Op sample_session = [OpOpen, OpPread, OpStat]"
    by (simp add: sample_session_def request0_def)
  ultimately show ?thesis
    using interceptor_reads_hosts [OF s _ st sample_answers_fit, of sorted_order sorted_order] s by simp
qed

text \<open>
  C11: A connection of an interceptor leaks no file on either host: whatever bytes it sent, fewer than \<open>2 ^ 64 - 1\<close>, complete
  requests or not, whatever the answers, and wherever writing to it began to fail, when \<open>serveConn\<close> returns
  exactly the files open before are open on the local host and on the executor's. The hosts open and close files as
  documented, and the transport to the executor loses nothing.
\<close>

theorem no_leak_on_either_host:
  assumes "os_tracks lsys lopened" and "os_tracks rsys ropened"
    and "range_order order" and "range_order order'" and "length s < 2 ^ 64 - 1"
  shows "let w = snd (serveConn (local_os lsys) order (net_link rsys order') route s out (net0 l r))
    in lopened (nt_local w) = lopened l \<and> ropened (nt_remote w) = ropened r"
proof -
  let ?h = "session_handle (local_os lsys) (net_link rsys order') route"
  obtain c se w where loop: "serve_loop ?h s (NewConn, out) (new_session, net0 l r) = (c, se, w)"
    by (metis prod_cases3)
  obtain qs where qs: "snd (run ?h qs (new_session, net0 l r)) = (se, w)" "length qs \<le> length s"
    using serve_loop_run [OF loop] by blast
  obtain rs where run: "run ?h qs (new_session, net0 l r) = (rs, se, w)"
    using qs(1) by (metis prod.collapse)
  obtain se' w' where close: "session_close (local_os lsys) order (net_link rsys order') (se, w) = (se', w')" by fastforce
  have "holding lopened (lopened l) ropened (ropened r) (length qs) new_session (net0 l r)"
    using qs(2) assms(5) by (auto simp: holding_def linked_def net0_def serving_new)
  from holding_run [OF assms(1,2,4) this run] have "holding lopened (lopened l) ropened (ropened r) 0 se w" .
  from holding_close [OF assms(1-4) this close] have
    "lopened (nt_local w') = lopened l \<and> ropened (nt_remote w') = ropened r" .
  then show ?thesis
    by (cases c) (simp add: serveConn_def loop close)
qed

text \<open>A file opened on the executor's host, then garbage, on a connection that takes three bytes of the answers.\<close>

theorem no_leak_on_either_host_witness:
  "let w = snd (serveConn (local_os memos) sorted_order (net_link memos sorted_order) work_table
      (frame (OpOpen # be32 0 @ enc_str ''/work/f'') @ [0, 0]) \<lparr>sk_out = [], sk_room = Some 3\<rparr>
      (net0 sample_world remote_world))
   in mem_opened (nt_local w) = {} \<and> mem_opened (nt_remote w) = {}"
  using no_leak_on_either_host [OF memos_tracks memos_tracks range_order_sorted range_order_sorted,
      of "frame (OpOpen # be32 0 @ enc_str ''/work/f'') @ [0, 0]" work_table "\<lparr>sk_out = [], sk_room = Some 3\<rparr>"
        sample_world remote_world]
  by (simp add: sample_world_def remote_world_def mem_opened_def)

text \<open>
  C2: A routed mount shows the two hosts: the calls of the FUSE client, over its connection to the
  adapter's request loop, and from there over the executor's stream, are answered exactly as the
  specification answers them, for calls whose requests can be encoded, when every request and every answer is at most a
  frame on both hops, and neither connection fails.
\<close>

theorem fuse_mount_shows_hosts:
  assumes "requests_wire qs = Some s"
    and "run_fits lsys rsys route (map relevant qs) (hosts0 l r)"
    and "run (hosts_handle lsys rsys route) qs (hosts0 l r) = (rs, st)" and "responses_fit qs rs"
  shows "fst (run (client_call (served_link (session_handle (local_os lsys) (net_link rsys order) route)
      (\<lambda>(s, w). (new_session, w)) (session_close (local_os lsys) order' (net_link rsys order)))) qs
      (None, \<lparr>sv_in = [], sv_out = [], sv_state = (new_session, net0 l r)\<rparr>)) = rs"
proof -
  let ?h = "session_handle (local_os lsys) (net_link rsys order) route"
  have "run (hosts_handle lsys rsys route) (map relevant qs) (hosts0 l r) = (rs, st)"
    by (simp add: run_hosts_relevant assms(3))
  from simulates_run [OF simulates0 assms(2) this, of order] obtain sw where
    run: "run ?h (map relevant qs) (new_session, net0 l r) = (rs, sw)"
    by blast
  have "connected (\<lambda>(s, w). (new_session, w)) (None, \<lparr>sv_in = [], sv_out = [], sv_state = (new_session, net0 l r)\<rparr>)
      (new_session, net0 l r)"
    by (simp add: connected_def)
  from connected_run [OF this assms(1) run assms(4), of "session_close (local_os lsys) order' (net_link rsys order)"]
  show ?thesis
    using run_hosts_responses [OF assms(3)] by auto
qed

theorem fuse_mount_shows_hosts_witness:
  "fst (run (client_call (served_link (session_handle (local_os memos) (net_link memos sorted_order) work_table)
      (\<lambda>(s, w). (new_session, w)) (session_close (local_os memos) sorted_order (net_link memos sorted_order)))) sample_session
      (None, \<lparr>sv_in = [], sv_out = [], sv_state = (new_session, net0 sample_world remote_world)\<rparr>)) = sample_answers"
proof -
  obtain s where s: "requests_wire sample_session = Some s" using sample_wire by blast
  obtain st where st: "run (hosts_handle memos memos work_table) sample_session (hosts0 sample_world remote_world) =
      (sample_answers, st)"
    using sample_hosts(1) by blast
  have "run_fits memos memos work_table (map relevant sample_session) (hosts0 sample_world remote_world)"
    using sample_hosts(2) by (simp add: sample_relevant)
  from fuse_mount_shows_hosts [OF s this st sample_answers_fit] show ?thesis .
qed

end
